(* ===== verification/Prelude.thy ===== *)
theory Prelude
  imports Main "HOL-Library.Word" "HOL-Library.Sublist" "HOL-Library.Monad_Syntax"
begin

text \<open>
  What every component of the model shares: the machine types, the byte arrays and the
  C string functions of \<^verbatim>\<open>string.h\<close> and \<^verbatim>\<open>stdlib.h\<close> that the sources call, number
  printing as \<^verbatim>\<open>sprintf\<close> does it, and the collections of facts the component theories add to.

  A function that may touch memory outside the object it was given returns an
  \<open>option\<close>: \<open>None\<close> is an access the C standard leaves undefined (a write past
  the end of an array, a negative length given to \<^verbatim>\<open>memmove\<close>, a wild pointer), and
  \<open>Some\<close> is the result of a run that stayed inside its objects. Errors that the
  program itself reports are ordinary values.
\<close>

named_theorems array_simps \<open>lengths and contents of byte arrays after a write\<close>
named_theorems cstr_simps \<open>C strings: where they end, what they hold\<close>
named_theorems frame_simps \<open>fields that an operation leaves alone\<close>

unbundle bit_operations_syntax

section \<open>Machine types and characters\<close>

type_synonym u8 = "8 word"
type_synonym u32 = "32 word"
type_synonym u64 = "64 word"
type_synonym bytes = "char list"

abbreviation NUL :: char where "NUL \<equiv> CHR 0x00"
abbreviation CR :: char where "CR \<equiv> CHR 0x0D"
abbreviation LF :: char where "LF \<equiv> CHR 0x0A"
abbreviation DQ :: char where "DQ \<equiv> CHR 0x22"

definition CRLF :: string where
  "CRLF = [CR, LF]"

text \<open>The value of an \<open>unsigned char\<close>, and the character of a value.\<close>

definition ord :: "char \<Rightarrow> nat" where
  "ord c = of_char c"

definition chr :: "nat \<Rightarrow> char" where
  "chr n = char_of n"

lemma ord_less [simp]: "ord c < 256"
  by (simp add: ord_def)

lemma chr_ord [simp]: "chr (ord c) = c"
  by (simp add: ord_def chr_def)

lemma ord_chr [simp]: "n < 256 \<Longrightarrow> ord (chr n) = n"
  by (simp add: ord_def chr_def of_char_of take_bit_eq_mod)

lemma ord_inject [simp]: "ord c = ord d \<longleftrightarrow> c = d"
  by (simp add: ord_def)

text \<open>The value of a signed 32-bit \<open>int\<close> after wrap-around.\<close>

definition s32 :: "int \<Rightarrow> int" where
  "s32 x = (x + 2147483648) mod 4294967296 - 2147483648"

lemma s32_id [simp]: "- 2147483648 \<le> x \<Longrightarrow> x < 2147483648 \<Longrightarrow> s32 x = x"
  by (simp add: s32_def)

lemma s32_range: "- 2147483648 \<le> s32 x \<and> s32 x < 2147483648"
proof -
  have "0 \<le> (x + 2147483648) mod 4294967296 \<and> (x + 2147483648) mod 4294967296 < 4294967296"
    by simp
  then show ?thesis unfolding s32_def by linarith
qed

section \<open>Scanning a table\<close>

text \<open>The first index of a table that satisfies a test, as a C \<^verbatim>\<open>for\<close> loop finds it.\<close>

lemma find_index_Some:
  "List.find P [0..<n] = Some i \<longleftrightarrow> i < n \<and> P i \<and> (\<forall>j < i. \<not> P j)"
  by (auto simp: find_Some_iff)

lemma find_index_None: "List.find P [0..<n] = None \<longleftrightarrow> (\<forall>i < n. \<not> P i)"
  by (auto simp: find_None_iff)

section \<open>Byte arrays\<close>

text \<open>
  An array is a list of its size. Offsets are C \<open>int\<close>s and may be negative; every
  access says whether it stays inside.
\<close>

definition in_arr :: "bytes \<Rightarrow> int \<Rightarrow> int \<Rightarrow> bool" where
  "in_arr a off n \<longleftrightarrow> 0 \<le> off \<and> 0 \<le> n \<and> off + n \<le> int (length a)"

definition zeros :: "nat \<Rightarrow> bytes" where
  "zeros n = replicate n NUL"

definition peek :: "bytes \<Rightarrow> int \<Rightarrow> char option" where
  "peek a i = (if in_arr a i 1 then Some (a ! nat i) else None)"

definition poke :: "bytes \<Rightarrow> int \<Rightarrow> char \<Rightarrow> bytes option" where
  "poke a i c = (if in_arr a i 1 then Some (a[nat i := c]) else None)"

text \<open>\<open>memcpy(a + off, src, strlen-free length of src)\<close>.\<close>

definition blit :: "bytes \<Rightarrow> int \<Rightarrow> bytes \<Rightarrow> bytes option" where
  "blit a off src =
     (if in_arr a off (int (length src))
      then Some (take (nat off) a @ src @ drop (nat off + length src) a) else None)"

text \<open>\<open>memmove(a + d, a + s, n)\<close> inside one array.\<close>

definition memmove :: "bytes \<Rightarrow> int \<Rightarrow> int \<Rightarrow> int \<Rightarrow> bytes option" where
  "memmove a d s n =
     (if in_arr a s n then blit a d (take (nat n) (drop (nat s) a)) else None)"

lemma length_zeros [simp]: "length (zeros n) = n"
  by (simp add: zeros_def)

lemma length_poke [array_simps]: "poke a i c = Some b \<Longrightarrow> length b = length a"
  by (auto simp: poke_def split: if_splits)

lemma length_blit [array_simps]: "blit a off src = Some b \<Longrightarrow> length b = length a"
  by (auto simp: blit_def in_arr_def split: if_splits)

lemma length_memmove [array_simps]: "memmove a d s n = Some b \<Longrightarrow> length b = length a"
  by (auto simp: memmove_def array_simps split: if_splits)

lemma poke_Some [simp]: "in_arr a i 1 \<Longrightarrow> poke a i c = Some (a[nat i := c])"
  by (simp add: poke_def)

lemma poke_eq_Some: "poke a i c = Some b \<longleftrightarrow> in_arr a i 1 \<and> b = a[nat i := c]"
  by (auto simp: poke_def)

lemma blit_eq_Some:
  "blit a off src = Some b \<longleftrightarrow> in_arr a off (int (length src))
     \<and> b = take (nat off) a @ src @ drop (nat off + length src) a"
  by (auto simp: blit_def)

lemma take_blit:
  "blit a off src = Some b \<Longrightarrow> take (nat off + length src) b = take (nat off) a @ src"
  by (auto simp: blit_eq_Some in_arr_def)

lemma drop_blit:
  "blit a off src = Some b \<Longrightarrow> drop (nat off + length src) b = drop (nat off + length src) a"
  by (auto simp: blit_eq_Some in_arr_def)

lemma memmove_down:
  assumes "0 \<le> s" and "0 \<le> n" and "s + n \<le> int (length a)"
  shows "memmove a 0 s n = Some (take (nat n) (drop (nat s) a) @ drop (nat n) a)"
proof -
  have "length (take (nat n) (drop (nat s) a)) = nat n"
    using assms by auto
  then show ?thesis using assms by (simp add: memmove_def blit_def in_arr_def)
qed

section \<open>C strings\<close>

text \<open>The string an array holds: its bytes up to the first NUL.\<close>

definition cstr :: "bytes \<Rightarrow> string" where
  "cstr a = takeWhile (\<lambda>c. c \<noteq> NUL) a"

definition nul_free :: "string \<Rightarrow> bool" where
  "nul_free s \<longleftrightarrow> NUL \<notin> set s"

lemma nul_free_simps [simp]:
  "nul_free []"
  "nul_free (c # s) \<longleftrightarrow> c \<noteq> NUL \<and> nul_free s"
  "nul_free (s @ t) \<longleftrightarrow> nul_free s \<and> nul_free t"
  by (auto simp: nul_free_def)

lemma nul_free_cstr [simp]: "nul_free (cstr a)"
  by (auto simp: nul_free_def cstr_def dest: set_takeWhileD)

lemma nul_free_take [intro]: "nul_free s \<Longrightarrow> nul_free (take n s)"
  by (auto simp: nul_free_def dest: in_set_takeD)

lemma nul_free_drop [intro]: "nul_free s \<Longrightarrow> nul_free (drop n s)"
  by (auto simp: nul_free_def dest: in_set_dropD)

lemma cstr_nul_free [simp]: "nul_free s \<Longrightarrow> cstr s = s"
  by (auto simp: nul_free_def cstr_def takeWhile_eq_all_conv)

lemma cstr_append_NUL [cstr_simps]: "nul_free s \<Longrightarrow> cstr (s @ NUL # r) = s"
  by (induction s) (auto simp: cstr_def)

lemma cstr_Nil [simp]: "cstr [] = []"
  by (simp add: cstr_def)

lemma cstr_Cons [simp]: "cstr (c # s) = (if c = NUL then [] else c # cstr s)"
  by (simp add: cstr_def)

lemma length_cstr_le [simp]: "length (cstr a) \<le> length a"
  by (simp add: cstr_def length_takeWhile_le)

lemma cstr_zeros [simp]: "cstr (zeros n) = []"
  by (cases n) (simp_all add: zeros_def)

lemma take_cstr: "take (length (cstr a)) a = cstr a"
  by (induction a) auto

lemma cstr_less_NUL:
  "length (cstr a) < length a \<Longrightarrow> a ! length (cstr a) = NUL"
  unfolding cstr_def using nth_length_takeWhile by blast

text \<open>The C string at an offset of an array; running off the end of the array is undefined.\<close>

definition cstr_at :: "bytes \<Rightarrow> int \<Rightarrow> string option" where
  "cstr_at a off =
     (if 0 \<le> off \<and> NUL \<in> set (drop (nat off) a) then Some (cstr (drop (nat off) a)) else None)"

lemma cstr_at_nul_free [cstr_simps]: "cstr_at a off = Some s \<Longrightarrow> nul_free s"
  by (auto simp: cstr_at_def split: if_splits)

text \<open>\<open>strcpy(a + off, s)\<close> and \<open>strcat(a, s)\<close> on an array.\<close>

definition strcpy_at :: "bytes \<Rightarrow> int \<Rightarrow> string \<Rightarrow> bytes option" where
  "strcpy_at a off s = blit a off (s @ [NUL])"

definition strcat :: "bytes \<Rightarrow> string \<Rightarrow> bytes option" where
  "strcat a s = strcpy_at a (int (length (cstr a))) s"

lemma cstr_strcpy0 [cstr_simps]:
  "strcpy_at a 0 s = Some b \<Longrightarrow> nul_free s \<Longrightarrow> cstr b = s"
  by (auto simp: strcpy_at_def blit_eq_Some in_arr_def cstr_append_NUL)

lemma cstr_strcpy_end [cstr_simps]:
  assumes "strcpy_at a (int (length (cstr a))) s = Some b" and "nul_free s"
  shows "cstr b = cstr a @ s"
proof -
  from assms(1) have "b = (cstr a @ s) @ NUL # drop (length (cstr a) + Suc (length s)) a"
    by (auto simp: strcpy_at_def blit_eq_Some take_cstr)
  then show ?thesis using assms(2) by (metis cstr_append_NUL nul_free_cstr nul_free_simps(3))
qed

lemma cstr_strcat [cstr_simps]:
  "strcat a s = Some b \<Longrightarrow> nul_free s \<Longrightarrow> cstr b = cstr a @ s"
  unfolding strcat_def by (rule cstr_strcpy_end)

lemma length_strcpy_at [array_simps]: "strcpy_at a off s = Some b \<Longrightarrow> length b = length a"
  by (auto simp: strcpy_at_def array_simps)

lemma length_strcat [array_simps]: "strcat a s = Some b \<Longrightarrow> length b = length a"
  by (auto simp: strcat_def array_simps)

lemma strcat_defined:
  "strcat a s \<noteq> None \<longleftrightarrow> length (cstr a) + length s < length a"
  by (auto simp: strcat_def strcpy_at_def blit_def in_arr_def)

lemma strcpy_at_defined:
  "0 \<le> off \<Longrightarrow> strcpy_at a off s \<noteq> None \<longleftrightarrow> nat off + length s < length a"
  by (auto simp: strcpy_at_def blit_def in_arr_def)

text \<open>
  A field that is only ever used as a C string is modelled by the string it holds.
  Copying into such a field of \<open>n\<close> bytes needs room for the terminating NUL.
\<close>

definition fit :: "nat \<Rightarrow> string \<Rightarrow> string option" where
  "fit n s = (if length s < n then Some s else None)"

lemma fit_eq_Some [simp]: "fit n s = Some t \<longleftrightarrow> length s < n \<and> t = s"
  by (auto simp: fit_def)

text \<open>\<open>strstr\<close> and \<open>strchr\<close>, as the offset of the first occurrence.\<close>

fun strstr :: "string \<Rightarrow> string \<Rightarrow> nat option" where
  "strstr s t =
     (if prefix t s then Some 0
      else case s of [] \<Rightarrow> None | _ # s' \<Rightarrow> map_option Suc (strstr s' t))"

declare strstr.simps [simp del]

definition strchr :: "string \<Rightarrow> char \<Rightarrow> nat option" where
  "strchr s c = strstr s [c]"

lemma strstr_Nil: "strstr [] t = (if t = [] then Some 0 else None)"
  by (simp add: strstr.simps)

lemma strstr_Cons:
  "strstr (c # s) t = (if prefix t (c # s) then Some 0 else map_option Suc (strstr s t))"
  by (simp add: strstr.simps)

lemma strstr_Some_prefix: "strstr s t = Some i \<Longrightarrow> prefix t (drop i s) \<and> i + length t \<le> length s"
proof (induction s arbitrary: i)
  case Nil
  then show ?case by (auto simp: strstr_Nil split: if_splits)
next
  case (Cons c s)
  show ?case
  proof (cases "prefix t (c # s)")
    case True
    with Cons.prems show ?thesis by (auto simp: strstr_Cons dest: prefix_length_le)
  next
    case False
    with Cons.prems obtain j where "strstr s t = Some j" and "i = Suc j"
      by (auto simp: strstr_Cons)
    with Cons.IH show ?thesis by auto
  qed
qed

lemma strstr_None_iff: "strstr s t = None \<longleftrightarrow> \<not> sublist t s"
proof (induction s)
  case Nil
  then show ?case by (simp add: strstr_Nil)
next
  case (Cons c s)
  then show ?case by (auto simp: strstr_Cons sublist_Cons_right)
qed

lemma strstr_append_hit: "strstr s t = Some i \<Longrightarrow> strstr (s @ r) t = Some i"
proof (induction s arbitrary: i)
  case Nil
  then show ?case by (auto simp: strstr_Nil strstr.simps split: if_splits)
next
  case (Cons c s)
  show ?case
  proof (cases "prefix t (c # s)")
    case True
    then have "prefix t (c # s @ r)"
      by (metis append_Cons prefix_def append.assoc)
    with True Cons.prems show ?thesis by (simp add: strstr_Cons)
  next
    case False
    with Cons.prems obtain j where j: "strstr s t = Some j" and i: "i = Suc j"
      by (auto simp: strstr_Cons)
    from strstr_Some_prefix[OF j] have len: "length t \<le> length s" by simp
    have "\<not> prefix t (c # s @ r)"
    proof
      assume "prefix t (c # s @ r)"
      then have "prefix t (c # s)" using len
        by (metis append_Cons le_SucI length_Cons prefix_append prefix_length_prefix prefix_order.order_refl)
      with False show False ..
    qed
    with Cons.IH[OF j] i show ?thesis by (simp add: strstr_Cons)
  qed
qed

text \<open>\<open>isdigit\<close>, \<open>isspace\<close> and \<open>atol\<close>, which saturates at the ends of \<open>long\<close>.\<close>

definition is_digit :: "char \<Rightarrow> bool" where
  "is_digit c \<longleftrightarrow> 48 \<le> ord c \<and> ord c \<le> 57"

definition is_space :: "char \<Rightarrow> bool" where
  "is_space c \<longleftrightarrow> ord c = 32 \<or> (9 \<le> ord c \<and> ord c \<le> 13)"

definition digits_value :: "string \<Rightarrow> int" where
  "digits_value ds = foldl (\<lambda>v c. 10 * v + (int (ord c) - 48)) 0 ds"

definition clamp_long :: "int \<Rightarrow> int" where
  "clamp_long v = max (- 2147483648) (min 2147483647 v)"

definition atol :: "string \<Rightarrow> int" where
  "atol s = (let t = dropWhile is_space s in
     case t of [] \<Rightarrow> 0
     | c # r \<Rightarrow>
         if c = CHR ''-'' then clamp_long (- digits_value (takeWhile is_digit r))
         else if c = CHR ''+'' then clamp_long (digits_value (takeWhile is_digit r))
         else clamp_long (digits_value (takeWhile is_digit t)))"

lemma clamp_long_range: "- 2147483648 \<le> clamp_long v \<and> clamp_long v \<le> 2147483647"
  by (simp add: clamp_long_def)

lemma clamp_long_id [simp]: "- 2147483648 \<le> v \<Longrightarrow> v \<le> 2147483647 \<Longrightarrow> clamp_long v = v"
  by (simp add: clamp_long_def)

lemma atol_range: "- 2147483648 \<le> atol s \<and> atol s \<le> 2147483647"
  using clamp_long_range by (auto simp: atol_def Let_def split: list.splits)

section \<open>Printing numbers\<close>

definition digit_char :: "nat \<Rightarrow> char" where
  "digit_char d = (if d < 10 then chr (48 + d) else chr (55 + d))"

fun base_digits :: "nat \<Rightarrow> nat \<Rightarrow> string" where
  "base_digits b n =
     (if b < 2 \<or> n < b then [digit_char n]
      else base_digits b (n div b) @ [digit_char (n mod b)])"

declare base_digits.simps [simp del]

definition pad0 :: "nat \<Rightarrow> string \<Rightarrow> string" where
  "pad0 n s = replicate (n - length s) CHR ''0'' @ s"

text \<open>\<^verbatim>\<open>%u\<close>, \<^verbatim>\<open>%d\<close> and \<^verbatim>\<open>%X\<close> of \<open>sprintf\<close>; \<open>pad0\<close> gives \<^verbatim>\<open>%03d\<close> and \<^verbatim>\<open>%08lX\<close>.\<close>

definition fmt_u :: "nat \<Rightarrow> string" where
  "fmt_u n = base_digits 10 n"

definition fmt_d :: "int \<Rightarrow> string" where
  "fmt_d z = (if z < 0 then CHR ''-'' # fmt_u (nat (- z)) else fmt_u (nat z))"

definition fmt_X :: "nat \<Rightarrow> string" where
  "fmt_X n = base_digits 16 n"

lemma is_digit_digit_char: "d < 10 \<Longrightarrow> is_digit (digit_char d)"
  by (simp add: is_digit_def digit_char_def)

lemma digit_char_not_NUL: "d < 16 \<Longrightarrow> digit_char d \<noteq> NUL"
proof
  assume d: "d < 16" and "digit_char d = NUL"
  then have "ord (digit_char d) = 0" by (simp add: ord_def)
  with d show False by (auto simp: digit_char_def split: if_splits)
qed

lemma base_digits_digits: "set (base_digits 10 n) \<subseteq> Collect is_digit"
proof (induction "10::nat" n rule: base_digits.induct)
  case (1 n)
  then show ?case
    by (subst base_digits.simps) (auto simp: is_digit_digit_char)
qed

lemma base_digits_nul_free: "2 \<le> b \<Longrightarrow> b \<le> 16 \<Longrightarrow> nul_free (base_digits b n)"
proof (induction b n rule: base_digits.induct)
  case (1 b n)
  show ?case
  proof (cases "n < b")
    case True
    with "1.prems" digit_char_not_NUL [of n] show ?thesis
      by (subst base_digits.simps) simp
  next
    case False
    have "n mod b < b" using "1.prems" by simp
    then have "n mod b < 16" using "1.prems" by linarith
    with False "1" digit_char_not_NUL [of "n mod b"] show ?thesis
      by (subst base_digits.simps) simp
  qed
qed

lemma digits_value_snoc: "digits_value (ds @ [c]) = 10 * digits_value ds + (int (ord c) - 48)"
  by (simp add: digits_value_def)

lemma digits_value_fmt_u [simp]: "digits_value (fmt_u n) = int n"
proof (induction "10::nat" n rule: base_digits.induct)
  case (1 n)
  show ?case
  proof (cases "n < 10")
    case True
    then show ?thesis
      by (simp add: fmt_u_def base_digits.simps [of 10 n] digits_value_def digit_char_def)
  next
    case False
    with "1" have "digits_value (base_digits 10 (n div 10)) = int (n div 10)"
      by (simp add: fmt_u_def)
    moreover have "10 * int (n div 10) + int (n mod 10) = int n"
      by (metis mult_div_mod_eq of_nat_add of_nat_mult of_nat_numeral)
    ultimately show ?thesis using False
      by (simp add: fmt_u_def base_digits.simps [of 10 n] digits_value_snoc digit_char_def)
  qed
qed

lemma fmt_u_nonempty [simp]: "fmt_u n \<noteq> []"
  by (simp add: fmt_u_def base_digits.simps [of 10 n])

lemma fmt_u_digits: "c \<in> set (fmt_u n) \<Longrightarrow> is_digit c"
  using base_digits_digits by (auto simp: fmt_u_def)

lemma nul_free_fmt [simp]: "nul_free (fmt_u n)" "nul_free (fmt_X n)" "nul_free (fmt_d z)"
  by (auto simp: fmt_u_def fmt_X_def fmt_d_def base_digits_nul_free)

text \<open>Reading back what was printed, with anything that is not a digit behind it.\<close>

lemma takeWhile_digits:
  assumes "r = [] \<or> \<not> is_digit (hd r)"
  shows "takeWhile is_digit (fmt_u n @ r) = fmt_u n"
proof -
  have "takeWhile is_digit r = []" using assms by (cases r) auto
  then show ?thesis using fmt_u_digits by (auto simp: takeWhile_append)
qed

lemma atol_fmt_u:
  assumes "int n \<le> 2147483647" and "r = [] \<or> \<not> is_digit (hd r)"
  shows "atol (fmt_u n @ r) = int n"
proof -
  obtain d ds where f: "fmt_u n = d # ds" by (cases "fmt_u n") auto
  then have d: "is_digit d" using fmt_u_digits[of d n] by auto
  then have "\<not> is_space d" and "d \<noteq> CHR ''-''" and "d \<noteq> CHR ''+''"
    by (auto simp: is_digit_def is_space_def ord_def)
  moreover have "takeWhile is_digit (d # ds @ r) = d # ds"
    using takeWhile_digits[OF assms(2), of n] f by simp
  moreover have "digits_value (d # ds) = int n" using f by (metis digits_value_fmt_u)
  ultimately show ?thesis
    using assms(1) f by (simp add: atol_def)
qed

end
