(* ===== verification/Utils.thy ===== *)
theory Utils
  imports Prelude
begin

text \<open>
  \<^verbatim>\<open>httpd/utils.c\<close>: case-insensitive comparison, base64 and percent decoding in place,
  the content-type table, dotted addresses and elapsed time. The two decoders work on the
  byte array they are given, as the code does, and are proved equal to decoders on strings.
\<close>

section \<open>Time and case\<close>

definition TimeElapsed :: "u32 \<Rightarrow> u32 \<Rightarrow> u32" where
  "TimeElapsed tLast tNow =
     (if tNow \<ge> tLast then tNow - tLast else 0xFFFFFFFF - tLast + tNow)"

definition toLower :: "char \<Rightarrow> u8" where
  "toLower nChar = (let cTemp = word_of_nat (ord nChar) :: u8 in
     if 65 \<le> cTemp \<and> cTemp \<le> 90 then cTemp OR 0x20 else cTemp)"

definition toUpper :: "char \<Rightarrow> u8" where
  "toUpper nChar = (let cTemp = word_of_nat (ord nChar) :: u8 in
     if 97 \<le> cTemp \<and> cTemp \<le> 122 then cTemp AND 0xDF else cTemp)"

text \<open>The two strings are C strings, so the end of a list is where the code sees NUL.\<close>

fun Strnicmp :: "string \<Rightarrow> string \<Rightarrow> nat \<Rightarrow> int" where
  "Strnicmp (c # s) (d # t) (Suc n) =
     (let res = uint (toUpper c) - uint (toUpper d) in
      if res \<noteq> 0 then (if res < 0 then -1 else 1) else Strnicmp s t n)"
| "Strnicmp _ _ 0 = 0"
| "Strnicmp (c # s) [] n = 1"
| "Strnicmp [] (d # t) n = -1"
| "Strnicmp [] [] n = 0"

lemma Strnicmp_Nil1 [simp]: "Strnicmp [] t n = (if n = 0 \<or> t = [] then 0 else -1)"
  by (cases n; cases t) auto

lemma Strnicmp_Nil2 [simp]: "Strnicmp s [] n = (if n = 0 \<or> s = [] then 0 else 1)"
  by (cases n; cases s) auto

lemma Strnicmp_zero [simp]: "Strnicmp s t 0 = 0"
  by (cases s; cases t) auto

lemma Strnicmp_eq_0_iff:
  "Strnicmp s t n = 0 \<longleftrightarrow> map toUpper (take n s) = map toUpper (take n t)"
proof (induction s t n rule: Strnicmp.induct)
  case (1 c s d t n)
  then show ?case by (auto simp: Let_def word_uint_eq_iff)
qed auto

lemma Strnicmp_values: "Strnicmp s t n \<in> {-1, 0, 1}"
  by (induction s t n rule: Strnicmp.induct) (auto simp: Let_def)

lemma Strnicmp_swap: "Strnicmp s t n = - Strnicmp t s n"
  by (induction s t n rule: Strnicmp.induct) (auto simp: Let_def)

section \<open>Tokens and floats\<close>

definition is_upper :: "char \<Rightarrow> bool" where
  "is_upper c \<longleftrightarrow> 65 \<le> ord c \<and> ord c \<le> 90"

definition is_alpha :: "char \<Rightarrow> bool" where
  "is_alpha c \<longleftrightarrow> is_upper c \<or> (97 \<le> ord c \<and> ord c \<le> 122)"

definition tolower :: "char \<Rightarrow> char" where
  "tolower c = (if is_upper c then chr (ord c + 32) else c)"

definition token_char :: "char \<Rightarrow> bool" where
  "token_char c \<longleftrightarrow> is_alpha c \<or> is_digit c \<or> c = CHR ''_'' \<or> c = CHR ''-''"

definition cur :: "string \<Rightarrow> char" where
  "cur s = (case s of [] \<Rightarrow> NUL | c # _ \<Rightarrow> c)"

function token_match :: "string \<Rightarrow> string \<Rightarrow> bool" where
  "token_match s1 s2 =
     (let c1 = cur s1; c2 = cur s2;
          c1 = (if is_alpha c1 \<and> is_upper c1 then tolower c1 else c1);
          c2 = (if is_alpha c2 \<and> is_upper c2 then tolower c2 else c2);
          end1 = (\<not> token_char c1);
          end2 = (\<not> token_char c2)
      in if end1 \<or> end2 \<or> c1 \<noteq> c2 then end1 \<and> end2 else token_match (tl s1) (tl s2))"
  by pat_completeness auto
termination
  by (relation "measure (\<lambda>(s1, s2). length s1)")
     (auto simp: cur_def token_char_def is_alpha_def is_upper_def is_digit_def ord_def tolower_def
        split: list.splits if_splits)

declare token_match.simps [simp del]

lemma token_char_tolower [simp]: "token_char (tolower c) = token_char c"
  by (auto simp: token_char_def tolower_def is_alpha_def is_upper_def is_digit_def)

lemma token_match_step:
  "token_match s1 s2 =
     (if \<not> token_char (cur s1) \<or> \<not> token_char (cur s2) \<or> tolower (cur s1) \<noteq> tolower (cur s2)
      then \<not> token_char (cur s1) \<and> \<not> token_char (cur s2) else token_match (tl s1) (tl s2))"
proof -
  have "(if is_alpha c \<and> is_upper c then tolower c else c) = tolower c" for c
    by (simp add: tolower_def is_alpha_def)
  then show ?thesis by (subst token_match.simps) (simp add: Let_def)
qed

fun trim_zeros :: "string \<Rightarrow> string" where
  "trim_zeros [] = []"
| "trim_zeros (c # r) =
     (if c \<noteq> CHR ''0'' then (if c = CHR ''.'' then r else c # r) else trim_zeros r)"

text \<open>The loop runs from the last character down, hence over the reversed string.\<close>

definition TrimFloat :: "string \<Rightarrow> string" where
  "TrimFloat s = (if strchr s CHR ''.'' = None then s else rev (trim_zeros (rev s)))"

section \<open>Base64, in place\<close>

definition b64_value :: "char \<Rightarrow> nat option" where
  "b64_value c =
     (if 65 \<le> ord c \<and> ord c \<le> 90 then Some (ord c - 65)
      else if 97 \<le> ord c \<and> ord c \<le> 122 then Some (ord c - 97 + 26)
      else if 48 \<le> ord c \<and> ord c \<le> 57 then Some (ord c - 48 + 52)
      else if c = CHR ''+'' then Some 62
      else if ord c \<ge> 47 then Some 63
      else None)"

text \<open>
  \<open>convered\<close> is a 32-bit unsigned accumulator: a shift left by 6 and an addition, both
  modulo \<open>2 ^ 32\<close>. The flag of the result says whether the loop ended at the NUL.
\<close>

function b64_loop ::
  "bytes \<Rightarrow> nat \<Rightarrow> nat \<Rightarrow> nat \<Rightarrow> nat \<Rightarrow> (bytes \<times> nat \<times> nat \<times> nat \<times> bool) option" where
  "b64_loop data i resultCount validCount convered =
     (if length data \<le> i then None
      else if data ! i = NUL then Some (data, resultCount, validCount, convered, True)
      else if data ! i = CR \<or> data ! i = LF \<or> data ! i = CHR ''=''
      then b64_loop data (Suc i) resultCount validCount convered
      else case b64_value (data ! i) of
        None \<Rightarrow> Some (data, resultCount, validCount, convered, False)
      | Some value \<Rightarrow>
          let validCount = Suc validCount;
              convered = (convered * 64 mod 2 ^ 32 + value) mod 2 ^ 32
          in if validCount mod 4 = 0
             then if length data \<le> resultCount + 2 then None
               else b64_loop
                 (data [resultCount := chr (convered div 65536 mod 256),
                        resultCount + 1 := chr (convered div 256 mod 256),
                        resultCount + 2 := chr (convered mod 256)])
                 (Suc i) (resultCount + 3) validCount 0
             else b64_loop data (Suc i) resultCount validCount convered)"
  by pat_completeness auto
termination
  by (relation "measure (\<lambda>(data, i, _). length data - i)") auto

declare b64_loop.simps [simp del]

definition DecodeB64 :: "bytes \<Rightarrow> (bytes \<times> nat) option" where
  "DecodeB64 data = do {
     (data, resultCount, validCount, convered, ok) \<leftarrow> b64_loop data 0 0 0 0;
     if \<not> ok then Some (data, 0)
     else do {
       (data, resultCount) \<leftarrow>
         (if validCount mod 4 = 3 then do {
            data \<leftarrow> poke data (int resultCount) (chr (convered div 1024 mod 256));
            data \<leftarrow> poke data (int resultCount + 1) (chr (convered div 4 mod 256));
            Some (data, resultCount + 2) }
          else if validCount mod 4 = 2 then do {
            data \<leftarrow> poke data (int resultCount) (chr (convered div 16 mod 256));
            Some (data, resultCount + 1) }
          else Some (data, resultCount));
       data \<leftarrow> poke data (int resultCount) NUL;
       Some (data, resultCount) } }"

section \<open>Percent decoding, in place\<close>

definition hex_set :: string where
  "hex_set = ''00112233445566778899AaBbCcDdEeFf''"

definition Hex2Int :: "char \<Rightarrow> int" where
  "Hex2Int c = (case strchr hex_set c of None \<Rightarrow> -1 | Some i \<Rightarrow> int i div 2)"

function url_loop :: "bytes \<Rightarrow> nat \<Rightarrow> nat \<Rightarrow> (bytes \<times> nat) option" where
  "url_loop url i len =
     (if \<not> i < len then Some (url, i)
      else if length url \<le> i then None
      else if url ! i = NUL then Some (url, i)
      else if url ! i \<noteq> CHR ''%'' then url_loop url (Suc i) len
      else if int i < int len - 2 then
        (let a = Hex2Int (url ! (i + 1)); b = Hex2Int (url ! (i + 2)) in
         if a \<ge> 0 \<and> b \<ge> 0 then
           (case memmove (url[i := chr (nat (a * 16 + b))]) (int i + 1) (int i + 3) (int len - int i - 3) of
              None \<Rightarrow> None
            | Some url' \<Rightarrow> url_loop url' (Suc i) (len - 2))
         else url_loop url (Suc i) len)
      else url_loop url (Suc i) len)"
  by pat_completeness auto
termination
  by (relation "measure (\<lambda>(url, i, len). len - i)") auto

declare url_loop.simps [simp del]

definition URLDecode :: "bytes \<Rightarrow> (bytes \<times> nat) option" where
  "URLDecode url = url_loop url 0 (length (cstr url))"

section \<open>Header values\<close>

text \<open>The offset of the first character of a header's content: behind the colon and spaces.\<close>

fun value_offset :: "nat \<Rightarrow> bool \<Rightarrow> string \<Rightarrow> nat" where
  "value_offset j code [] = j"
| "value_offset j code (c # s) =
     (if \<not> code then value_offset (Suc j) (c = CHR '':'') s
      else if c \<noteq> CHR '' '' then j else value_offset (Suc j) True s)"

section \<open>Content types and addresses\<close>

definition contentTypes :: "(string \<times> string) list" where
  "contentTypes = [
     (''html'', ''text/html''), (''htm'', ''text/html''),
     (''shtml'', ''text/html''), (''shtm'', ''text/html''), (''ssi'', ''text/html''),
     (''css'', ''text/css''),
     (''json'', ''application/json''), (''js'', ''application/javascript''),
     (''gif'', ''image/gif''), (''png'', ''image/png''), (''jpg'', ''image/jpeg''),
     (''bmp'', ''image/bmp''), (''ico'', ''image/x-icon''),
     (''mp4'', ''video/mp4''), (''flv'', ''video/x-flv''), (''3gp'', ''video/3gpp''),
     (''mov'', ''video/quicktime''), (''avi'', ''video/x-msvideo''), (''wmv'', ''video/x-ms-wmv''),
     (''class'', ''application/octet-stream''), (''cls'', ''application/octet-stream''),
     (''swf'', ''application/x-shockwave-flash''), (''ram'', ''application/javascript''),
     (''pdf'', ''application/pdf''), (''dat'', ''application/dat''),
     (''xml'', ''text/xml''), (''xsl'', ''text/xml''),
     ('''', ''text/plain'')]"

text \<open>Running off the end of the table is \<open>None\<close>: only the empty last entry stops the loop.\<close>

fun content_type_from :: "(string \<times> string) list \<Rightarrow> string \<Rightarrow> string option" where
  "content_type_from [] ext = None"
| "content_type_from ((e, t) # rest) ext =
     (if length e = 0 then Some t
      else if length e = length ext \<and> Strnicmp ext e (length e) = 0 then Some t
      else content_type_from rest ext)"

definition GetContentType :: "string \<Rightarrow> string option" where
  "GetContentType ext = content_type_from contentTypes ext"

text \<open>Each octet after the first is added as the whole value of \<open>atol\<close>, modulo \<open>2 ^ 32\<close>.\<close>

fun ip_octets :: "nat \<Rightarrow> string \<Rightarrow> u32 \<Rightarrow> u32" where
  "ip_octets 0 p ip = ip"
| "ip_octets (Suc n) p ip =
     (case strchr p CHR ''.'' of None \<Rightarrow> ip
      | Some k \<Rightarrow> let p = drop (Suc k) p
                  in ip_octets n p (push_bit 8 ip + word_of_int (atol p)))"

definition GetIpAddress :: "string \<Rightarrow> u32" where
  "GetIpAddress addr = ip_octets 3 addr (word_of_int (atol addr mod 256))"

text \<open>The format \<^verbatim>\<open>%d.%d.%d.%d\<close> over the four octets, as the sources print an address.\<close>

definition octet :: "u32 \<Rightarrow> nat \<Rightarrow> nat" where
  "octet ip k = unat (drop_bit (8 * k) ip AND 0xFF)"

definition dotted :: "u32 \<Rightarrow> string" where
  "dotted ip = fmt_u (octet ip 3) @ ''.'' @ fmt_u (octet ip 2) @ ''.''
     @ fmt_u (octet ip 1) @ ''.'' @ fmt_u (octet ip 0)"

section \<open>Correctness\<close>

subsection \<open>Tokens and floats\<close>

definition token_prefix :: "string \<Rightarrow> string" where
  "token_prefix s = map tolower (takeWhile token_char s)"

lemma token_match_eq: "token_match s t \<longleftrightarrow> token_prefix s = token_prefix t"
proof (induction s arbitrary: t)
  case Nil
  have "\<not> token_char NUL" by (simp add: token_char_def is_alpha_def is_upper_def is_digit_def ord_def)
  then show ?case
    by (subst token_match_step) (cases t; auto simp: cur_def token_prefix_def)
next
  case (Cons c s)
  have "\<not> token_char NUL" by (simp add: token_char_def is_alpha_def is_upper_def is_digit_def ord_def)
  with Cons.IH show ?case
    by (subst token_match_step) (cases t; auto simp: cur_def token_prefix_def)
qed

subsection \<open>Content types\<close>

lemma type_match: "length e = length ext \<and> Strnicmp ext e (length e) = 0 \<longleftrightarrow> map toUpper ext = map toUpper e"
proof
  assume *: "map toUpper ext = map toUpper e"
  then have "length ext = length e" by (rule map_eq_imp_length_eq)
  with * show "length e = length ext \<and> Strnicmp ext e (length e) = 0" by (simp add: Strnicmp_eq_0_iff)
qed (auto simp: Strnicmp_eq_0_iff)

lemma content_type_step:
  "content_type_from ((e, t) # cts) ext = (if e = [] \<or> map toUpper ext = map toUpper e then Some t else content_type_from cts ext)"
  using type_match [of e ext] by auto

declare content_type_from.simps(2) [simp del]

lemma content_type_from_hit:
  assumes "distinct (map (\<lambda>(e, _). map toUpper e) cts)" and "(e, t) \<in> set cts" and "e \<noteq> []" and "map toUpper ext = map toUpper e"
    and "sorted (map (\<lambda>(e, _). if e = [] then 1 else 0 :: nat) cts)"
  shows "content_type_from cts ext = Some t"
  using assms
proof (induction cts)
  case (Cons x cts)
  obtain e' t' where x: "x = (e', t')" by (cases x)
  show ?case
  proof (cases "map toUpper ext = map toUpper e'")
    case True
    then have "e' \<noteq> []" using Cons.prems(3,4) by auto
    moreover have "(e, t) = x"
      using Cons.prems(1,2,4) True x by (force simp: image_iff)
    ultimately show ?thesis using True x by (auto simp: content_type_step)
  next
    case False
    have "(e, t) \<in> set cts" using False Cons.prems(2,4) x by auto
    moreover from this have "e' \<noteq> []" using Cons.prems(3,5) x by (force simp: image_iff)
    ultimately show ?thesis using Cons False x by (auto simp: content_type_step)
  qed
qed simp

lemma content_type_from_miss:
  assumes "\<forall>(e, t) \<in> set cts. e \<noteq> [] \<and> map toUpper ext \<noteq> map toUpper e"
  shows "content_type_from (cts @ [([], t)]) ext = Some t"
  using assms by (induction cts) (auto simp: content_type_step)

section \<open>Properties\<close>

text \<open>
  \<^verbatim>\<open>Strnicmp\<close> compares the first \<open>n\<close> characters of two C strings without regard to case:
  it is 0 exactly when they agree in upper case, otherwise 1 or -1, and exchanging the
  strings changes the sign.
\<close>

theorem Strnicmp_compares:
  "(Strnicmp s t n = 0 \<longleftrightarrow> map toUpper (take n s) = map toUpper (take n t))
   \<and> Strnicmp s t n \<in> {-1, 0, 1} \<and> Strnicmp s t n = - Strnicmp t s n"
  by (intro conjI Strnicmp_eq_0_iff Strnicmp_values Strnicmp_swap)

text \<open>
  Two header tokens match exactly when their longest prefixes of token characters agree
  in lower case, whatever follows them.
\<close>

theorem token_match_prefixes:
  "token_match s t \<longleftrightarrow> map tolower (takeWhile token_char s) = map tolower (takeWhile token_char t)"
  by (simp add: token_match_eq token_prefix_def)

text \<open>
  \<^verbatim>\<open>TimeElapsed\<close> measures the ticks between two readings of a 32-bit counter exactly while the
  counter does not wrap; across the wrap it is one tick short.
\<close>

theorem TimeElapsed_measures:
  "unat (TimeElapsed t (t + d)) = (if unat t + unat d < 2 ^ 32 then unat d else unat d - 1)"
proof (cases "unat t + unat d < 2 ^ 32")
  case True
  then have "unat (t + d) = unat t + unat d" by (simp add: unat_add_lem [THEN iffD1])
  then have "t \<le> t + d" by (simp add: word_le_nat_alt)
  with True show ?thesis by (simp add: TimeElapsed_def)
next
  case False
  have "unat (t + d) = (unat t + unat d) mod 2 ^ 32" by (simp add: unat_word_ariths)
  also have "\<dots> = unat t + unat d - 2 ^ 32"
    using False unsigned_less [of t, where ?'a = nat] unsigned_less [of d, where ?'a = nat]
    by (simp add: mod_if)
  finally have less: "unat (t + d) < unat t" using unsigned_less [of d, where ?'a = nat] False by simp
  then have n: "\<not> t \<le> t + d" by (simp add: word_le_nat_alt)
  have "0xFFFFFFFF = (- 1 :: u32)" by simp
  then have "0xFFFFFFFF - t + (t + d) = d - 1" by (simp only:) (simp add: algebra_simps)
  moreover have "0 < unat d" using False unsigned_less [of t, where ?'a = nat] by simp
  then have "unat (d - 1) = unat d - 1" by (simp add: unat_minus_one unat_gt_0)
  ultimately show ?thesis using False n unfolding TimeElapsed_def by (simp only: if_False)
qed

text \<open>
  \<^verbatim>\<open>GetContentType\<close> always ends inside its table, and the entry it returns is the one whose
  extension equals the given one without regard to case, or the last one, plain text, when
  there is none.
\<close>

theorem GetContentType_spec:
  assumes "e \<noteq> [] \<longrightarrow> map toUpper ext = map toUpper e"
    and "e = [] \<longrightarrow> (\<forall>(e', t') \<in> set contentTypes. e' \<noteq> [] \<longrightarrow> map toUpper ext \<noteq> map toUpper e')"
    and "(e, t) \<in> set contentTypes"
  shows "GetContentType ext = Some t"
proof (cases "e = []")
  case True
  have c: "contentTypes = butlast contentTypes @ [([], ''text/plain'')]" by (simp add: contentTypes_def)
  have "t = ''text/plain''" using assms(3) True by (simp add: contentTypes_def)
  moreover have "content_type_from (butlast contentTypes @ [([], ''text/plain'')]) ext = Some ''text/plain''"
  proof (rule content_type_from_miss)
    have "\<forall>(e, t) \<in> set (butlast contentTypes). e \<noteq> []" by (simp add: contentTypes_def)
    then show "\<forall>(e, t) \<in> set (butlast contentTypes). e \<noteq> [] \<and> map toUpper ext \<noteq> map toUpper e"
      using assms(2) True by (fast dest: in_set_butlastD)
  qed
  ultimately show ?thesis unfolding GetContentType_def using c by simp
next
  case False
  have "distinct (map (\<lambda>(e, _). map toUpper e) contentTypes)" by code_simp
  moreover have "sorted (map (\<lambda>(e, _). if e = [] then 1 else 0 :: nat) contentTypes)" by (simp add: contentTypes_def)
  ultimately show ?thesis unfolding GetContentType_def
    using content_type_from_hit assms(1,3) False by blast
qed

theorem GetContentType_spec_witness: "GetContentType ''PnG'' = Some ''image/png''"
  by (rule GetContentType_spec [of "''png''"]) code_simp+

end
