(* ===== verification/Decoders.thy ===== *)
theory Decoders
  imports Utils
begin

text \<open>
  The two in-place decoders of \<^verbatim>\<open>httpd/utils.c\<close> against decoders on strings: percent
  decoding computes \<open>pct_decode\<close> and undoes any percent encoding that escapes the
  percent sign, and base64 decoding undoes the encoder of RFC 4648.
\<close>

section \<open>Percent decoding\<close>

fun pct_decode :: "string \<Rightarrow> string" where
  "pct_decode (c # a # b # r) =
     (if c = CHR ''%'' \<and> Hex2Int a \<ge> 0 \<and> Hex2Int b \<ge> 0
      then chr (nat (Hex2Int a * 16 + Hex2Int b)) # pct_decode r
      else c # pct_decode (a # b # r))"
| "pct_decode s = s"

lemma length_pct_decode: "length (pct_decode s) \<le> length s"
  by (induction s rule: pct_decode.induct) auto

lemma url_loop_shift:
  fixes done' rest tail :: bytes
  shows "memmove ((done' @ c # a # b # rest @ tail)[length done' := d]) (int (length done') + 1)
      (int (length done') + 3) (int (length rest))
    = Some ((done' @ [d]) @ rest @ drop (length rest) (a # b # rest) @ tail)"
proof -
  have "drop (length rest) (a # b # rest @ tail) = drop (length rest) (a # b # rest) @ tail"
    using drop_append [of "length rest" "a # b # rest" tail] by simp
  then show ?thesis
    by (simp add: memmove_def blit_def in_arr_def list_update_append nat_add_distrib numeral_eq_Suc)
qed

lemma url_loop_correct:
  assumes "nul_free rest"
  shows "\<exists>tail'. url_loop (done' @ rest @ tail) (length done') (length done' + length rest)
      = Some (done' @ pct_decode rest @ tail', length done' + length (pct_decode rest))
      \<and> length (pct_decode rest @ tail') = length (rest @ tail)"
  using assms
proof (induction rest arbitrary: done' tail rule: pct_decode.induct)
  case (1 c a b r)
  show ?case
  proof (cases "c = CHR ''%'' \<and> Hex2Int a \<ge> 0 \<and> Hex2Int b \<ge> 0")
    case True
    let ?d = "chr (nat (Hex2Int a * 16 + Hex2Int b))"
    let ?t = "drop (length r) (a # b # r) @ tail"
    have "nul_free r" using "1.prems" by simp
    from "1.IH"(1) [OF True this, of "done' @ [?d]" ?t]
    obtain tail' where t: "url_loop ((done' @ [?d]) @ r @ ?t) (Suc (length done')) (Suc (length done') + length r)
        = Some (done' @ ?d # pct_decode r @ tail', Suc (length done') + length (pct_decode r))"
      and l: "length (pct_decode r @ tail') = length (r @ ?t)"
      by auto
    have "url_loop (done' @ (c # a # b # r) @ tail) (length done') (length done' + length (c # a # b # r))
        = url_loop ((done' @ [?d]) @ r @ ?t) (Suc (length done')) (Suc (length done') + length r)"
      using True "1.prems" url_loop_shift [of done' c a b r tail ?d]
      by (subst url_loop.simps) (simp add: nth_append Let_def)
    with t l True show ?thesis by (intro exI [of _ tail']) simp
  next
    case False
    have nf: "nul_free (a # b # r)" using "1.prems" by simp
    from "1.IH"(2) [OF False this, of "done' @ [c]" tail]
    obtain tail' where t: "url_loop (done' @ c # a # b # r @ tail) (Suc (length done')) (Suc (Suc (Suc (length done' + length r))))
        = Some (done' @ c # pct_decode (a # b # r) @ tail', Suc (length done') + length (pct_decode (a # b # r)))"
      and l: "length (pct_decode (a # b # r) @ tail') = length ((a # b # r) @ tail)"
      by auto
    have "url_loop (done' @ (c # a # b # r) @ tail) (length done') (length done' + length (c # a # b # r))
        = url_loop (done' @ c # a # b # r @ tail) (Suc (length done')) (Suc (Suc (Suc (length done' + length r))))"
      using False "1.prems"
      by (subst url_loop.simps) (auto simp: nth_append Let_def)
    with t l False show ?thesis by (intro exI [of _ tail']) auto
  qed
qed (auto simp: url_loop.simps nth_append)

text \<open>The array form of the decoder computes \<open>pct_decode\<close> of the C string it is given.\<close>

lemma URLDecode_pct:
  "\<exists>u. URLDecode a = Some (u, length (pct_decode (cstr a)))
     \<and> take (length (pct_decode (cstr a))) u = pct_decode (cstr a) \<and> length u = length a"
proof -
  have a: "[] @ cstr a @ drop (length (cstr a)) a = a"
    by (metis append_Nil append_take_drop_id take_cstr)
  then have "length (cstr a @ drop (length (cstr a)) a) = length a" by simp
  moreover obtain t where "url_loop a 0 (length (cstr a)) = Some (pct_decode (cstr a) @ t, length (pct_decode (cstr a)))"
    and "length (pct_decode (cstr a) @ t) = length (cstr a @ drop (length (cstr a)) a)"
    using url_loop_correct [of "cstr a" "[]" "drop (length (cstr a)) a"] a by auto
  ultimately show ?thesis unfolding URLDecode_def by auto
qed

definition pct_encode :: "(char \<Rightarrow> bool) \<Rightarrow> string \<Rightarrow> string" where
  "pct_encode esc s = concat (map (\<lambda>c. if esc c
     then [CHR ''%'', digit_char (ord c div 16), digit_char (ord c mod 16)] else [c]) s)"

lemma Hex2Int_digit_char: "d < 16 \<Longrightarrow> Hex2Int (digit_char d) = int d"
proof -
  have "list_all (\<lambda>d. Hex2Int (digit_char d) = int d) [0..<16]" by code_simp
  then show "d < 16 \<Longrightarrow> Hex2Int (digit_char d) = int d" by (simp add: list_all_iff)
qed

lemma pct_decode_plain: "c \<noteq> CHR ''%'' \<Longrightarrow> pct_decode (c # r) = c # pct_decode r"
  by (cases r; cases "tl r") auto

lemma pct_decode_encode:
  assumes "esc CHR ''%''"
  shows "pct_decode (pct_encode esc s) = s"
proof (induction s)
  case Nil
  then show ?case by (simp add: pct_encode_def)
next
  case (Cons c s)
  have "Hex2Int (digit_char (ord c div 16)) = int (ord c div 16)"
    and "Hex2Int (digit_char (ord c mod 16)) = int (ord c mod 16)"
    using ord_less [of c] by (simp_all add: Hex2Int_digit_char less_mult_imp_div_less)
  moreover have "nat (int (ord c div 16) * 16 + int (ord c mod 16)) = ord c"
    by (metis div_mod_decomp_int nat_int zdiv_int zmod_int of_nat_numeral)
  moreover have "\<not> esc c \<Longrightarrow> c \<noteq> CHR ''%''" using assms by auto
  ultimately show ?case using Cons assms
    by (cases "esc c") (auto simp: pct_encode_def pct_decode_plain)
qed

lemma nul_free_pct_encode: "esc NUL \<Longrightarrow> nul_free (pct_encode esc s)"
proof (induction s)
  case Nil
  then show ?case by (simp add: pct_encode_def)
next
  case (Cons c s)
  have "digit_char (ord c div 16) \<noteq> NUL" "digit_char (ord c mod 16) \<noteq> NUL"
    using ord_less [of c] by (auto intro!: digit_char_not_NUL simp: less_mult_imp_div_less)
  with Cons show ?case by (auto simp: pct_encode_def)
qed

section \<open>Base64\<close>

definition b64_alphabet :: string where
  "b64_alphabet = ''ABCDEFGHIJKLMNOPQRSTUVWXYZabcdefghijklmnopqrstuvwxyz0123456789+/''"

definition b64_char :: "nat \<Rightarrow> char" where
  "b64_char v = b64_alphabet ! v"

text \<open>The encoder of RFC 4648, with padding.\<close>

fun b64_encode :: "bytes \<Rightarrow> string" where
  "b64_encode [] = []"
| "b64_encode [a] = [b64_char (ord a div 4), b64_char (ord a mod 4 * 16), CHR ''='', CHR ''='']"
| "b64_encode [a, b] = [b64_char (ord a div 4), b64_char (ord a mod 4 * 16 + ord b div 16),
     b64_char (ord b mod 16 * 4), CHR ''='']"
| "b64_encode (a # b # c # r) =
     b64_char (ord a div 4) # b64_char (ord a mod 4 * 16 + ord b div 16)
     # b64_char (ord b mod 16 * 4 + ord c div 64) # b64_char (ord c mod 64) # b64_encode r"

lemma b64_alphabet_values: "map b64_value b64_alphabet = map Some [0..<64]"
  by (simp add: b64_alphabet_def b64_value_def ord_def upt_rec)

lemma b64_alphabet_plain: "set b64_alphabet \<inter> {NUL, CR, LF, CHR ''=''} = {}"
  by (simp add: b64_alphabet_def)

lemma b64_char_value:
  assumes "v < 64"
  shows "b64_value (b64_char v) = Some v \<and> b64_char v \<noteq> NUL \<and> b64_char v \<noteq> CR
    \<and> b64_char v \<noteq> LF \<and> b64_char v \<noteq> CHR ''=''"
proof -
  have len: "length b64_alphabet = 64" by (simp add: b64_alphabet_def)
  have "map b64_value b64_alphabet ! v = map Some [0..<64] ! v" by (simp only: b64_alphabet_values)
  then have "b64_value (b64_char v) = Some v" using assms len by (simp add: b64_char_def)
  moreover have "b64_char v \<in> set b64_alphabet" using assms len by (simp add: b64_char_def)
  ultimately show ?thesis using b64_alphabet_plain by auto
qed

lemma b64_step_mid:
  assumes "i < length data" "data ! i = b64_char v" "v < 64" "conv < 2 ^ 24" "Suc vc mod 4 \<noteq> 0"
    and "j = Suc i" "conv' = conv * 64 + v"
  shows "b64_loop data i rc vc conv = b64_loop data j rc (Suc vc) conv'"
  using assms b64_char_value [OF assms(3)]
  by (subst b64_loop.simps) (simp add: Let_def mod_simps)

lemma b64_step_emit:
  assumes "i < length data" "data ! i = b64_char v" "v < 64" "conv < 2 ^ 24" "Suc vc mod 4 = 0"
    and "rc + 2 < length data" "j = Suc i" "w = conv * 64 + v" "vc' = Suc vc"
  shows "b64_loop data i rc vc conv = b64_loop
      (data [rc := chr (w div 65536 mod 256), rc + 1 := chr (w div 256 mod 256), rc + 2 := chr (w mod 256)])
      j (rc + 3) vc' 0"
  using assms b64_char_value [OF assms(3)]
  by (subst b64_loop.simps) (simp add: Let_def mod_simps)

lemma b64_pad:
  "i < length data \<Longrightarrow> data ! i = CHR ''='' \<Longrightarrow> j = Suc i
    \<Longrightarrow> b64_loop data i rc vc conv = b64_loop data j rc vc conv"
  by (subst b64_loop.simps) simp

lemma b64_end: "i < length data \<Longrightarrow> data ! i = NUL \<Longrightarrow> b64_loop data i rc vc conv = Some (data, rc, vc, conv, True)"
  by (subst b64_loop.simps) simp

lemma three_octets:
  assumes "x < 256" "y < 256" "z < (256::nat)" and "w = x * 65536 + y * 256 + z"
  shows "w div 65536 mod 256 = x" "w div 256 mod 256 = y" "w mod 256 = z"
proof -
  have "w = z + 256 * (x * 256 + y)" using assms by simp
  then have "w div 256 = x * 256 + y" and "w mod 256 = z"
    using assms(3) by (simp_all only: div_mult_self2 mod_mult_self2) auto
  moreover have "w div 65536 = w div 256 div 256" by (simp add: div_mult2_eq [symmetric])
  ultimately show "w div 65536 mod 256 = x" "w div 256 mod 256 = y" "w mod 256 = z"
    using assms by simp_all
qed

lemma four_sextets:
  assumes "v1 < 64" "v2 < 64" "v3 < 64" "v4 < (64::nat)"
  defines "w \<equiv> ((v1 * 64 + v2) * 64 + v3) * 64 + v4"
  shows "w div 65536 mod 256 = v1 * 4 + v2 div 16" "w div 256 mod 256 = v2 mod 16 * 16 + v3 div 4"
    "w mod 256 = v3 mod 4 * 64 + v4"
proof -
  have "v2 = 16 * q2 + r2 \<Longrightarrow> v3 = 4 * q3 + r3 \<Longrightarrow>
      w = (v1 * 4 + q2) * 65536 + (r2 * 16 + q3) * 256 + (r3 * 64 + v4)" for q2 r2 q3 r3
    unfolding w_def by simp
  from this [of "v2 div 16" "v2 mod 16" "v3 div 4" "v3 mod 4"] have w: "w = (v1 * 4 + v2 div 16) * 65536 + (v2 mod 16 * 16 + v3 div 4) * 256 + (v3 mod 4 * 64 + v4)"
    by simp
  have "v2 div 16 < 4" "v2 mod 16 < 16" "v3 div 4 < 16" "v3 mod 4 < 4"
    using assms by (auto simp: less_mult_imp_div_less)
  then have "v1 * 4 + v2 div 16 < 256" "v2 mod 16 * 16 + v3 div 4 < 256" "v3 mod 4 * 64 + v4 < 256"
    using assms by linarith+
  from three_octets [OF this w] show "w div 65536 mod 256 = v1 * 4 + v2 div 16"
    "w div 256 mod 256 = v2 mod 16 * 16 + v3 div 4" "w mod 256 = v3 mod 4 * 64 + v4" by simp_all
qed

lemma update_three:
  assumes "3 \<le> length l"
  shows "(out @ l)[length out := x, length out + 1 := y, length out + 2 := z] = (out @ [x, y, z]) @ drop 3 l"
proof -
  obtain a b c r where "l = a # b # c # r"
    using assms by (cases l; cases "tl l"; cases "tl (tl l)") auto
  then show ?thesis by (simp add: list_update_append)
qed

lemma b64_quad:
  assumes v: "v1 < 64" "v2 < 64" "v3 < 64" "v4 < 64" and vc: "vc mod 4 = 0"
    and d: "data = out @ gap @ map b64_char [v1, v2, v3, v4] @ rest"
  shows "b64_loop data (length out + length gap) (length out) vc 0 =
    b64_loop ((out @ [chr (v1 * 4 + v2 div 16), chr (v2 mod 16 * 16 + v3 div 4), chr (v3 mod 4 * 64 + v4)])
       @ drop 3 (gap @ map b64_char [v1, v2, v3, v4]) @ rest)
      (length out + length gap + 4) (length out + 3) (vc + 4) 0"
proof -
  let ?i = "length out + length gap"
  let ?w = "((v1 * 64 + v2) * 64 + v3) * 64 + v4"
  have len: "length data = ?i + 4 + length rest" by (simp add: d)
  have nth: "data ! ?i = b64_char v1" "data ! (?i + 1) = b64_char v2"
      "data ! (?i + 2) = b64_char v3" "data ! (?i + 3) = b64_char v4"
    by (simp_all add: d nth_append)
  have m: "Suc vc mod 4 \<noteq> 0" "Suc (Suc vc) mod 4 \<noteq> 0" "Suc (Suc (Suc vc)) mod 4 \<noteq> 0"
      "Suc (Suc (Suc (Suc vc))) mod 4 = 0"
    using vc by presburger+
  have b: "v1 * 64 + v2 < 4096" "(v1 * 64 + v2) * 64 + v3 < 262144" "?w < 16777216"
    using v by simp_all
  have "b64_loop data ?i (length out) vc 0 = b64_loop data (?i + 1) (length out) (Suc vc) v1"
    by (rule b64_step_mid) (use len nth m v in auto)
  also have "\<dots> = b64_loop data (?i + 2) (length out) (Suc (Suc vc)) (v1 * 64 + v2)"
    by (rule b64_step_mid) (use len nth m v in auto)
  also have "\<dots> = b64_loop data (?i + 3) (length out) (Suc (Suc (Suc vc))) ((v1 * 64 + v2) * 64 + v3)"
    by (rule b64_step_mid) (use len nth m v b in auto)
  also have "\<dots> = b64_loop
      (data [length out := chr (?w div 65536 mod 256), length out + 1 := chr (?w div 256 mod 256),
             length out + 2 := chr (?w mod 256)]) (?i + 4) (length out + 3) (vc + 4) 0"
    by (rule b64_step_emit) (use len nth m v b in auto)
  also note four_sextets (1) [OF v]
  also note four_sextets (2) [OF v]
  also note four_sextets (3) [OF v]
  also have "data[length out := x, length out + 1 := y, length out + 2 := z]
      = (out @ [x, y, z]) @ drop 3 (gap @ map b64_char [v1, v2, v3, v4]) @ rest" for x y z
  proof -
    have "drop 3 ((gap @ map b64_char [v1, v2, v3, v4]) @ rest)
        = drop 3 (gap @ map b64_char [v1, v2, v3, v4]) @ rest"
      by (subst drop_append) simp
    moreover have "data = out @ ((gap @ map b64_char [v1, v2, v3, v4]) @ rest)" by (simp add: d)
    ultimately show ?thesis
      using update_three [of "(gap @ map b64_char [v1, v2, v3, v4]) @ rest" out x y z] by simp
  qed
  finally show ?thesis .
qed

lemma octets_sextets:
  fixes a b c :: char
  shows "ord a div 4 * 4 + (ord a mod 4 * 16 + ord b div 16) div 16 = ord a"
    "(ord a mod 4 * 16 + ord b div 16) mod 16 * 16 + (ord b mod 16 * 4 + ord c div 64) div 4 = ord b"
    "(ord b mod 16 * 4 + ord c div 64) mod 4 * 64 + ord c mod 64 = ord c"
proof -
  have "ord b div 16 < 16" "ord c div 64 < 4"
    using ord_less [of b] ord_less [of c] by (simp_all add: less_mult_imp_div_less)
  then show "ord a div 4 * 4 + (ord a mod 4 * 16 + ord b div 16) div 16 = ord a"
    "(ord a mod 4 * 16 + ord b div 16) mod 16 * 16 + (ord b mod 16 * 4 + ord c div 64) div 4 = ord b"
    "(ord b mod 16 * 4 + ord c div 64) mod 4 * 64 + ord c mod 64 = ord c"
    by (simp_all add: mult.commute)
qed

lemma sextets_less:
  fixes a b c :: char
  shows "ord a div 4 < 64" "ord a mod 4 * 16 + ord b div 16 < 64" "ord b mod 16 * 4 + ord c div 64 < 64"
    "ord c mod 64 < 64" "ord a mod 4 * 16 < 64" "ord b mod 16 * 4 < 64"
proof -
  have "ord a div 4 < 64" "ord b div 16 < 16" "ord c div 64 < 4" "ord a mod 4 < 4" "ord b mod 16 < 16"
    using ord_less [of a] ord_less [of b] ord_less [of c] by (simp_all add: less_mult_imp_div_less)
  then show "ord a div 4 < 64" "ord a mod 4 * 16 + ord b div 16 < 64" "ord b mod 16 * 4 + ord c div 64 < 64"
    "ord c mod 64 < 64" "ord a mod 4 * 16 < 64" "ord b mod 16 * 4 < 64"
    by simp_all
qed

lemma b64_group:
  assumes "vc mod 4 = 0"
  shows "\<exists>g. b64_loop (out @ gap @ b64_encode (a # b # c # r) @ rest) (length out + length gap) (length out) vc 0
      = b64_loop ((out @ [a, b, c]) @ g @ b64_encode r @ rest) (length out + length gap + 4)
          (length (out @ [a, b, c])) (vc + 4) 0 \<and> length g = length gap + 1"
proof -
  let ?q = "[ord a div 4, ord a mod 4 * 16 + ord b div 16, ord b mod 16 * 4 + ord c div 64, ord c mod 64]"
  have l: "length out + 3 = length (out @ [a, b, c])" by simp
  have e: "b64_encode (a # b # c # r) @ rest = map b64_char ?q @ b64_encode r @ rest" by simp
  from b64_quad [OF sextets_less (1) [of a] sextets_less (2) [of a b] sextets_less (3) [of b c]
      sextets_less (4) [of c] assms, of _ out gap "b64_encode r @ rest"]
  have "b64_loop (out @ gap @ b64_encode (a # b # c # r) @ rest) (length out + length gap) (length out) vc 0
      = b64_loop ((out @ [a, b, c]) @ drop 3 (gap @ map b64_char ?q) @ b64_encode r @ rest) (length out + length gap + 4)
          (length (out @ [a, b, c])) (vc + 4) 0"
    unfolding octets_sextets chr_ord e l by blast
  moreover have "length (drop 3 (gap @ map b64_char ?q)) = length gap + 1" by simp
  ultimately show ?thesis by blast
qed

lemma regroup:
  fixes x y :: nat
  shows "x div 4 * 64 + x mod 4 * 16 = x * 16"
    "x div 4 * 64 + (x mod 4 * 16 + y) = x * 16 + y"
    "(x * 16 + y div 16) * 64 + y mod 16 * 4 = x * 1024 + y * 4"
proof -
  have "q * 64 + r * 16 = (4 * q + r) * 16" for q r :: nat by simp
  from this [of "x div 4" "x mod 4"]
  show *: "x div 4 * 64 + x mod 4 * 16 = x * 16" by simp
  then show "x div 4 * 64 + (x mod 4 * 16 + y) = x * 16 + y" by simp
  have "(x * 16 + q) * 64 + r * 4 = x * 1024 + (16 * q + r) * 4" for q r :: nat by simp
  from this [of "y div 16" "y mod 16"]
  show "(x * 16 + y div 16) * 64 + y mod 16 * 4 = x * 1024 + y * 4" by simp
qed

text \<open>
  The loop over a whole encoding: the whole octets are written out, and the one or two
  octets of an incomplete last group are left in the accumulator.
\<close>

fun b64_left :: "bytes \<Rightarrow> bytes" where
  "b64_left (a # b # c # r) = b64_left r"
| "b64_left r = r"

fun b64_done :: "bytes \<Rightarrow> bytes" where
  "b64_done (a # b # c # r) = a # b # c # b64_done r"
| "b64_done r = []"

lemma b64_done_left: "b64_done bs @ b64_left bs = bs"
  by (induction bs rule: b64_done.induct) auto

definition b64_acc :: "bytes \<Rightarrow> nat \<times> nat" where
  "b64_acc l = (case l of [a] \<Rightarrow> (2, ord a * 16) | [a, b] \<Rightarrow> (3, ord a * 1024 + ord b * 4) | _ \<Rightarrow> (0, 0))"

lemma b64_loop_encode:
  assumes "vc mod 4 = 0" and "length out \<le> i" and "i = length out + length gap"
  shows "\<exists>gap' vc'. b64_loop (out @ gap @ b64_encode bs @ NUL # tail) i (length out) vc 0
      = Some (out @ b64_done bs @ gap' @ NUL # tail, length out + length (b64_done bs), vc', snd (b64_acc (b64_left bs)), True)
      \<and> vc' mod 4 = fst (b64_acc (b64_left bs)) \<and> length (b64_done bs @ gap') = length (gap @ b64_encode bs)
      \<and> length (b64_left bs) \<le> length gap'"
  using assms
proof (induction bs arbitrary: out gap i vc rule: b64_encode.induct)
  case 1
  then show ?case
    by (intro exI [of _ gap] exI [of _ vc]) (simp add: b64_end nth_append b64_acc_def)
next
  case (2 a)
  let ?d = "out @ gap @ b64_encode [a] @ NUL # tail"
  note v = sextets_less (1) [of a] sextets_less (5) [of a]
  have m: "Suc vc mod 4 \<noteq> 0" "Suc (Suc vc) mod 4 \<noteq> 0" "Suc (Suc vc) mod 4 = 2"
    using 2(1) by presburger+
  note eq = regroup (1) [of "ord a"]
  have c: "ord a div 4 < 2 ^ 24" using v(1) by simp
  have "b64_loop ?d i (length out) vc 0 = b64_loop ?d (i + 1) (length out) (Suc vc) (ord a div 4)"
    by (rule b64_step_mid [OF _ _ v(1) _ m(1)]) (simp_all add: 2 nth_append)
  also have "\<dots> = b64_loop ?d (i + 2) (length out) (Suc (Suc vc)) (ord a * 16)"
    by (rule b64_step_mid [OF _ _ v(2) c(1) m(2)]) (simp_all add: 2 nth_append eq)
  also have "\<dots> = b64_loop ?d (i + 3) (length out) (Suc (Suc vc)) (ord a * 16)"
    by (rule b64_pad) (use 2 in \<open>auto simp: nth_append\<close>)
  also have "\<dots> = b64_loop ?d (i + 4) (length out) (Suc (Suc vc)) (ord a * 16)"
    by (rule b64_pad) (use 2 in \<open>auto simp: nth_append\<close>)
  also have "\<dots> = Some (?d, length out, Suc (Suc vc), ord a * 16, True)"
    using 2 by (subst b64_end) (auto simp: nth_append)
  finally show ?case
    using m by (intro exI [of _ "gap @ b64_encode [a]"] exI [of _ "Suc (Suc vc)"]) (auto simp: b64_acc_def)
next
  case (3 a b)
  let ?d = "out @ gap @ b64_encode [a, b] @ NUL # tail"
  note v = sextets_less (1) [of a] sextets_less (2) [of a b] sextets_less (6) [of b]
  have m: "Suc vc mod 4 \<noteq> 0" "Suc (Suc vc) mod 4 \<noteq> 0" "Suc (Suc (Suc vc)) mod 4 \<noteq> 0" "Suc (Suc (Suc vc)) mod 4 = 3"
    using 3(1) by presburger+
  note eq = regroup (2) [of "ord a" "ord b div 16"] regroup (3) [of "ord a" "ord b"]
  have "ord b div 16 \<le> ord b" by simp
  then have "ord a * 16 + ord b div 16 < 16777216" using ord_less [of a] ord_less [of b] by linarith
  then have c: "ord a div 4 < 2 ^ 24" "ord a * 16 + ord b div 16 < 2 ^ 24" using v(1) by simp_all
  have "b64_loop ?d i (length out) vc 0 = b64_loop ?d (i + 1) (length out) (Suc vc) (ord a div 4)"
    by (rule b64_step_mid [OF _ _ v(1) _ m(1)]) (simp_all add: 3 nth_append)
  also have "\<dots> = b64_loop ?d (i + 2) (length out) (Suc (Suc vc)) (ord a * 16 + ord b div 16)"
    by (rule b64_step_mid [OF _ _ v(2) c(1) m(2)]) (simp_all add: 3 nth_append eq)
  also have "\<dots> = b64_loop ?d (i + 3) (length out) (Suc (Suc (Suc vc))) (ord a * 1024 + ord b * 4)"
    by (rule b64_step_mid [OF _ _ v(3) c(2) m(3) _ eq(2) [symmetric]]) (simp_all add: 3 nth_append)
  also have "\<dots> = b64_loop ?d (i + 4) (length out) (Suc (Suc (Suc vc))) (ord a * 1024 + ord b * 4)"
    by (rule b64_pad) (use 3 in \<open>auto simp: nth_append\<close>)
  also have "\<dots> = Some (?d, length out, Suc (Suc (Suc vc)), ord a * 1024 + ord b * 4, True)"
    using 3 by (subst b64_end) (auto simp: nth_append)
  finally show ?case
    using m by (intro exI [of _ "gap @ b64_encode [a, b]"] exI [of _ "Suc (Suc (Suc vc))"]) (auto simp: b64_acc_def)
next
  case (4 a b c r)
  obtain g where q: "b64_loop (out @ gap @ b64_encode (a # b # c # r) @ NUL # tail) (length out + length gap) (length out) vc 0
      = b64_loop ((out @ [a, b, c]) @ g @ b64_encode r @ NUL # tail) (length out + length gap + 4)
          (length (out @ [a, b, c])) (vc + 4) 0"
    and g: "length g = length gap + 1"
    using b64_group [OF 4(2)] by blast
  have "(vc + 4) mod 4 = 0" and "length (out @ [a, b, c]) \<le> length out + length gap + 4"
    and "length out + length gap + 4 = length (out @ [a, b, c]) + length g"
    using 4(2) g by simp_all
  from "4.IH" [OF this]
  obtain gap' vc' where "b64_loop ((out @ [a, b, c]) @ g @ b64_encode r @ NUL # tail) (length out + length gap + 4)
        (length (out @ [a, b, c])) (vc + 4) 0
      = Some ((out @ [a, b, c]) @ b64_done r @ gap' @ NUL # tail, length (out @ [a, b, c]) + length (b64_done r), vc',
          snd (b64_acc (b64_left r)), True)"
    and "vc' mod 4 = fst (b64_acc (b64_left r))" and "length (b64_done r @ gap') = length (g @ b64_encode r)"
    and "length (b64_left r) \<le> length gap'"
    by blast
  then show ?case unfolding 4(4) q using g
    by (intro exI [of _ gap'] exI [of _ vc']) simp
qed

lemma two_octets:
  assumes "x < 256" and "y < (256::nat)"
  shows "(x * 1024 + y * 4) div 1024 mod 256 = x" "(x * 1024 + y * 4) div 4 mod 256 = y"
proof -
  have "(y * 4 + 1024 * x) div 1024 = x" using assms by simp
  then show "(x * 1024 + y * 4) div 1024 mod 256 = x" using assms by (simp add: add.commute mult.commute)
  have "(x * 1024 + y * 4) div 4 = x * 256 + y" by simp
  then show "(x * 1024 + y * 4) div 4 mod 256 = y" using assms by simp
qed

lemma DecodeB64_encode_props:
  "\<exists>d. DecodeB64 (b64_encode bs @ NUL # tail) = Some (d, length bs) \<and> take (length bs) d = bs
     \<and> d ! length bs = NUL \<and> length d = length (b64_encode bs @ NUL # tail)"
proof -
  obtain gap' vc' where loop: "b64_loop (b64_encode bs @ NUL # tail) 0 0 0 0
      = Some (b64_done bs @ gap' @ NUL # tail, length (b64_done bs), vc', snd (b64_acc (b64_left bs)), True)"
    and vc: "vc' mod 4 = fst (b64_acc (b64_left bs))"
    and len: "length (b64_done bs @ gap') = length (b64_encode bs)" "length (b64_left bs) \<le> length gap'"
    using b64_loop_encode [of 0 "[]" 0 "[]" bs tail] by auto
  have bs: "b64_done bs @ b64_left bs = bs" by (rule b64_done_left)
  have short: "length (b64_left bs) < 3" by (induction bs rule: b64_left.induct) auto
  show ?thesis
  proof (cases "b64_left bs")
    case Nil
    with loop vc bs len show ?thesis
      by (simp add: DecodeB64_def b64_acc_def in_arr_def nth_append)
  next
    case (Cons a l)
    have len': "length bs = length (b64_done bs) + length (b64_left bs)" using bs by (metis length_append)
    show ?thesis
    proof (cases l)
      case Nil
      with Cons obtain g gs where g: "gap' = g # gs" using len(2) by (cases gap') auto
      have "ord a * 16 div 16 mod 256 = ord a" by simp
      moreover obtain h hs where h: "gs @ NUL # tail = h # hs" by (cases gs) auto
      ultimately have "DecodeB64 (b64_encode bs @ NUL # tail) = Some (b64_done bs @ a # NUL # hs, length bs)"
        using Cons Nil loop vc len' g
        by (simp add: DecodeB64_def b64_acc_def in_arr_def list_update_append nat_add_distrib)
      moreover have "length (b64_done bs @ a # NUL # hs) = length (b64_encode bs @ NUL # tail)"
        using len(1) g arg_cong [OF h, of length] by simp
      ultimately show ?thesis using bs Cons Nil len' by (simp add: nth_append)
    next
      case (Cons b m)
      with \<open>b64_left bs = a # l\<close> short have l: "b64_left bs = [a, b]" by simp
      with Cons obtain g h gs where g: "gap' = g # h # gs"
        using len(2) by (cases gap'; cases "tl gap'") auto
      have "(ord a * 1024 + ord b * 4) div 1024 mod 256 = ord a" "(ord a * 1024 + ord b * 4) div 4 mod 256 = ord b"
        by (rule two_octets [OF ord_less ord_less])+
      moreover obtain k ks where k: "gs @ NUL # tail = k # ks" by (cases gs) auto
      ultimately have "DecodeB64 (b64_encode bs @ NUL # tail) = Some (b64_done bs @ a # b # NUL # ks, length bs)"
        using l loop vc len' g
        by (simp add: DecodeB64_def b64_acc_def in_arr_def list_update_append nat_add_distrib)
      moreover have "length (b64_done bs @ a # b # NUL # ks) = length (b64_encode bs @ NUL # tail)"
        using len(1) g arg_cong [OF k, of length] by simp
      ultimately show ?thesis using bs l len' by (simp add: nth_append)
    qed
  qed
qed

section \<open>Properties\<close>


text \<open>
  Decoding what a client percent-encoded gives back its bytes, whichever characters the
  client chose to escape, as long as the percent sign and NUL are among them.
\<close>

theorem URLDecode_encoded:
  assumes "esc CHR ''%''" and "esc NUL"
  shows "\<exists>u. URLDecode (pct_encode esc s @ NUL # tail) = Some (u, length s) \<and> take (length s) u = s"
  using URLDecode_pct [of "pct_encode esc s @ NUL # tail"] assms
  by (auto simp: cstr_append_NUL nul_free_pct_encode pct_decode_encode)

theorem URLDecode_encoded_witness:
  "\<exists>u. URLDecode (pct_encode (\<lambda>c. c \<in> {CHR ''%'', NUL, CHR ''&''}) ''a&b%'' @ NUL # []) = Some (u, length ''a&b%'')
     \<and> take (length ''a&b%'') u = ''a&b%''"
  by (rule URLDecode_encoded) simp_all

text \<open>
  C39: \<^verbatim>\<open>DecodeB64\<close> undoes the base64 encoding, padding included, in place: the array holds the
  decoded bytes and a NUL behind them, the length is the number of bytes, and no write
  leaves the array.
\<close>

theorem DecodeB64_encoded:
  "\<exists>d. DecodeB64 (b64_encode bs @ NUL # tail) = Some (d, length bs) \<and> take (length bs) d = bs
     \<and> d ! length bs = NUL \<and> length d = length (b64_encode bs @ NUL # tail)"
  by (rule DecodeB64_encode_props)

end
