(* ===== verification/Http_Types.thy ===== *)
theory Http_Types
  imports Utils
begin

text \<open>
  The data of the web server: the constants and structs of \<^verbatim>\<open>httpd/http_core.h\<close>,
  \<^verbatim>\<open>http_cgi.h\<close>, \<^verbatim>\<open>http_session.h\<close>, \<^verbatim>\<open>http_fs.h\<close> and \<^verbatim>\<open>arch/port.h\<close>, the global
  variables of the C files as one record, and what the server takes from outside: the answers
  of the TCP stack, the generated web root, the clock and the build options.

  A C struct is a record with the fields in the order of the source; the prefix of a field
  names its struct (\<open>q_\<close> for \<^verbatim>\<open>REQUEST_CONTEXT\<close>, \<open>p_\<close> for \<^verbatim>\<open>RESPONSE_CONTEXT\<close>,
  \<open>ssi_\<close> for \<^verbatim>\<open>SSI_Context\<close>, \<open>s_\<close> for \<^verbatim>\<open>SESSION\<close>). A char array that the code
  indexes or moves bytes in is a list of exactly its size; one that is only used as a C
  string is the string it holds. A pointer into a table is an index, NULL is \<open>None\<close>.
\<close>

section \<open>Constants\<close>

abbreviation METHOD_GET :: int where "METHOD_GET \<equiv> 1"
abbreviation METHOD_POST :: int where "METHOD_POST \<equiv> 2"

abbreviation CODE_OK :: int where "CODE_OK \<equiv> 200"
abbreviation CODE_NOTMODIFIED :: int where "CODE_NOTMODIFIED \<equiv> - 304"
abbreviation CODE_REDIRECT :: int where "CODE_REDIRECT \<equiv> - 307"
abbreviation CODE_UNAUTHORIZED :: int where "CODE_UNAUTHORIZED \<equiv> - 401"

abbreviation MAX_CONNECTIONS :: nat where "MAX_CONNECTIONS \<equiv> 4"
abbreviation MAX_REQ_BUF_SIZE :: nat where "MAX_REQ_BUF_SIZE \<equiv> 128"
abbreviation MAX_SEND_BUF_SIZE :: nat where "MAX_SEND_BUF_SIZE \<equiv> 256"
abbreviation MAX_APP_CONTEXT_SIZE :: nat where "MAX_APP_CONTEXT_SIZE \<equiv> 256"
abbreviation MAX_SESSIONS :: nat where "MAX_SESSIONS \<equiv> 5"
abbreviation MAX_FILES :: nat where "MAX_FILES \<equiv> 32"
abbreviation MAX_TAG_LEN :: nat where "MAX_TAG_LEN \<equiv> 64"
abbreviation MAX_CONN_PER_IP :: nat where "MAX_CONN_PER_IP \<equiv> 2"

abbreviation TO_RECV :: u32 where "TO_RECV \<equiv> 60000"
abbreviation TO_SENT :: u32 where "TO_SENT \<equiv> 60000"
abbreviation STAGE_END :: u32 where "STAGE_END \<equiv> 0xFFFFFFFF"

abbreviation ERR_OK :: int where "ERR_OK \<equiv> 0"
abbreviation ERR_VAL :: int where "ERR_VAL \<equiv> - 6"
abbreviation ERR_ABRT :: int where "ERR_ABRT \<equiv> - 13"

abbreviation CGI_OPT_AUTH_REQUIRED :: u32 where "CGI_OPT_AUTH_REQUIRED \<equiv> 0x40000000"
abbreviation CGI_OPT_PREFIX_WILDCARD :: u32 where "CGI_OPT_PREFIX_WILDCARD \<equiv> 0x08000000"
abbreviation CGI_OPT_GET_ENABLED :: u32 where "CGI_OPT_GET_ENABLED \<equiv> 0x00800000"
abbreviation CGI_OPT_POST_ENABLED :: u32 where "CGI_OPT_POST_ENABLED \<equiv> 0x00400000"
abbreviation CGI_OPT_CHUNK_ENABLED :: u32 where "CGI_OPT_CHUNK_ENABLED \<equiv> 0x00008000"
abbreviation CGI_OPT_GZIP :: u32 where "CGI_OPT_GZIP \<equiv> 0x00004000"

definition WEB_DEFAULT_PAGE :: string where "WEB_DEFAULT_PAGE = ''/auth/login.html''"
definition WEB_SESSION_CHECK :: string where "WEB_SESSION_CHECK = ''/auth/session_check.cgi''"
definition WEB_LOGOUT_PAGE :: string where "WEB_LOGOUT_PAGE = ''/auth/logout.cgi''"
definition WEB_APP_PAGE :: string where "WEB_APP_PAGE = ''/app/index.shtml''"

definition SERVER_HEADER :: string where "SERVER_HEADER = ''straight/1.1''"

text \<open>The receiving states, in the order of their numbers; the code compares them with \<open><\<close>.\<close>

datatype http_state =
    HTTP_STATE_IDLE
  | HTTP_STATE_HEADER_RECEIVING
  | HTTP_STATE_HEADER_DONE
  | HTTP_STATE_CHUNK_LEN_RECEIVING
  | HTTP_STATE_CHUNK_LEN_DONE
  | HTTP_STATE_CHUNK_RECEIVING
  | HTTP_STATE_CHUNK_DONE
  | HTTP_STATE_BODY_RECEIVING
  | HTTP_STATE_BODY_DONE
  | HTTP_STATE_SENDING_HEADER
  | HTTP_STATE_SENDING_BODY
  | HTTP_STATE_REQUEST_END

fun state_num :: "http_state \<Rightarrow> nat" where
  "state_num HTTP_STATE_IDLE = 0"
| "state_num HTTP_STATE_HEADER_RECEIVING = 1"
| "state_num HTTP_STATE_HEADER_DONE = 2"
| "state_num HTTP_STATE_CHUNK_LEN_RECEIVING = 3"
| "state_num HTTP_STATE_CHUNK_LEN_DONE = 4"
| "state_num HTTP_STATE_CHUNK_RECEIVING = 5"
| "state_num HTTP_STATE_CHUNK_DONE = 6"
| "state_num HTTP_STATE_BODY_RECEIVING = 7"
| "state_num HTTP_STATE_BODY_DONE = 8"
| "state_num HTTP_STATE_SENDING_HEADER = 9"
| "state_num HTTP_STATE_SENDING_BODY = 10"
| "state_num HTTP_STATE_REQUEST_END = 11"

lemma state_num_inject: "state_num a = state_num b \<longleftrightarrow> a = b"
  by (cases a; cases b) simp_all

instantiation http_state :: linorder
begin

definition less_eq_http_state :: "http_state \<Rightarrow> http_state \<Rightarrow> bool" where
  "less_eq_http_state a b \<longleftrightarrow> state_num a \<le> state_num b"

definition less_http_state :: "http_state \<Rightarrow> http_state \<Rightarrow> bool" where
  "less_http_state a b \<longleftrightarrow> state_num a < state_num b"

instance
  by standard (auto simp: less_eq_http_state_def less_http_state_def state_num_inject)

end

lemmas http_state_order [simp] = less_eq_http_state_def less_http_state_def

datatype proc_caller = HTTP_PROC_CALLER_RECV | HTTP_PROC_CALLER_POLL | HTTP_PROC_CALLER_SENT

section \<open>Structs\<close>

record SESSION =
  s_token :: string
  s_nLoginIP :: u32
  s_tLastReceived :: u64
  s_tLastSent :: u64

definition zero_session :: SESSION where
  "zero_session = \<lparr>s_token = [], s_nLoginIP = 0, s_tLastReceived = 0, s_tLastSent = 0\<rparr>"

text \<open>The work area of the page reader; \<open>ssi_fp\<close> is an index into the table of open files.\<close>

record SSI_Context =
  ssi_valid :: int
  ssi_source :: int
  ssi_fp :: "nat option"
  ssi_lastModified :: string
  ssi_ssi :: int
  ssi_ssiState :: int
  ssi_tagLength :: int
  ssi_tagName :: bytes
  ssi_cacheOffset :: int
  ssi_cache :: bytes

definition zero_ssi :: SSI_Context where
  "zero_ssi = \<lparr>ssi_valid = 0, ssi_source = 0, ssi_fp = None, ssi_lastModified = [], ssi_ssi = 0,
     ssi_ssiState = 0, ssi_tagLength = 0, ssi_tagName = zeros 64, ssi_cacheOffset = 0,
     ssi_cache = zeros MAX_TAG_LEN\<rparr>"

text \<open>
  \<^verbatim>\<open>_appContext\<close> is 256 bytes that the handlers use either as a C string (posted form
  data, the name of an upload) or, through a cast, as an \<^verbatim>\<open>SSI_Context\<close>. All-zero bytes
  read as the empty string and as the zero struct; any other string read through the cast
  gives a struct whose file pointer is made of the string's bytes, which is undefined here.
\<close>

datatype app_context = App_Raw string | App_SSI SSI_Context

definition as_raw :: "app_context \<Rightarrow> string option" where
  "as_raw a = (case a of App_Raw s \<Rightarrow> Some s | App_SSI x \<Rightarrow> if x = zero_ssi then Some [] else None)"

definition as_ssi :: "app_context \<Rightarrow> SSI_Context option" where
  "as_ssi a = (case a of App_SSI x \<Rightarrow> Some x | App_Raw s \<Rightarrow> if s = [] then Some zero_ssi else None)"

lemma as_ssi_simps [simp]:
  "as_ssi (App_SSI x) = Some x" "as_ssi (App_Raw []) = Some zero_ssi" "as_ssi (App_Raw (c # s)) = None"
  by (simp_all add: as_ssi_def)

lemma as_raw_simps [simp]: "as_raw (App_Raw s) = Some s"
  by (simp add: as_raw_def)

record RESPONSE_CONTEXT =
  p_token :: string
  p_authorized :: int
  p_dwOperStage :: u32
  p_dwOperIndex :: int
  p_dwTotal :: int
  p_sendMaxBlock :: int
  p_sending :: int
  p_total2Send :: int
  p_totalSent :: int
  p_tLastSent :: u64
  p_nSendTimeout :: u32
  p_bytesLeft :: int
  p_sendBuffer :: bytes
  p_appContext :: app_context

definition zero_response :: RESPONSE_CONTEXT where
  "zero_response = \<lparr>p_token = [], p_authorized = 0, p_dwOperStage = 0, p_dwOperIndex = 0,
     p_dwTotal = 0, p_sendMaxBlock = 0, p_sending = 0, p_total2Send = 0, p_totalSent = 0,
     p_tLastSent = 0, p_nSendTimeout = 0, p_bytesLeft = 0,
     p_sendBuffer = zeros MAX_SEND_BUF_SIZE, p_appContext = App_Raw []\<rparr>"

text \<open>The six request handlers, each a global \<^verbatim>\<open>struct CGI_Mapping\<close> of function pointers.\<close>

datatype cgi_id = g_cgiSSDP | g_cgiAuth | g_cgiForm | g_cgiFiles | g_cgiUpload | g_cgiWebApp

record CGI_Mapping =
  m_id :: cgi_id
  m_path :: string
  m_optionsAllowed :: u32

record REQUEST_CONTEXT =
  q_sid :: nat
  q_state :: http_state
  q_peer_closing :: int
  q_tRequestStart :: u64
  q_tLastReceived :: u64
  q_nReceiveTimeout :: u32
  q_https :: int
  q_ipRemote :: u32
  q_portRemote :: nat
  q_portLocal :: nat
  q_checkAlive :: int
  q_killing :: int
  q_bufOffset :: int
  q_reqBufList :: "bytes list"
  q_pcb :: "nat option"
  q_requestMethod :: int
  q_contentLength :: int
  q_keepalive :: int
  q_chunked :: int
  q_expect00 :: int
  q_ifModified :: int
  q_rangeFrom :: int
  q_rangeTo :: int
  q_contentReceived :: int
  q_result :: int
  q_session :: "nat option"
  q_handler :: "cgi_id option"
  q_options :: u32
  ctxResponse :: RESPONSE_CONTEXT
  q_ver :: string
  q_posQuestion :: int
  q_extension :: bytes
  q_requestPath :: bytes
  q_responsePath :: string
  q_fileHandle :: "nat option"
  q_request_length :: int
  q_max_level :: int
  q_http_request_buffer :: bytes

text \<open>Assignments to the response half of a context.\<close>

definition upd_resp :: "(RESPONSE_CONTEXT \<Rightarrow> RESPONSE_CONTEXT) \<Rightarrow> REQUEST_CONTEXT \<Rightarrow> REQUEST_CONTEXT" where
  "upd_resp f q = q\<lparr>ctxResponse := f (ctxResponse q)\<rparr>"

lemma upd_resp_sel [simp]: "ctxResponse (upd_resp f q) = f (ctxResponse q)"
  by (simp add: upd_resp_def)

text \<open>A zeroed context, as \<^verbatim>\<open>memset\<close> leaves it.\<close>

definition zero_context :: REQUEST_CONTEXT where
  "zero_context = \<lparr>q_sid = 0, q_state = HTTP_STATE_IDLE, q_peer_closing = 0, q_tRequestStart = 0,
     q_tLastReceived = 0, q_nReceiveTimeout = 0, q_https = 0, q_ipRemote = 0, q_portRemote = 0,
     q_portLocal = 0, q_checkAlive = 0, q_killing = 0, q_bufOffset = 0, q_reqBufList = [], q_pcb = None,
     q_requestMethod = 0, q_contentLength = 0, q_keepalive = 0, q_chunked = 0, q_expect00 = 0,
     q_ifModified = 0, q_rangeFrom = 0, q_rangeTo = 0, q_contentReceived = 0, q_result = 0,
     q_session = None, q_handler = None, q_options = 0, ctxResponse = zero_response, q_ver = [],
     q_posQuestion = 0, q_extension = zeros 8, q_requestPath = zeros 128, q_responsePath = [],
     q_fileHandle = None, q_request_length = 0, q_max_level = 0,
     q_http_request_buffer = zeros 132\<rparr>"

record DeviceConfig =
  nDhcpEnabled :: u32
  dwIP :: u32
  dwSubnet :: u32
  dwGateway :: u32
  nLog :: int
  nSessionTimeout :: int
  szColor :: string
  szDate :: string
  szFont :: string
  szLocation :: string

section \<open>Files\<close>

text \<open>
  An entry of the generated web root (\<^verbatim>\<open>fs_data.c\<close>): the header fields the code reads, the
  name behind the header and the bytes behind the name. The header's offset of the next
  entry is the order of the list; a size and a data list that differ are not excluded.
\<close>

record web_file =
  f_name :: string
  f_nSize :: nat
  f_tLastModified :: nat
  f_data :: bytes

text \<open>What a handle points at: an entry of the web root or of the table of fake files.\<close>

datatype file_ref = Web_File nat | Fake_File nat

record file_handle =
  pFileInfo :: "file_ref option"
  lReadPos :: u32

definition zero_handle :: file_handle where
  "zero_handle = \<lparr>pFileInfo = None, lReadPos = 0\<rparr>"

section \<open>The TCP stack, the environment and the global state\<close>

text \<open>The calls the server makes into lwIP, in order, with the pcb each concerns.\<close>

datatype net_call =
    Altcp_recved nat nat
  | Altcp_write nat bytes
  | Altcp_close nat
  | Altcp_abort nat
  | Altcp_arg nat "nat option"
  | Altcp_callbacks nat bool
  | Altcp_poll nat bool
  | Altcp_setprio nat
  | Altcp_nagle_disable nat
  | Pbuf_free bytes
  | Altcp_bind nat nat
  | Altcp_listen nat
  | Altcp_accept "nat option"
  | Tcp_kill_timewait

text \<open>
  What the code takes from outside. The answers of the stack are functions of the calls made
  to it so far; \<open>e_tls\<close> is the build option that compiles TLS in (\<^verbatim>\<open>LWIP_ALTCP_TLS\<close> and
  \<^verbatim>\<open>ENABLE_HTTPS\<close>), \<open>e_clock\<close> the text that \<^verbatim>\<open>getClock\<close> makes of the real-time clock.
\<close>

record env =
  e_tls :: bool
  e_sndbuf :: "net_call list \<Rightarrow> int"
  e_write :: "net_call list \<Rightarrow> bytes \<Rightarrow> int"
  e_close :: "net_call list \<Rightarrow> int"
  e_webroot :: "web_file list"
  e_clock :: string

text \<open>
  The global variables. \<open>g_now\<close> is the tick counter, read once per event.
\<close>

record glob =
  g_httpSessions :: "SESSION list"
  g_FileOpened :: "file_handle list"
  g_cgiMapping :: "CGI_Mapping list"
  g_WorkConfig :: DeviceConfig
  g_TempConfig :: DeviceConfig
  g_byMyMAC :: bytes
  g_ipIsReady :: int
  g_httpsListening :: int
  g_pcbListen443 :: "nat option"
  g_calls :: "net_call list"
  g_now :: u64

definition call :: "net_call \<Rightarrow> glob \<Rightarrow> glob" where
  "call x g = g\<lparr>g_calls := g_calls g @ [x]\<rparr>"

definition CONNECTION_HEADER :: "env \<Rightarrow> string" where
  "CONNECTION_HEADER e = (if e_tls e then ''keep-alive'' else ''close'')"

text \<open>The tick the code stores: never 0, which means \<^emph>\<open>no time recorded\<close>.\<close>

definition tick_stamp :: "u64 \<Rightarrow> u64" where
  "tick_stamp now = (if now = 0 then 1 else now)"

lemma tick_stamp_nonzero [simp]: "tick_stamp now \<noteq> 0"
  by (simp add: tick_stamp_def)

end
