(* ===== verification/Device.thy ===== *)
theory Device
  imports Http_Types
begin

text \<open>
  \<^verbatim>\<open>lwip-port/lpc407x/arch/port_device.c\<close>: the constants of the device, its running
  configuration, the copy that is edited through the web pages, and the step that makes the
  copy the running one. The lock of the configuration is empty in this build. A setter or
  getter reads and writes the global record; \<^verbatim>\<open>strncpy\<close> into a field of 16 bytes that was
  cleared first keeps the first 15 characters.
\<close>

section \<open>Constants of the device\<close>

definition g_byMyMAC_init :: bytes where
  "g_byMyMAC_init = [CHR 0x00, CHR 0x00, CHR 0x00, CHR 0x20, CHR 0xAA, CHR 0x77]"

definition GetVendor :: string where "GetVendor = ''Straight''"
definition GetVendorURL :: string where "GetVendorURL = ''https://github.com/straight-coding/''"
definition GetModel :: string where "GetModel = ''straight-httpd''"
definition GetModelURL :: string where "GetModelURL = ''https://github.com/straight-coding/straight-httpd''"
definition GetDeviceName :: string where "GetDeviceName = ''Virtual Device''"
definition GetDeviceSN :: string where "GetDeviceSN = ''2020-04-10''"
definition GetDeviceUUID :: string where "GetDeviceUUID = ''A5757C42-0234-4600-8E0F-8551B7EAEB7A''"
definition GetDeviceVersion :: string where "GetDeviceVersion = ''v1.0.0''"

definition GetMyMAC :: "glob \<Rightarrow> bytes" where
  "GetMyMAC g = g_byMyMAC g"

section \<open>The running configuration\<close>

definition zero_config :: DeviceConfig where
  "zero_config = \<lparr>nDhcpEnabled = 0, dwIP = 0, dwSubnet = 0, dwGateway = 0, nLog = 0, nSessionTimeout = 0,
     szColor = [], szDate = [], szFont = [], szLocation = []\<rparr>"

text \<open>\<open>cpuSN\<close> is the serial number of the chip; its first three bytes become the end of the MAC.\<close>

definition InitDevInfo :: "bytes \<Rightarrow> glob \<Rightarrow> glob option" where
  "InitDevInfo cpuSN g =
     (if length cpuSN < 3 then None
      else do {
        mac \<leftarrow> blit (g_byMyMAC g) 3 (take 3 cpuSN);
        let cfg = zero_config\<lparr>nDhcpEnabled := 1, dwIP := 0, dwSubnet := 0, dwGateway := 0,
                    nLog := 0, nSessionTimeout := 3 * 60 * 1000\<rparr>;
        Some (g\<lparr>g_WorkConfig := cfg, g_byMyMAC := mac, g_TempConfig := cfg\<rparr>) })"

definition IsDhcpEnabled :: "glob \<Rightarrow> u32" where
  "IsDhcpEnabled g = nDhcpEnabled (g_WorkConfig g)"

definition GetLongIP :: "glob \<Rightarrow> u32" where "GetLongIP g = dwIP (g_WorkConfig g)"
definition GetMyIP :: "glob \<Rightarrow> u32" where "GetMyIP g = GetLongIP g"
definition GetGateway :: "glob \<Rightarrow> u32" where "GetGateway g = dwGateway (g_WorkConfig g)"
definition GetSubnet :: "glob \<Rightarrow> u32" where "GetSubnet g = dwSubnet (g_WorkConfig g)"

definition SetLongIP :: "u32 \<Rightarrow> glob \<Rightarrow> glob" where
  "SetLongIP addr g = g\<lparr>g_WorkConfig := (g_WorkConfig g)\<lparr>dwIP := addr\<rparr>\<rparr>"

definition SetGateway :: "u32 \<Rightarrow> glob \<Rightarrow> glob" where
  "SetGateway addr g = g\<lparr>g_WorkConfig := (g_WorkConfig g)\<lparr>dwGateway := addr\<rparr>\<rparr>"

definition SetSubnet :: "u32 \<Rightarrow> glob \<Rightarrow> glob" where
  "SetSubnet addr g = g\<lparr>g_WorkConfig := (g_WorkConfig g)\<lparr>dwSubnet := addr\<rparr>\<rparr>"

definition GetSessionTimeout :: "glob \<Rightarrow> int" where
  "GetSessionTimeout g = nSessionTimeout (g_WorkConfig g)"

definition GetLocation :: "glob \<Rightarrow> string" where "GetLocation g = szLocation (g_WorkConfig g)"
definition GetColor :: "glob \<Rightarrow> string" where "GetColor g = szColor (g_WorkConfig g)"
definition GetDate :: "glob \<Rightarrow> string" where "GetDate g = szDate (g_WorkConfig g)"
definition GetFont :: "glob \<Rightarrow> string" where "GetFont g = szFont (g_WorkConfig g)"

text \<open>
  The providers print into a buffer of at least \<open>maxSize\<close> bytes; the result is the string
  the buffer then holds and the length they return. \<open>%u\<close> reads a negative long as unsigned;
  C division truncates toward zero.
\<close>

definition fill_result :: "string \<Rightarrow> int \<Rightarrow> string \<times> int" where
  "fill_result s maxSize = (s, if int (length s) < maxSize then int (length s) else maxSize)"

definition FillDhcp :: "glob \<Rightarrow> int \<Rightarrow> string \<times> int" where
  "FillDhcp g maxSize = fill_result (if nDhcpEnabled (g_WorkConfig g) > 0 then fmt_u 1 else fmt_u 0) maxSize"

definition tdiv :: "int \<Rightarrow> int \<Rightarrow> int" where
  "tdiv a b = (if a < 0 then - ((- a) div b) else a div b)"

definition FillSessionTimeout :: "glob \<Rightarrow> int \<Rightarrow> string \<times> int" where
  "FillSessionTimeout g maxSize =
     fill_result (fmt_u (nat (tdiv (nSessionTimeout (g_WorkConfig g)) (60 * 1000) mod 2 ^ 32))) maxSize"

definition mac_octet :: "bytes \<Rightarrow> nat \<Rightarrow> string" where
  "mac_octet mac i = pad0 2 (fmt_X (ord (mac ! i)))"

definition FillMAC :: "glob \<Rightarrow> int \<Rightarrow> string \<times> int" where
  "FillMAC g maxSize = (let mac = GetMyMAC g in
     fill_result (take (nat maxSize) (mac_octet mac 0 @ '':'' @ mac_octet mac 1 @ '':'' @ mac_octet mac 2 @ '':''
       @ mac_octet mac 3 @ '':'' @ mac_octet mac 4 @ '':'' @ mac_octet mac 5)) maxSize)"

definition FillIP :: "glob \<Rightarrow> int \<Rightarrow> string \<times> int" where
  "FillIP g maxSize = fill_result (take (nat maxSize) (dotted (GetLongIP g))) maxSize"

definition FillGateway :: "glob \<Rightarrow> int \<Rightarrow> string \<times> int" where
  "FillGateway g maxSize = fill_result (take (nat maxSize) (dotted (GetGateway g))) maxSize"

definition FillSubnet :: "glob \<Rightarrow> int \<Rightarrow> string \<times> int" where
  "FillSubnet g maxSize = fill_result (take (nat maxSize) (dotted (GetSubnet g))) maxSize"

definition FillLog :: "glob \<Rightarrow> int \<Rightarrow> string \<times> int" where
  "FillLog g maxSize = fill_result (if nLog (g_WorkConfig g) > 0 then fmt_u 1 else fmt_u 0) maxSize"

section \<open>Editing and applying\<close>

definition LoadConfig4Edit :: "glob \<Rightarrow> glob" where
  "LoadConfig4Edit g = g\<lparr>g_TempConfig := g_WorkConfig g\<rparr>"

definition AppyConfig :: "glob \<Rightarrow> glob" where
  "AppyConfig g =
     (let dhcpChanged = nDhcpEnabled (g_WorkConfig g) \<noteq> nDhcpEnabled (g_TempConfig g);
          g = g\<lparr>g_WorkConfig := g_TempConfig g\<rparr>
      in if dhcpChanged then g\<lparr>g_ipIsReady := 0\<rparr> else g)"

definition edit_temp :: "(DeviceConfig \<Rightarrow> DeviceConfig) \<Rightarrow> glob \<Rightarrow> glob" where
  "edit_temp f g = g\<lparr>g_TempConfig := f (g_TempConfig g)\<rparr>"

definition SetLocation :: "string \<Rightarrow> glob \<Rightarrow> glob" where
  "SetLocation val = edit_temp (szLocation_update (\<lambda>_. take 15 val))"

definition SetColor :: "string \<Rightarrow> glob \<Rightarrow> glob" where
  "SetColor val = edit_temp (szColor_update (\<lambda>_. take 15 val))"

definition SetTestDate :: "string \<Rightarrow> glob \<Rightarrow> glob" where
  "SetTestDate val = edit_temp (szDate_update (\<lambda>_. take 15 val))"

definition SetFont :: "string \<Rightarrow> glob \<Rightarrow> glob" where
  "SetFont val = edit_temp (szFont_update (\<lambda>_. take 15 val))"

definition SetTestLog :: "string \<Rightarrow> glob \<Rightarrow> glob" where
  "SetTestLog val = edit_temp (nLog_update (\<lambda>_. atol val))"

definition SetDhcpEnabled :: "string \<Rightarrow> glob \<Rightarrow> glob" where
  "SetDhcpEnabled val = edit_temp (nDhcpEnabled_update (\<lambda>_. if atol val \<noteq> 0 then 1 else 0))"

definition SetSessionTimeout :: "string \<Rightarrow> glob \<Rightarrow> glob" where
  "SetSessionTimeout val = edit_temp (nSessionTimeout_update (\<lambda>_. s32 (60 * 1000 * atol val)))"

definition SetMyIPString :: "string \<Rightarrow> glob \<Rightarrow> glob" where
  "SetMyIPString addr = edit_temp (dwIP_update (\<lambda>_. 0))"

definition SetGatewayString :: "string \<Rightarrow> glob \<Rightarrow> glob" where
  "SetGatewayString addr = edit_temp (dwGateway_update (\<lambda>_. 0))"

definition SetSubnetString :: "string \<Rightarrow> glob \<Rightarrow> glob" where
  "SetSubnetString addr = edit_temp (dwSubnet_update (\<lambda>_. 0))"

lemmas setter_defs = SetLocation_def SetColor_def SetTestDate_def SetFont_def SetTestLog_def
  SetDhcpEnabled_def SetSessionTimeout_def SetMyIPString_def SetGatewayString_def SetSubnetString_def

lemma edit_temp_frame [frame_simps]:
  "g_WorkConfig (edit_temp f g) = g_WorkConfig g"
  "g_httpSessions (edit_temp f g) = g_httpSessions g"
  "g_FileOpened (edit_temp f g) = g_FileOpened g"
  "g_cgiMapping (edit_temp f g) = g_cgiMapping g"
  "g_calls (edit_temp f g) = g_calls g"
  "g_ipIsReady (edit_temp f g) = g_ipIsReady g"
  "g_now (edit_temp f g) = g_now g"
  "g_byMyMAC (edit_temp f g) = g_byMyMAC g"
  by (simp_all add: edit_temp_def)

text \<open>The string fields hold at most 15 characters, the flags 0 or 1.\<close>

definition config_wf :: "DeviceConfig \<Rightarrow> bool" where
  "config_wf c \<longleftrightarrow> length (szColor c) < 16 \<and> length (szDate c) < 16 \<and> length (szFont c) < 16
     \<and> length (szLocation c) < 16 \<and> nDhcpEnabled c \<in> {0, 1}
     \<and> - 2147483648 \<le> nLog c \<and> nLog c < 2147483648
     \<and> - 2147483648 \<le> nSessionTimeout c \<and> nSessionTimeout c < 2147483648"

lemma config_wf_edit:
  "config_wf (g_TempConfig g) \<Longrightarrow> (\<And>c. config_wf c \<Longrightarrow> config_wf (f c)) \<Longrightarrow> config_wf (g_TempConfig (edit_temp f g))"
  by (simp add: edit_temp_def)

lemma config_wf_fields:
  assumes "config_wf c"
  shows "config_wf (szLocation_update (\<lambda>_. take 15 s) c)" "config_wf (szColor_update (\<lambda>_. take 15 s) c)"
    "config_wf (szDate_update (\<lambda>_. take 15 s) c)" "config_wf (szFont_update (\<lambda>_. take 15 s) c)"
    "config_wf (nLog_update (\<lambda>_. atol s) c)" "config_wf (nSessionTimeout_update (\<lambda>_. s32 v) c)"
    "config_wf (dwIP_update (\<lambda>_. ip) c)" "config_wf (dwGateway_update (\<lambda>_. ip) c)" "config_wf (dwSubnet_update (\<lambda>_. ip) c)"
  using assms atol_range [of s] s32_range [of v] by (auto simp: config_wf_def)

lemma config_wf_dhcp: "config_wf c \<Longrightarrow> b = 0 \<or> b = 1 \<Longrightarrow> config_wf (nDhcpEnabled_update (\<lambda>_. b) c)"
  by (auto simp: config_wf_def)

section \<open>Addresses: printing and reading back\<close>

lemma strchr_skip: "c \<notin> set s \<Longrightarrow> strchr (s @ c # r) c = Some (length s)"
  by (induction s) (auto simp: strchr_def strstr_Cons strstr.simps [of "c # r"])

lemma dot_not_fmt: "CHR ''.'' \<notin> set (fmt_u n)"
  using fmt_u_digits [of "CHR ''.''" n] by (auto simp: is_digit_def ord_def)

lemma octet_div: "octet ip k = unat ip div 256 ^ k mod 256"
proof -
  have m: "(255 :: nat) = mask 8" by (simp add: mask_eq_exp_minus_1)
  have "octet ip k = drop_bit (8 * k) (unat ip) AND 255"
    using unsigned_less [of ip, where ?'a = nat]
    by (simp add: octet_def unsigned_and_eq unsigned_drop_bit_eq take_bit_nat_eq_self)
  also have "\<dots> = take_bit 8 (drop_bit (8 * k) (unat ip))" unfolding m by (rule take_bit_eq_mask [symmetric])
  finally show ?thesis by (simp add: take_bit_eq_mod drop_bit_eq_div power_mult)
qed

lemma octet_less [simp]: "octet ip k < 256"
  by (simp add: octet_div)

lemma length_dotted: "length (dotted ip) \<le> 15"
proof -
  have "length (base_digits 10 n) \<le> 3" if "n < 256" for n :: nat
  proof -
    have "n div 10 div 10 < 10" using that by (simp add: div_mult2_eq [symmetric] less_mult_imp_div_less)
    then show ?thesis
      by (simp add: base_digits.simps [of 10 n] base_digits.simps [of 10 "n div 10"]
          base_digits.simps [of 10 "n div 10 div 10"] del: div_mult2_eq)
  qed
  then have "length (fmt_u (octet ip k)) \<le> 3" for k by (simp add: fmt_u_def)
  from this [of 0] this [of 1] this [of 2] this [of 3] show ?thesis
    by (simp add: dotted_def)
qed

lemma octets_value:
  fixes n :: nat
  assumes "n < 2 ^ 32"
  shows "((n div 256 ^ 3 mod 256 * 256 + n div 256 ^ 2 mod 256) * 256 + n div 256 ^ 1 mod 256) * 256 + n div 256 ^ 0 mod 256 = n"
proof -
  have "n div 16777216 < 256" using assms by (simp add: less_mult_imp_div_less)
  moreover have "n div 65536 = n div 16777216 * 256 + n div 65536 mod 256"
    using div_mult_mod_eq [of "n div 65536" 256] by (simp add: div_mult2_eq [symmetric])
  moreover have "n div 256 = n div 65536 * 256 + n div 256 mod 256"
    using div_mult_mod_eq [of "n div 256" 256] by (simp add: div_mult2_eq [symmetric])
  moreover have "n = n div 256 * 256 + n mod 256" by simp
  ultimately show ?thesis by simp
qed

lemma GetIpAddress_dotted_eq: "GetIpAddress (dotted ip) = ip"
proof -
  let ?o = "octet ip"
  have a: "atol (fmt_u (?o k) @ CHR ''.'' # r) = int (?o k)" for k r
  proof (rule atol_fmt_u)
    show "int (?o k) \<le> 2147483647" using octet_less [of ip k] by linarith
  qed (simp add: is_digit_def ord_def)
  have z: "atol (fmt_u (?o 0)) = int (?o 0)"
    using atol_fmt_u [of "?o 0" "[]"] octet_less [of ip 0] by simp
  have s: "strchr (fmt_u n @ CHR ''.'' # r) CHR ''.'' = Some (length (fmt_u n))" for n r
    by (rule strchr_skip) (rule dot_not_fmt)
  have "GetIpAddress (dotted ip) = ((word_of_nat (?o 3) * 256 + word_of_nat (?o 2)) * 256 + word_of_nat (?o 1)) * 256 + word_of_nat (?o 0)"
    by (simp add: GetIpAddress_def dotted_def numeral_3_eq_3 a s z Let_def push_bit_eq_mult)
  also have "\<dots> = word_of_nat (((?o 3 * 256 + ?o 2) * 256 + ?o 1) * 256 + ?o 0)" by simp
  also have "((?o 3 * 256 + ?o 2) * 256 + ?o 1) * 256 + ?o 0 = unat ip"
    unfolding octet_div by (rule octets_value) (use unsigned_less [of ip, where ?'a = nat] in simp)
  finally show ?thesis by simp
qed

section \<open>Properties\<close>

text \<open>
  Reading back a printed address gives the address: \<^verbatim>\<open>GetIpAddress\<close> is the inverse of the
  dotted form that the configuration pages print.
\<close>

theorem GetIpAddress_dotted: "GetIpAddress (dotted ip) = ip"
  by (rule GetIpAddress_dotted_eq)

end
