(* ===== verification/Samples.thy ===== *)
theory Samples
  imports Http_Types
begin

text \<open>
  Concrete values on which the general theorems are instantiated: a stack that takes what it
  is given, a small web root, a configuration and a connection.
\<close>

definition sample_env :: env where
  "sample_env = \<lparr>e_tls = False, e_sndbuf = (\<lambda>_. 100), e_write = (\<lambda>_ _. 0), e_close = (\<lambda>_. 0),
     e_webroot = [\<lparr>f_name = ''/app/index.shtml'', f_nSize = 5, f_tLastModified = 1591802842, f_data = ''Hello''\<rparr>],
     e_clock = ''Thu, 11 Jun 2020 10:00:00 GMT''\<rparr>"

definition sample_config :: DeviceConfig where
  "sample_config = \<lparr>nDhcpEnabled = 1, dwIP = 0xC0A80563, dwSubnet = 0xFFFFFF00, dwGateway = 0xC0A80501, nLog = 0,
     nSessionTimeout = 180000, szColor = ''red'', szDate = [], szFont = [], szLocation = []\<rparr>"

definition sample_glob :: glob where
  "sample_glob = \<lparr>g_httpSessions = replicate 5 zero_session, g_FileOpened = replicate 32 zero_handle, g_cgiMapping = [],
     g_WorkConfig = sample_config, g_TempConfig = sample_config, g_byMyMAC = zeros 6, g_ipIsReady = 1,
     g_httpsListening = 0, g_pcbListen443 = None, g_calls = [], g_now = 5000\<rparr>"

text \<open>An open connection on which nothing was received.\<close>

definition sample_context :: REQUEST_CONTEXT where
  "sample_context = zero_context\<lparr>q_pcb := Some 7, q_max_level := 128, q_requestMethod := - 1, q_chunked := - 1,
     q_contentLength := - 1, q_ipRemote := 0xC0A80502\<rparr>"

end
