(* ===== verification/Ssi.thy ===== *)
theory Ssi
  imports Device Samples
begin

text \<open>
  \<^verbatim>\<open>httpd/cgi/cgi_ssi.c\<close>: the two tables of tag names, the setters that a posted form calls
  and the replacement of a tag of a page by its value. A table entry holds its function
  directly; the types of tags that no entry of the tables has (numbers read from memory) do
  not occur.
\<close>

datatype tag_getter = TAG_GETTER "glob \<Rightarrow> string" | TAG_PROVIDER "glob \<Rightarrow> int \<Rightarrow> string \<times> int"

definition g_Getters :: "(string \<times> tag_getter) list" where
  "g_Getters = [
     (''DEV_VENDOR'', TAG_GETTER (\<lambda>_. GetVendor)),
     (''DEV_VENDOR_URL'', TAG_GETTER (\<lambda>_. GetVendorURL)),
     (''DEV_MODEL'', TAG_GETTER (\<lambda>_. GetModel)),
     (''DEV_MODEL_URL'', TAG_GETTER (\<lambda>_. GetModelURL)),
     (''DEV_DHCP'', TAG_PROVIDER FillDhcp),
     (''DEV_MAC'', TAG_PROVIDER FillMAC),
     (''DEV_IP'', TAG_PROVIDER FillIP),
     (''DEV_GATEWAY'', TAG_PROVIDER FillGateway),
     (''DEV_SUBNET'', TAG_PROVIDER FillSubnet),
     (''VAR_SESSION_TIMEOUT'', TAG_PROVIDER FillSessionTimeout),
     (''DEV_NAME'', TAG_GETTER (\<lambda>_. GetDeviceName)),
     (''DEV_SN'', TAG_GETTER (\<lambda>_. GetDeviceSN)),
     (''DEV_UUID'', TAG_GETTER (\<lambda>_. GetDeviceUUID)),
     (''DEV_VERSION'', TAG_GETTER (\<lambda>_. GetDeviceVersion)),
     (''VAR_LOCATION'', TAG_GETTER GetLocation),
     (''VAR_COLOR'', TAG_GETTER GetColor),
     (''VAR_DATE'', TAG_GETTER GetDate),
     (''VAR_FONT'', TAG_GETTER GetFont),
     (''VAR_LOG'', TAG_PROVIDER FillLog)]"

definition g_Setters :: "(string \<times> (string \<Rightarrow> glob \<Rightarrow> glob)) list" where
  "g_Setters = [
     (''DEV_DHCP'', SetDhcpEnabled),
     (''VAR_SESSION_TIMEOUT'', SetSessionTimeout),
     (''DEV_IP'', SetMyIPString),
     (''DEV_GATEWAY'', SetGatewayString),
     (''DEV_SUBNET'', SetSubnetString),
     (''VAR_LOCATION'', SetLocation),
     (''VAR_COLOR'', SetColor),
     (''VAR_DATE'', SetTestDate),
     (''VAR_FONT'', SetFont),
     (''VAR_LOG'', SetTestLog)]"

fun lookup_tag :: "(string \<times> 'a) list \<Rightarrow> string \<Rightarrow> 'a option" where
  "lookup_tag [] name = None"
| "lookup_tag ((t, h) # rest) name = (if t \<noteq> name then lookup_tag rest name else Some h)"

definition TAG_Setter :: "string \<Rightarrow> string \<Rightarrow> glob \<Rightarrow> glob" where
  "TAG_Setter name val g =
     (case lookup_tag g_Setters name of None \<Rightarrow> g | Some setter \<Rightarrow> setter val g)"

text \<open>The value of a tag, cut to the 63 characters that \<^verbatim>\<open>szTemp\<close> holds.\<close>

definition tag_value :: "glob \<Rightarrow> string \<Rightarrow> string" where
  "tag_value g tagName =
     (case lookup_tag g_Getters tagName of
        None \<Rightarrow> []
      | Some (TAG_GETTER getter) \<Rightarrow> take 63 (getter g)
      | Some (TAG_PROVIDER producer) \<Rightarrow> fst (producer g 63))"

text \<open>
  The bytes \<^verbatim>\<open>ReplaceTag\<close> writes to \<open>appendTo\<close>; their number is its result. A negative
  \<open>maxAllowed\<close> reaches \<^verbatim>\<open>strncpy\<close> as a huge length, which pads with zeros past the buffer.
\<close>

definition ReplaceTag :: "glob \<Rightarrow> string \<Rightarrow> int \<Rightarrow> string option" where
  "ReplaceTag g tagName maxAllowed =
     (let szTemp = tag_value g tagName in
      if szTemp = [] then Some []
      else if maxAllowed < 0 then None
      else Some (take (nat maxAllowed) szTemp))"

section \<open>Correctness\<close>

lemma lookup_tag_map_of: "lookup_tag xs name = map_of xs name"
  by (induction xs) auto

lemma TAG_Setter_temp:
  "\<exists>f. TAG_Setter name val g = edit_temp f g"
proof (cases "lookup_tag g_Setters name")
  case None
  then have "TAG_Setter name val g = edit_temp (\<lambda>c. c) g" by (simp add: TAG_Setter_def edit_temp_def)
  then show ?thesis by (intro exI [of _ "\<lambda>c. c"]) simp
next
  case (Some h)
  then have "h \<in> snd ` set g_Setters"
    unfolding lookup_tag_map_of by (metis map_of_SomeD image_eqI snd_conv)
  with Some show ?thesis
    by (auto simp: TAG_Setter_def g_Setters_def setter_defs)
qed

lemma TAG_Setter_frame [frame_simps]:
  "g_WorkConfig (TAG_Setter name val g) = g_WorkConfig g"
  "g_httpSessions (TAG_Setter name val g) = g_httpSessions g"
  "g_FileOpened (TAG_Setter name val g) = g_FileOpened g"
  "g_cgiMapping (TAG_Setter name val g) = g_cgiMapping g"
  "g_calls (TAG_Setter name val g) = g_calls g"
  "g_ipIsReady (TAG_Setter name val g) = g_ipIsReady g"
  "g_now (TAG_Setter name val g) = g_now g"
  using TAG_Setter_temp [of name val g] by (auto simp: frame_simps)

lemma TAG_Setter_wf:
  assumes "config_wf (g_TempConfig g)"
  shows "config_wf (g_TempConfig (TAG_Setter name val g))"
proof (cases "lookup_tag g_Setters name")
  case (Some h)
  then have "h \<in> snd ` set g_Setters"
    unfolding lookup_tag_map_of by (metis map_of_SomeD image_eqI snd_conv)
  with Some show ?thesis using assms config_wf_fields config_wf_dhcp
    by (auto simp: TAG_Setter_def g_Setters_def setter_defs intro!: config_wf_edit)
qed (use assms in \<open>simp add: TAG_Setter_def\<close>)

text \<open>A form is a list of names and values; posting it sets them in order.\<close>

definition set_all :: "(string \<times> string) list \<Rightarrow> glob \<Rightarrow> glob" where
  "set_all ps g = fold (\<lambda>(n, v). TAG_Setter n v) ps g"

lemma set_all_simps [simp]:
  "set_all [] g = g" "set_all ((n, v) # ps) g = set_all ps (TAG_Setter n v g)"
  "set_all (ps @ qs) g = set_all qs (set_all ps g)"
  by (simp_all add: set_all_def)

lemma set_all_frame [frame_simps]:
  "g_WorkConfig (set_all ps g) = g_WorkConfig g"
  "g_httpSessions (set_all ps g) = g_httpSessions g"
  "g_FileOpened (set_all ps g) = g_FileOpened g"
  "g_cgiMapping (set_all ps g) = g_cgiMapping g"
  "g_calls (set_all ps g) = g_calls g"
  "g_ipIsReady (set_all ps g) = g_ipIsReady g"
  "g_now (set_all ps g) = g_now g"
  by (induction ps arbitrary: g) (auto simp: frame_simps)

lemma set_all_wf: "config_wf (g_TempConfig g) \<Longrightarrow> config_wf (g_TempConfig (set_all ps g))"
  by (induction ps arbitrary: g) (auto simp: TAG_Setter_wf)

lemma ReplaceTag_bound: "ReplaceTag g tagName m = Some v \<Longrightarrow> v = [] \<or> int (length v) \<le> m"
  by (auto simp: ReplaceTag_def Let_def split: if_splits)

lemma tag_value_simps:
  "tag_value g ''VAR_COLOR'' = take 63 (GetColor g)" "tag_value g ''VAR_LOCATION'' = take 63 (GetLocation g)"
  "tag_value g ''VAR_DATE'' = take 63 (GetDate g)" "tag_value g ''VAR_FONT'' = take 63 (GetFont g)"
  "tag_value g ''DEV_DHCP'' = fst (FillDhcp g 63)" "tag_value g ''VAR_SESSION_TIMEOUT'' = fst (FillSessionTimeout g 63)"
  "tag_value g ''DEV_IP'' = fst (FillIP g 63)" "tag_value g ''DEV_GATEWAY'' = fst (FillGateway g 63)"
  "tag_value g ''DEV_SUBNET'' = fst (FillSubnet g 63)" "tag_value g ''VAR_LOG'' = fst (FillLog g 63)"
  by (simp_all add: tag_value_def g_Getters_def)

lemma TAG_Setter_simps:
  "TAG_Setter ''VAR_COLOR'' = SetColor" "TAG_Setter ''VAR_LOCATION'' = SetLocation"
  "TAG_Setter ''VAR_DATE'' = SetTestDate" "TAG_Setter ''VAR_FONT'' = SetFont"
  "TAG_Setter ''DEV_DHCP'' = SetDhcpEnabled" "TAG_Setter ''VAR_SESSION_TIMEOUT'' = SetSessionTimeout"
  "TAG_Setter ''DEV_IP'' = SetMyIPString" "TAG_Setter ''DEV_GATEWAY'' = SetGatewayString"
  "TAG_Setter ''DEV_SUBNET'' = SetSubnetString" "TAG_Setter ''VAR_LOG'' = SetTestLog"
  by (simp_all add: TAG_Setter_def g_Setters_def fun_eq_iff)

lemma fmt_u_bits: "fmt_u 0 = ''0''" "fmt_u (Suc 0) = ''1''"
  by code_simp+

lemma dotted_zero: "dotted 0 = ''0.0.0.0''"
  by code_simp

section \<open>Properties\<close>



text \<open>
  C29: A setting that a form posts is what the pages show once the form is applied: the text
  fields up to 15 characters, the log switch and DHCP as 0 or 1, the session timeout in
  minutes as long as its milliseconds fit into a long. The three addresses are not taken from
  the form: they become 0.0.0.0.
\<close>

theorem settings_show_what_was_posted:
  defines "post \<equiv> \<lambda>name val g. AppyConfig (TAG_Setter name val g)"
  shows "tag_value (post ''VAR_COLOR'' v g) ''VAR_COLOR'' = take 15 v
    \<and> tag_value (post ''VAR_LOCATION'' v g) ''VAR_LOCATION'' = take 15 v
    \<and> tag_value (post ''VAR_DATE'' v g) ''VAR_DATE'' = take 15 v
    \<and> tag_value (post ''VAR_FONT'' v g) ''VAR_FONT'' = take 15 v
    \<and> tag_value (post ''DEV_DHCP'' v g) ''DEV_DHCP'' = (if atol v \<noteq> 0 then ''1'' else ''0'')
    \<and> tag_value (post ''VAR_LOG'' v g) ''VAR_LOG'' = (if atol v > 0 then ''1'' else ''0'')
    \<and> (minutes \<le> 35791 \<longrightarrow> tag_value (post ''VAR_SESSION_TIMEOUT'' (fmt_u minutes) g) ''VAR_SESSION_TIMEOUT'' = fmt_u minutes)
    \<and> tag_value (post ''DEV_IP'' v g) ''DEV_IP'' = ''0.0.0.0''
    \<and> tag_value (post ''DEV_GATEWAY'' v g) ''DEV_GATEWAY'' = ''0.0.0.0''
    \<and> tag_value (post ''DEV_SUBNET'' v g) ''DEV_SUBNET'' = ''0.0.0.0''"
proof (intro conjI impI)
  assume m: "minutes \<le> 35791"
  have "atol (fmt_u minutes) = int minutes" using atol_fmt_u [of minutes "[]"] m by simp
  moreover have "s32 (60 * 1000 * int minutes) = 60000 * int minutes" using m by (simp add: s32_id)
  ultimately show "tag_value (post ''VAR_SESSION_TIMEOUT'' (fmt_u minutes) g) ''VAR_SESSION_TIMEOUT'' = fmt_u minutes"
    using m by (simp add: post_def TAG_Setter_simps tag_value_simps SetSessionTimeout_def edit_temp_def AppyConfig_def Let_def
        FillSessionTimeout_def fill_result_def tdiv_def)
qed (simp_all add: post_def TAG_Setter_simps tag_value_simps setter_defs edit_temp_def AppyConfig_def Let_def fill_result_def
    GetColor_def GetLocation_def GetDate_def GetFont_def FillDhcp_def FillLog_def FillIP_def FillGateway_def FillSubnet_def
    GetLongIP_def GetGateway_def GetSubnet_def dotted_zero fmt_u_bits)

theorem settings_show_what_was_posted_witness:
  "tag_value (AppyConfig (TAG_Setter ''VAR_SESSION_TIMEOUT'' (fmt_u 3) sample_glob)) ''VAR_SESSION_TIMEOUT'' = fmt_u 3"
  using settings_show_what_was_posted [of v sample_glob 3] by simp

end
