(* ===== verification/File_System.thy ===== *)
theory File_System
  imports Samples
begin

text \<open>
  \<^verbatim>\<open>httpd/http_fs.c\<close> as it is built (\<^verbatim>\<open>LOCAL_FILE_SYSTEM\<close> 0, \<^verbatim>\<open>FAKE_FS\<close> 1): the table of
  32 open files over the generated web root and the seven made-up files. The web root is
  data the build generates; it enters as \<open>e_webroot\<close> of the environment. A handle is an
  index into the table. Reading outside the bytes of a file is undefined (\<open>None\<close>): in the
  program it would read the neighbouring files of the image.
\<close>

section \<open>The made-up files\<close>

text \<open>Size and date of each entry; the last one, of size 0, ends the table.\<close>

definition fakeFiles :: "(nat \<times> nat) list" where
  "fakeFiles = [
     (1 * 1024 * 1024, 1605130877 + 0 * 60),
     (2 * 1024 * 1024, 1605130877 + 1 * 60),
     (8 * 1024 * 1024, 1605130877 + 2 * 60),
     (16 * 1024 * 1024, 1605130877 + 3 * 60),
     (64 * 1024 * 1024, 1605130877 + 4 * 60),
     (128 * 1024 * 1024, 1605130877 + 5 * 60),
     (256 * 1024 * 1024, 1605130877 + 6 * 60),
     (0, 0)]"

definition fake_name :: "nat \<Rightarrow> string" where
  "fake_name sz = ''@@FakeFile'' @ pad0 3 (fmt_u (sz div 1048576)) @ ''MB.dat''"

section \<open>Operations\<close>

text \<open>The entries before the one whose date is 0, which ends the image.\<close>

definition web_entries :: "env \<Rightarrow> web_file list" where
  "web_entries e = takeWhile (\<lambda>f. f_tLastModified f \<noteq> 0) (e_webroot e)"

definition WEB_fs_init :: "env \<Rightarrow> file_handle list \<times> nat" where
  "WEB_fs_init e = (replicate MAX_FILES zero_handle, length (web_entries e))"

definition find_web :: "env \<Rightarrow> string \<Rightarrow> nat option" where
  "find_web e szFile = List.find (\<lambda>k. f_name (web_entries e ! k) = szFile) [0..<length (web_entries e)]"

text \<open>The table of fake files is scanned up to the entry of size 0.\<close>

definition find_fake :: "(string \<Rightarrow> bool) \<Rightarrow> nat option" where
  "find_fake P = List.find (\<lambda>k. P (fake_name (fst (fakeFiles ! k)))) [0..<7]"

definition free_handle :: "file_handle list \<Rightarrow> nat option" where
  "free_handle fs = List.find (\<lambda>i. pFileInfo (fs ! i) = None) [0..<length fs]"

definition take_handle :: "file_ref \<Rightarrow> file_handle list \<Rightarrow> file_handle list \<times> nat option" where
  "take_handle r fs =
     (case free_handle fs of None \<Rightarrow> (fs, None)
      | Some i \<Rightarrow> (fs[i := \<lparr>pFileInfo = Some r, lReadPos = 0\<rparr>], Some i))"

text \<open>
  A file of the image that finds no free handle leaves the first loop by \<^verbatim>\<open>break\<close> and is then
  looked up among the made-up files, as a name the image does not hold.
\<close>

definition WEB_fopen :: "env \<Rightarrow> string \<Rightarrow> string \<Rightarrow> file_handle list \<Rightarrow> file_handle list \<times> nat option" where
  "WEB_fopen e szFile mode fs =
     (let web = (case find_web e szFile of None \<Rightarrow> (fs, None) | Some k \<Rightarrow> take_handle (Web_File k) fs)
      in if snd web \<noteq> None then web
         else case find_fake (\<lambda>szFakeName. strstr szFile szFakeName \<noteq> None \<or> strchr mode CHR ''w'' \<noteq> None) of
                None \<Rightarrow> (fs, None)
              | Some k \<Rightarrow> take_handle (Fake_File k) fs)"

text \<open>The buffer that \<^verbatim>\<open>WEB_ftime\<close> is given is not written to.\<close>

definition WEB_ftime :: "env \<Rightarrow> string \<Rightarrow> nat" where
  "WEB_ftime e szFile =
     (case find_web e szFile of
        Some k \<Rightarrow> f_tLastModified (web_entries e ! k)
      | None \<Rightarrow> (case find_fake (\<lambda>szFakeName. szFile = szFakeName) of
          Some k \<Rightarrow> snd (fakeFiles ! k) | None \<Rightarrow> 0))"

definition WEB_fseek :: "nat option \<Rightarrow> int \<Rightarrow> file_handle list \<Rightarrow> file_handle list \<times> int" where
  "WEB_fseek f offset fs =
     (case f of None \<Rightarrow> (fs, offset)
      | Some i \<Rightarrow> (fs[i := (fs ! i)\<lparr>lReadPos := word_of_int offset\<rparr>], offset))"

definition WEB_fclose :: "nat option \<Rightarrow> file_handle list \<Rightarrow> file_handle list" where
  "WEB_fclose f fs = (case f of None \<Rightarrow> fs | Some i \<Rightarrow> fs[i := zero_handle])"

definition file_size :: "env \<Rightarrow> file_ref \<Rightarrow> nat" where
  "file_size e r = (case r of Web_File k \<Rightarrow> f_nSize (web_entries e ! k) | Fake_File k \<Rightarrow> fst (fakeFiles ! k))"

definition WEB_fsize :: "env \<Rightarrow> nat option \<Rightarrow> file_handle list \<Rightarrow> int" where
  "WEB_fsize e f fs =
     (case f of None \<Rightarrow> 0
      | Some i \<Rightarrow> (case pFileInfo (fs ! i) of None \<Rightarrow> 0 | Some r \<Rightarrow> s32 (int (file_size e r))))"

text \<open>The bytes a read of \<open>n\<close> at \<open>pos\<close> copies; a negative \<open>n\<close> is a huge \<^verbatim>\<open>size_t\<close>.\<close>

definition file_bytes :: "env \<Rightarrow> file_ref \<Rightarrow> nat \<Rightarrow> int \<Rightarrow> bytes option" where
  "file_bytes e r pos n =
     (if n < 0 then None
      else case r of
        Fake_File k \<Rightarrow> Some (replicate (nat n) CHR ''A'')
      | Web_File k \<Rightarrow>
          (let data = f_data (web_entries e ! k) in
           if pos + nat n \<le> length data then Some (take (nat n) (drop pos data)) else None))"

text \<open>
  \<open>Some (table, bytes, 0)\<close> is a read, \<open>Some (table, [], - 1)\<close> a handle that is not open. The
  room left is computed on 32 unsigned bits and then taken as an \<^verbatim>\<open>int\<close>.
\<close>

definition WEB_fread :: "env \<Rightarrow> nat option \<Rightarrow> int \<Rightarrow> file_handle list \<Rightarrow> (file_handle list \<times> bytes \<times> int) option" where
  "WEB_fread e f count fs =
     (case f of None \<Rightarrow> Some (fs, [], - 1)
      | Some i \<Rightarrow> (case pFileInfo (fs ! i) of None \<Rightarrow> Some (fs, [], - 1)
        | Some r \<Rightarrow>
            (let left = sint (word_of_nat (file_size e r) - lReadPos (fs ! i));
                 nCount = (if left > count then count else left)
             in do {
               bs \<leftarrow> file_bytes e r (unat (lReadPos (fs ! i))) nCount;
               Some (fs[i := (fs ! i)\<lparr>lReadPos := lReadPos (fs ! i) + word_of_int nCount\<rparr>], bs, 0) })))"

definition WEB_fwrite :: "nat option \<Rightarrow> bytes \<Rightarrow> int" where
  "WEB_fwrite f buf = int (length buf)"

text \<open>The entry a directory scan reports: name (cut to the buffer), size and date.\<close>

definition dir_entry :: "nat \<Rightarrow> int \<Rightarrow> string \<times> int \<times> nat" where
  "dir_entry k maxLen = (take (nat (maxLen - 1)) (fake_name (fst (fakeFiles ! k))), int (fst (fakeFiles ! k)), snd (fakeFiles ! k))"

definition WEB_firstdir :: "int \<Rightarrow> file_handle list \<Rightarrow> file_handle list \<times> nat option \<times> (string \<times> int \<times> nat)" where
  "WEB_firstdir maxLen fs =
     (case take_handle (Fake_File 0) fs of (fs, h) \<Rightarrow> (fs, h, dir_entry 0 maxLen))"

definition WEB_readdir :: "nat option \<Rightarrow> int \<Rightarrow> file_handle list \<Rightarrow> (file_handle list \<times> (string \<times> int \<times> nat) option) option" where
  "WEB_readdir hFind maxLen fs =
     (case hFind of None \<Rightarrow> Some (fs, None)
      | Some i \<Rightarrow>
          (let pos = lReadPos (fs ! i) + 1; k = unat pos in
           if length fakeFiles \<le> k then None
           else let fs = fs[i := \<lparr>pFileInfo = Some (Fake_File k), lReadPos = pos\<rparr>]
                in Some (fs, if fst (fakeFiles ! k) > 0 then Some (dir_entry k maxLen) else None)))"

definition WEB_closedir :: "nat option \<Rightarrow> file_handle list \<Rightarrow> file_handle list" where
  "WEB_closedir hFind fs = (case hFind of None \<Rightarrow> fs | Some i \<Rightarrow> fs[i := zero_handle])"

section \<open>The table and its handles\<close>

text \<open>Handles in use, and the file behind one.\<close>

definition in_use :: "file_handle list \<Rightarrow> nat set" where
  "in_use fs = {i. i < length fs \<and> pFileInfo (fs ! i) \<noteq> None}"

definition ref_ok :: "env \<Rightarrow> file_ref \<Rightarrow> bool" where
  "ref_ok e r = (case r of Web_File k \<Rightarrow> k < length (web_entries e) | Fake_File k \<Rightarrow> k < length fakeFiles)"

definition files_inv :: "env \<Rightarrow> file_handle list \<Rightarrow> bool" where
  "files_inv e fs \<longleftrightarrow> length fs = MAX_FILES \<and> (\<forall>h \<in> set fs. \<forall>r. pFileInfo h = Some r \<longrightarrow> ref_ok e r)"

lemma take_handle_Some:
  "take_handle r fs = (fs', Some i) \<longleftrightarrow> i < length fs \<and> pFileInfo (fs ! i) = None
     \<and> (\<forall>j < i. pFileInfo (fs ! j) \<noteq> None) \<and> fs' = fs[i := \<lparr>pFileInfo = Some r, lReadPos = 0\<rparr>]"
proof -
  have "take_handle r fs = (fs', Some i) \<longleftrightarrow> free_handle fs = Some i \<and> fs' = fs[i := \<lparr>pFileInfo = Some r, lReadPos = 0\<rparr>]"
    by (auto simp: take_handle_def split: option.splits)
  then show ?thesis unfolding free_handle_def find_index_Some by blast
qed

lemma take_handle_None:
  "take_handle r fs = (fs', None) \<longleftrightarrow> (\<forall>i < length fs. pFileInfo (fs ! i) \<noteq> None) \<and> fs' = fs"
proof -
  have "free_handle fs = None \<longleftrightarrow> (\<forall>i < length fs. pFileInfo (fs ! i) \<noteq> None)"
    unfolding free_handle_def by (rule find_index_None)
  then show ?thesis by (cases "free_handle fs") (auto simp: take_handle_def)
qed

text \<open>What opening a file does to the table, whichever of the two loops finds it.\<close>

lemma WEB_fopen_cases:
  assumes "WEB_fopen e szFile mode fs = (fs', h)"
  obtains (closed) "h = None" "fs' = fs"
  | (web) k where "find_web e szFile = Some k" "take_handle (Web_File k) fs = (fs', h)" "h \<noteq> None"
  | (fake) k where "k < 7" "take_handle (Fake_File k) fs = (fs', h)" "h \<noteq> None"
proof (cases "find_web e szFile")
  case None
  show ?thesis
  proof (cases "find_fake (\<lambda>n. strstr szFile n \<noteq> None \<or> strchr mode CHR ''w'' \<noteq> None)")
    case (Some k)
    with None assms have t: "take_handle (Fake_File k) fs = (fs', h)" by (simp add: WEB_fopen_def)
    from Some have "k < 7" unfolding find_fake_def find_index_Some by blast
    with t show ?thesis using closed fake take_handle_None by (cases h) auto
  qed (use None assms closed in \<open>simp add: WEB_fopen_def\<close>)
next
  case (Some k)
  show ?thesis
  proof (cases "snd (take_handle (Web_File k) fs)")
    case None
    show ?thesis
    proof (cases "find_fake (\<lambda>n. strstr szFile n \<noteq> None \<or> strchr mode CHR ''w'' \<noteq> None)")
      case (Some j)
      with None \<open>find_web e szFile = Some k\<close> assms have t: "take_handle (Fake_File j) fs = (fs', h)"
        by (simp add: WEB_fopen_def)
      from Some have "j < 7" unfolding find_fake_def find_index_Some by blast
      with t show ?thesis using closed fake take_handle_None by (cases h) auto
    qed (use None \<open>find_web e szFile = Some k\<close> assms closed in \<open>simp add: WEB_fopen_def\<close>)
  next
    case (Some i)
    with \<open>find_web e szFile = Some k\<close> assms have "take_handle (Web_File k) fs = (fs', h)"
      by (simp add: WEB_fopen_def)
    with Some \<open>find_web e szFile = Some k\<close> show ?thesis using web by simp
  qed
qed

section \<open>The contract of the files\<close>

text \<open>Reading a handle again and again, with the given counts, and collecting what comes.\<close>

fun reads :: "('id option \<Rightarrow> int \<Rightarrow> 'st \<Rightarrow> ('st \<times> bytes \<times> int) option) \<Rightarrow> 'id \<Rightarrow> nat list \<Rightarrow> 'st \<Rightarrow> ('st \<times> bytes) option" where
  "reads rd i [] st = Some (st, [])"
| "reads rd i (n # ns) st = do {
     (st, bs, err) \<leftarrow> rd (Some i) (int n) st;
     if err \<noteq> 0 then None else do {
       (st, rest) \<leftarrow> reads rd i ns st;
       Some (st, bs @ rest) } }"

text \<open>
  What the page reader needs of the files: opening takes an unused handle that stands at the
  start, a read yields the next bytes of the content and leaves the other handles alone.
\<close>

locale file_store =
  fixes opn :: "'name \<Rightarrow> 'st \<Rightarrow> 'st \<times> 'id option"
    and close :: "'id option \<Rightarrow> 'st \<Rightarrow> 'st"
    and rd :: "'id option \<Rightarrow> int \<Rightarrow> 'st \<Rightarrow> ('st \<times> bytes \<times> int) option"
    and inv :: "'st \<Rightarrow> bool"
    and used :: "'st \<Rightarrow> 'id set"
    and content :: "'st \<Rightarrow> 'id \<Rightarrow> bytes"
    and pos :: "'st \<Rightarrow> 'id \<Rightarrow> nat"
  assumes inv_open: "inv st \<Longrightarrow> opn nm st = (st', h) \<Longrightarrow> inv st'"
    and inv_close: "inv st \<Longrightarrow> inv (close h st)"
    and open_used: "opn nm st = (st', Some i) \<Longrightarrow> i \<notin> used st \<and> used st' = insert i (used st) \<and> pos st' i = 0"
    and open_none: "opn nm st = (st', None) \<Longrightarrow> st' = st"
    and close_used: "used (close (Some i) st) = used st - {i}"
    and read_next: "inv st \<Longrightarrow> i \<in> used st \<Longrightarrow> pos st i \<le> length (content st i) \<Longrightarrow>
      \<exists>st'. rd (Some i) (int n) st = Some (st', take n (drop (pos st i) (content st i)), 0) \<and> inv st'
        \<and> used st' = used st \<and> content st' i = content st i \<and> pos st' i = min (pos st i + n) (length (content st i))
        \<and> (\<forall>j. j \<noteq> i \<longrightarrow> content st' j = content st j \<and> pos st' j = pos st j)"
begin

lemma reads_next:
  assumes "inv st" and "i \<in> used st" and "pos st i \<le> length (content st i)"
  shows "\<exists>st'. reads rd i ns st = Some (st', take (sum_list ns) (drop (pos st i) (content st i))) \<and> inv st' \<and> used st' = used st"
  using assms
proof (induction ns arbitrary: st)
  case (Cons n ns)
  let ?c = "content st i" and ?p = "pos st i"
  from read_next [OF Cons.prems, of n] obtain st1 where st1: "rd (Some i) (int n) st = Some (st1, take n (drop ?p ?c), 0)"
    "inv st1" "used st1 = used st" "content st1 i = ?c" "pos st1 i = min (?p + n) (length ?c)" by blast
  with Cons.prems Cons.IH [of st1] obtain st2 where
    "reads rd i ns st1 = Some (st2, take (sum_list ns) (drop (min (?p + n) (length ?c)) ?c))" "inv st2" "used st2 = used st"
    by auto
  moreover have "take n (drop ?p ?c) @ take m (drop (min (?p + n) (length ?c)) ?c) = take (n + m) (drop ?p ?c)" for m
    by (cases "?p + n \<le> length ?c") (simp_all add: take_add add.commute [of ?p n])
  ultimately show ?case using st1 by simp
qed simp

lemma open_read_all:
  assumes "inv st" and "opn nm st = (st', Some i)" and "length (content st' i) \<le> sum_list ns"
  shows "\<exists>st''. reads rd i ns st' = Some (st'', content st' i) \<and> inv st'' \<and> used st'' = insert i (used st)"
  using reads_next [OF inv_open [OF assms(1,2)], of i ns] open_used [OF assms(2)] assms(3) by auto

lemma open_close: "opn nm st = (st', Some i) \<Longrightarrow> used (close (Some i) st') = used st"
  using open_used close_used by fastforce

end

text \<open>The generator writes into each header the size of the data behind it.\<close>

definition webroot_wf :: "env \<Rightarrow> bool" where
  "webroot_wf e \<longleftrightarrow> (\<forall>f \<in> set (web_entries e). f_nSize f = length (f_data f) \<and> f_nSize f < 2 ^ 31)"

definition file_content :: "env \<Rightarrow> file_ref \<Rightarrow> bytes" where
  "file_content e r = (case r of Web_File k \<Rightarrow> f_data (web_entries e ! k) | Fake_File k \<Rightarrow> replicate (fst (fakeFiles ! k)) CHR ''A'')"

definition handle_content :: "env \<Rightarrow> file_handle list \<Rightarrow> nat \<Rightarrow> bytes" where
  "handle_content e fs i = (if i < length fs then
     (case pFileInfo (fs ! i) of None \<Rightarrow> [] | Some r \<Rightarrow> file_content e r) else [])"

definition handle_pos :: "file_handle list \<Rightarrow> nat \<Rightarrow> nat" where
  "handle_pos fs i = (if i < length fs then unat (lReadPos (fs ! i)) else 0)"

lemma fake_size_less: "k < length fakeFiles \<Longrightarrow> fst (fakeFiles ! k) < 2 ^ 31"
  by (auto simp: fakeFiles_def less_Suc_eq)

lemma length_file_content:
  assumes "webroot_wf e" and "ref_ok e r"
  shows "length (file_content e r) = file_size e r \<and> file_size e r < 2 ^ 31"
proof (cases r)
  case (Web_File k)
  then have "web_entries e ! k \<in> set (web_entries e)" using assms(2) by (simp add: ref_ok_def)
  with assms(1) Web_File show ?thesis unfolding webroot_wf_def by (auto simp: file_content_def file_size_def)
qed (use assms fake_size_less in \<open>auto simp: file_content_def file_size_def ref_ok_def\<close>)

lemma files_inv_update:
  assumes "files_inv e fs" and "\<forall>r. pFileInfo h = Some r \<longrightarrow> ref_ok e r"
  shows "files_inv e (fs[i := h])"
  using assms set_update_subset_insert [of fs i h] by (auto simp: files_inv_def)

lemma find_web_Some: "find_web e s = Some k \<longleftrightarrow> k < length (web_entries e) \<and> f_name (web_entries e ! k) = s
    \<and> (\<forall>j < k. f_name (web_entries e ! j) \<noteq> s)"
  unfolding find_web_def find_index_Some by blast

lemma files_inv_take: "files_inv e fs \<Longrightarrow> take_handle r fs = (fs', h) \<Longrightarrow> ref_ok e r \<Longrightarrow> files_inv e fs'"
  by (cases h) (auto simp: take_handle_None take_handle_Some intro: files_inv_update)

lemma files_inv_open:
  assumes "files_inv e fs" and "WEB_fopen e s m fs = (fs', h)"
  shows "files_inv e fs'"
  using assms(2)
proof (cases rule: WEB_fopen_cases)
  case (web k)
  then show ?thesis using files_inv_take [OF assms(1), of "Web_File k"] by (auto simp: ref_ok_def find_web_Some)
next
  case (fake k)
  then show ?thesis using files_inv_take [OF assms(1), of "Fake_File k"] by (auto simp: ref_ok_def fakeFiles_def)
qed (use assms in simp)

lemma files_inv_close: "files_inv e fs \<Longrightarrow> files_inv e (WEB_fclose h fs)"
  by (auto simp: WEB_fclose_def zero_handle_def intro: files_inv_update split: option.splits)

lemma in_use_take: "take_handle r fs = (fs', Some i) \<Longrightarrow> i \<notin> in_use fs \<and> in_use fs' = insert i (in_use fs) \<and> handle_pos fs' i = 0"
  by (auto simp: take_handle_Some in_use_def handle_pos_def nth_list_update split: if_splits)

lemma in_use_close: "in_use (WEB_fclose (Some i) fs) = in_use fs - {i}"
proof -
  have "x \<in> in_use (WEB_fclose (Some i) fs) \<longleftrightarrow> x \<in> in_use fs - {i}" for x
    by (cases "x = i") (auto simp: in_use_def WEB_fclose_def zero_handle_def)
  then show ?thesis by blast
qed

lemma file_bytes_content:
  assumes "webroot_wf e" and "ref_ok e r" and "p + n \<le> file_size e r"
  shows "file_bytes e r p (int n) = Some (take n (drop p (file_content e r)))"
  using assms by (cases r) (auto simp: file_bytes_def file_content_def file_size_def ref_ok_def webroot_wf_def)

lemma WEB_fread_next:
  assumes wf: "webroot_wf e" and inv: "files_inv e fs" and i: "i < length fs" and r: "pFileInfo (fs ! i) = Some r"
    and p: "unat (lReadPos (fs ! i)) \<le> file_size e r"
  defines "p \<equiv> unat (lReadPos (fs ! i))"
  shows "\<exists>h. WEB_fread e (Some i) (int n) fs = Some (fs[i := h], take n (drop p (file_content e r)), 0)
    \<and> pFileInfo h = Some r \<and> unat (lReadPos h) = min (p + n) (file_size e r)"
proof -
  from inv i r have ok: "ref_ok e r" by (auto simp: files_inv_def)
  from length_file_content [OF wf ok] have sz: "length (file_content e r) = file_size e r" "file_size e r < 2 ^ 31" by auto
  have "lReadPos (fs ! i) = word_of_nat p" by (simp add: p_def)
  then have "word_of_nat (file_size e r) - lReadPos (fs ! i) = word_of_nat (file_size e r - p)"
    using assms(5) by (simp add: p_def of_nat_diff)
  then have "sint (word_of_nat (file_size e r) - lReadPos (fs ! i)) = int (file_size e r - p)"
    using sz(2) by (simp add: signed_of_nat signed_take_bit_int_eq_self)
  moreover define m where "m = min n (file_size e r - p)"
  ultimately have m: "(if sint (word_of_nat (file_size e r) - lReadPos (fs ! i)) > int n then int n
      else sint (word_of_nat (file_size e r) - lReadPos (fs ! i))) = int m" by (simp add: min_def)
  have "p + m \<le> file_size e r" using assms(5) by (simp add: p_def m_def)
  from file_bytes_content [OF wf ok this]
  have b: "file_bytes e r p (int m) = Some (take n (drop p (file_content e r)))"
    using sz(1) by (simp add: m_def min_def)
  let ?h = "(fs ! i)\<lparr>lReadPos := lReadPos (fs ! i) + word_of_int (int m)\<rparr>"
  have "WEB_fread e (Some i) (int n) fs = Some (fs[i := ?h], take n (drop p (file_content e r)), 0)"
    using r b unfolding p_def by (simp add: WEB_fread_def Let_def m [unfolded p_def])
  moreover have "unat (lReadPos ?h) = p + m"
    using \<open>p + m \<le> file_size e r\<close> sz(2) \<open>lReadPos (fs ! i) = word_of_nat p\<close>
    by (simp add: unsigned_of_nat take_bit_nat_eq_self flip: of_nat_add)
  moreover have "p + m = min (p + n) (file_size e r)" using assms(5) by (auto simp: p_def m_def min_def)
  ultimately show ?thesis using r by (intro exI [of _ ?h]) simp
qed

interpretation web: file_store "\<lambda>n. WEB_fopen e n mode" WEB_fclose "WEB_fread e"
  "\<lambda>fs. webroot_wf e \<and> files_inv e fs" in_use "handle_content e" handle_pos for e mode
proof
  show "webroot_wf e \<and> files_inv e st \<Longrightarrow> WEB_fopen e n mode st = (st', h) \<Longrightarrow> webroot_wf e \<and> files_inv e st'" for st n st' h
    using files_inv_open by blast
  show "webroot_wf e \<and> files_inv e st \<Longrightarrow> webroot_wf e \<and> files_inv e (WEB_fclose h st)" for st h
    using files_inv_close by blast
  show "i \<notin> in_use st \<and> in_use st' = insert i (in_use st) \<and> handle_pos st' i = 0" if "WEB_fopen e n mode st = (st', Some i)" for n st st' i
    using that by (cases rule: WEB_fopen_cases) (auto dest: in_use_take)
  show "st' = st" if "WEB_fopen e n mode st = (st', None)" for n st st'
    using that by (cases rule: WEB_fopen_cases) auto
  show "in_use (WEB_fclose (Some i) st) = in_use st - {i}" for i st
    by (rule in_use_close)
next
  fix st :: "file_handle list" and i n
  assume inv: "webroot_wf e \<and> files_inv e st" and u: "i \<in> in_use st" and p: "handle_pos st i \<le> length (handle_content e st i)"
  from u obtain r where i: "i < length st" and r: "pFileInfo (st ! i) = Some r" by (auto simp: in_use_def)
  from inv i r have ok: "ref_ok e r" by (auto simp: files_inv_def)
  have len: "length (file_content e r) = file_size e r" using length_file_content [OF _ ok] inv by blast
  from p i r len have "unat (lReadPos (st ! i)) \<le> file_size e r" by (simp add: handle_pos_def handle_content_def)
  from WEB_fread_next [OF _ _ i r this, of n] inv obtain h where h:
    "WEB_fread e (Some i) (int n) st = Some (st[i := h], take n (drop (unat (lReadPos (st ! i))) (file_content e r)), 0)"
    "pFileInfo h = Some r" "unat (lReadPos h) = min (unat (lReadPos (st ! i)) + n) (file_size e r)" by blast
  have "in_use (st[i := h]) = in_use st"
    using h(2) u by (auto simp: in_use_def nth_list_update split: if_splits)
  moreover have "files_inv e (st[i := h])" using inv h(2) ok by (auto intro: files_inv_update)
  ultimately show "\<exists>st'. WEB_fread e (Some i) (int n) st = Some (st', take n (drop (handle_pos st i) (handle_content e st i)), 0)
        \<and> (webroot_wf e \<and> files_inv e st')
        \<and> in_use st' = in_use st \<and> handle_content e st' i = handle_content e st i
        \<and> handle_pos st' i = min (handle_pos st i + n) (length (handle_content e st i))
        \<and> (\<forall>j. j \<noteq> i \<longrightarrow> handle_content e st' j = handle_content e st j \<and> handle_pos st' j = handle_pos st j)"
    using h inv i r len by (intro exI [of _ "st[i := h]"]) (simp add: handle_pos_def handle_content_def)
qed

section \<open>Tables of handles the server can reach\<close>

text \<open>
  The operations in any order. A handle that is read, closed or moved is a slot of the table;
  a seek goes to a position inside the file, and a directory scan is continued on a handle
  that a scan opened.
\<close>

inductive files_reach :: "env \<Rightarrow> file_handle list \<Rightarrow> bool" for e where
  reach_init: "WEB_fs_init e = (fs, n) \<Longrightarrow> files_reach e fs"
| reach_open: "files_reach e fs \<Longrightarrow> WEB_fopen e name mode fs = (fs', h) \<Longrightarrow> files_reach e fs'"
| reach_read: "files_reach e fs \<Longrightarrow> WEB_fread e h n fs = Some (fs', bs, err) \<Longrightarrow> files_reach e fs'"
| reach_seek: "files_reach e fs \<Longrightarrow> i < length fs \<Longrightarrow> files_reach e (fst (WEB_fseek (Some i) off fs))"
| reach_close: "files_reach e fs \<Longrightarrow> files_reach e (WEB_fclose h fs)"
| reach_first: "files_reach e fs \<Longrightarrow> WEB_firstdir m fs = (fs', h, en) \<Longrightarrow> files_reach e fs'"
| reach_next: "files_reach e fs \<Longrightarrow> WEB_readdir h m fs = Some (fs', en') \<Longrightarrow> files_reach e fs'"
| reach_closedir: "files_reach e fs \<Longrightarrow> files_reach e (WEB_closedir h fs)"

lemma files_inv_same_ref:
  assumes "files_inv e fs" and "pFileInfo h = pFileInfo (fs ! i)"
  shows "files_inv e (fs[i := h])"
proof (cases "i < length fs")
  case True
  then have "fs ! i \<in> set fs" by simp
  with assms have "\<forall>r. pFileInfo h = Some r \<longrightarrow> ref_ok e r" by (simp add: files_inv_def)
  then show ?thesis by (rule files_inv_update [OF assms(1)])
next
  case False
  then have "fs[i := h] = fs" by (simp add: list_update_beyond)
  with assms(1) show ?thesis by simp
qed

lemma files_reach_inv: "files_reach e fs \<Longrightarrow> files_inv e fs"
proof (induction rule: files_reach.induct)
  case (reach_init fs n)
  then show ?case by (auto simp: WEB_fs_init_def files_inv_def zero_handle_def)
next
  case (reach_open fs name mode fs' h)
  then show ?case using files_inv_open by blast
next
  case (reach_read fs h n fs' bs err)
  then show ?case
    by (auto simp: WEB_fread_def Let_def bind_eq_Some_conv intro!: files_inv_same_ref split: option.splits)
next
  case (reach_seek fs i off)
  then show ?case by (auto simp: WEB_fseek_def intro!: files_inv_same_ref)
next
  case (reach_close fs h)
  then show ?case by (simp add: files_inv_close)
next
  case (reach_first fs m fs' h en)
  then have "take_handle (Fake_File 0) fs = (fs', h)" by (auto simp: WEB_firstdir_def split: prod.splits)
  from files_inv_take [OF reach_first.IH this] show ?case by (simp add: ref_ok_def fakeFiles_def)
next
  case (reach_next fs h m fs' en')
  then show ?case
    by (auto simp: WEB_readdir_def Let_def ref_ok_def not_le intro!: files_inv_update split: option.splits if_splits)
next
  case (reach_closedir fs h)
  then show ?case by (auto simp: WEB_closedir_def zero_handle_def intro: files_inv_update split: option.splits)
qed

lemma find_web_content:
  assumes "find_web e name = Some k" and "WEB_fopen e name mode fs = (fs', Some i)"
  shows "handle_content e fs' i = f_data (web_entries e ! k)"
proof -
  obtain ft h where t: "take_handle (Web_File k) fs = (ft, h)" by (cases "take_handle (Web_File k) fs")
  show ?thesis
  proof (cases h)
    case None
    with t have "\<forall>i < length fs. pFileInfo (fs ! i) \<noteq> None" by (simp add: take_handle_None)
    then have "take_handle r fs = (fs, None)" for r by (simp add: take_handle_None)
    with assms t None show ?thesis by (auto simp: WEB_fopen_def split: option.splits)
  next
    case (Some j)
    with assms t have "take_handle (Web_File k) fs = (fs', Some i)" by (simp add: WEB_fopen_def)
    then show ?thesis by (auto simp: take_handle_Some handle_content_def file_content_def)
  qed
qed

section \<open>Properties\<close>



text \<open>
  A file of the web root is served whole. Opening its name gives a handle whose content is
  the file's data; reading it in blocks of any sizes yields, block after block, exactly these
  bytes; the other handles keep their content; closing the handle leaves the handles in use
  that were in use before.
\<close>

theorem web_file_read_whole:
  assumes "webroot_wf e" and "files_inv e fs" and "find_web e name = Some k"
    and "WEB_fopen e name mode fs = (fs', Some i)" and "f_nSize (web_entries e ! k) \<le> sum_list ns"
  shows "\<exists>fs''. reads (WEB_fread e) i ns fs' = Some (fs'', f_data (web_entries e ! k))
    \<and> files_inv e fs'' \<and> in_use fs'' = insert i (in_use fs) \<and> i \<notin> in_use fs \<and> in_use (WEB_fclose (Some i) fs'') = in_use fs"
proof -
  have c: "handle_content e fs' i = f_data (web_entries e ! k)" by (rule find_web_content [OF assms(3,4)])
  have "web_entries e ! k \<in> set (web_entries e)" using assms(3) by (simp add: find_web_Some)
  then have "length (handle_content e fs' i) \<le> sum_list ns" using assms(1,5) c by (simp add: webroot_wf_def)
  from web.open_read_all [OF _ assms(4) this] assms(1,2) c obtain fs'' where
    r: "reads (WEB_fread e) i ns fs' = Some (fs'', f_data (web_entries e ! k))" "files_inv e fs''" "in_use fs'' = insert i (in_use fs)"
    by auto
  have "i \<notin> in_use fs" using web.open_used [OF assms(4)] by simp
  then show ?thesis using r by (simp add: in_use_close)
qed

lemma sample_entries: "web_entries sample_env = e_webroot sample_env"
  by (simp add: web_entries_def sample_env_def)

lemma sample_find: "find_web sample_env ''/app/index.shtml'' = Some 0"
  unfolding find_web_def sample_entries by (simp add: sample_env_def)

lemma sample_open: "WEB_fopen sample_env ''/app/index.shtml'' mode (replicate 32 zero_handle)
    = ((replicate 32 zero_handle)[0 := \<lparr>pFileInfo = Some (Web_File 0), lReadPos = 0\<rparr>], Some 0)"
  by (simp add: WEB_fopen_def sample_find take_handle_def free_handle_def upt_rec zero_handle_def)

lemma sample_files: "webroot_wf sample_env" "files_inv sample_env (replicate 32 zero_handle)"
  by (auto simp: webroot_wf_def sample_entries files_inv_def zero_handle_def) (simp_all add: sample_env_def)

theorem web_file_read_whole_witness:
  "\<exists>fs''. reads (WEB_fread sample_env) 0 [2, 2, 2] ((replicate 32 zero_handle)[0 := \<lparr>pFileInfo = Some (Web_File 0), lReadPos = 0\<rparr>])
     = Some (fs'', ''Hello'')"
proof -
  have "f_nSize (web_entries sample_env ! 0) = 5" "f_data (web_entries sample_env ! 0) = ''Hello''"
    by (simp_all only: sample_entries) (simp_all add: sample_env_def)
  then show ?thesis using web_file_read_whole [OF sample_files sample_find sample_open, of "[2, 2, 2]"] by auto
qed

end
