(* ===== verification/Web.thy ===== *)
theory Web
  imports Ssi File_System
begin

text \<open>
  \<^verbatim>\<open>httpd/http_web.c\<close>: the work that the page handlers share. Form data is collected in the
  send buffer and parsed there; a page is opened, its headers are appended to the send
  buffer, and its content is read block by block, tags of \<^verbatim>\<open>.shtml\<close> pages replaced on the way.

  A content reader returns the bytes it wrote from its buffer on and its result; the caller
  puts them into the send buffer and so decides whether they fit. \<^verbatim>\<open>memcpy\<close> between
  overlapping ranges of one array moves down, as \<^verbatim>\<open>memmove\<close> does.
\<close>

section \<open>Posted forms\<close>

definition WEB_OnFormHeaders :: "REQUEST_CONTEXT \<Rightarrow> REQUEST_CONTEXT" where
  "WEB_OnFormHeaders q = upd_resp (\<lambda>r. r\<lparr>p_sendBuffer := zeros MAX_SEND_BUF_SIZE, p_bytesLeft := 0\<rparr>) q"

text \<open>Decoding the C string at an offset of a larger array, in place.\<close>

definition URLDecode_at :: "bytes \<Rightarrow> nat \<Rightarrow> bytes option" where
  "URLDecode_at a p = do {
     _ \<leftarrow> cstr_at a (int p);
     (u, n) \<leftarrow> URLDecode (drop p a);
     Some (take p a @ u) }"

text \<open>
  The loop of \<^verbatim>\<open>ExtractFormData\<close>: \<open>p\<close> and \<open>ne\<close> are offsets into the buffer; the result
  holds the buffer and both pointers as the loop leaves them.
\<close>

function extract_loop :: "bytes \<Rightarrow> nat \<Rightarrow> nat option \<Rightarrow> int \<Rightarrow> glob \<Rightarrow> (bytes \<times> nat \<times> nat option \<times> glob) option" where
  "extract_loop a p ne nSize g =
     (if length a \<le> p then None
      else if a ! p = NUL \<or> nSize \<le> int p then Some (a, p, ne, g)
      else case cstr_at a (int p) of None \<Rightarrow> None
      | Some s \<Rightarrow>
          (case (strchr s CHR ''&'', strchr s CHR ''='') of
             (Some ve, Some n) \<Rightarrow>
               (let a = (a[p + n := NUL])[p + ve := NUL] in
                case URLDecode_at a p of None \<Rightarrow> None
                | Some a \<Rightarrow>
                    (case URLDecode_at a (p + n + 1) of None \<Rightarrow> None
                     | Some a \<Rightarrow>
                         (case (cstr_at a (int p), cstr_at a (int (p + n + 1))) of
                            (Some nm, Some vl) \<Rightarrow>
                              extract_loop a (p + ve + 1) (Some (p + n)) nSize (TAG_Setter nm vl g)
                          | _ \<Rightarrow> None)))
           | (_, n) \<Rightarrow> Some (a, p, map_option (\<lambda>k. p + k) n, g)))"
  by pat_completeness auto
termination
  by (relation "measure (\<lambda>(a, p, ne, nSize, g). nat (nSize - int p))") auto

declare extract_loop.simps [simp del]

definition ExtractFormData :: "bytes \<Rightarrow> int \<Rightarrow> int \<Rightarrow> glob \<Rightarrow> (bytes \<times> glob \<times> int) option" where
  "ExtractFormData buffer nSize nTotalRemain g = do {
     (a, p, ne, g) \<leftarrow> extract_loop buffer 0 None nSize g;
     if nTotalRemain > 0 then Some (a, g, int p)
     else case ne of None \<Rightarrow> Some (a, g, nSize)
     | Some n \<Rightarrow> do {
         a \<leftarrow> poke a (int n) NUL;
         a \<leftarrow> URLDecode_at a p;
         a \<leftarrow> URLDecode_at a (n + 1);
         nm \<leftarrow> cstr_at a (int p);
         vl \<leftarrow> cstr_at a (int n + 1);
         Some (a, TAG_Setter nm vl g, nSize) } }"

text \<open>\<^verbatim>\<open>IsKilling\<close> of \<^verbatim>\<open>http_core.c\<close>: read the flag and clear it.\<close>

definition IsKilling :: "REQUEST_CONTEXT \<Rightarrow> int \<Rightarrow> REQUEST_CONTEXT \<times> int" where
  "IsKilling q reset = (if reset > 0 then q\<lparr>q_killing := 0\<rparr> else q, q_killing q)"

text \<open>
  A block of form data: appended to what the send buffer holds, parsed there, and what was
  parsed shifted out. What is left over is counted by \<open>_bytesLeft\<close>.
\<close>

definition form_take :: "bytes \<Rightarrow> int \<Rightarrow> REQUEST_CONTEXT \<Rightarrow> glob \<Rightarrow> (REQUEST_CONTEXT \<times> glob) option" where
  "form_take blk nRemain q g = do {
     sb \<leftarrow> blit (p_sendBuffer (ctxResponse q)) (p_bytesLeft (ctxResponse q)) blk;
     let left = p_bytesLeft (ctxResponse q) + int (length blk);
     (sb, g, nParsed) \<leftarrow> ExtractFormData sb left nRemain g;
     let left' = (if nParsed > 0 then left - nParsed else left);
     sb \<leftarrow> (if nParsed > 0 \<and> left' > 0 then memmove sb 0 nParsed left' else Some sb);
     Some (upd_resp (\<lambda>r. r\<lparr>p_sendBuffer := sb, p_bytesLeft := left'\<rparr>) (q\<lparr>q_tLastReceived := tick_stamp (g_now g)\<rparr>), g) }"

definition WEB_OnFormReceived :: "bytes \<Rightarrow> int \<Rightarrow> REQUEST_CONTEXT \<Rightarrow> glob \<Rightarrow> (REQUEST_CONTEXT \<times> glob \<times> int) option" where
  "WEB_OnFormReceived buffer size' q g =
     (let consumed = min (q_contentLength q - q_contentReceived q) size' in
      if consumed > 0 \<and> q_requestMethod q = METHOD_POST then
        (case IsKilling q 1 of (q, killing) \<Rightarrow>
         if killing \<noteq> 0 then Some (q\<lparr>q_result := - 500\<rparr>, g, 0)
         else
           (let nFree = int MAX_SEND_BUF_SIZE - p_bytesLeft (ctxResponse q) - 32;
                consumed = min consumed nFree
            in if consumed > 0 then
                 (if int (length buffer) < consumed then None
                  else do {
                    (q, g) \<leftarrow> form_take (take (nat consumed) buffer) (q_contentLength q - q_contentReceived q - consumed) q g;
                    Some (q, g, consumed) })
               else Some (q, g, consumed)))
      else Some (q, g, consumed))"

section \<open>Opening a page\<close>

definition ssi_extension :: "string \<Rightarrow> bool" where
  "ssi_extension ext \<longleftrightarrow> Strnicmp ext ''shtml'' 5 = 0 \<or> Strnicmp ext ''shtm'' 4 = 0 \<or> Strnicmp ext ''ssi'' 3 = 0"

text \<open>
  The test of the gzip magic on the three bytes read; a byte that is looked at but was not
  read is indeterminate.
\<close>

definition gzip_magic :: "bytes \<Rightarrow> bool option" where
  "gzip_magic flag =
     (case flag of [] \<Rightarrow> None
      | a # r1 \<Rightarrow> if ord a \<noteq> 0x1F then Some False
          else (case r1 of [] \<Rightarrow> None
            | b # r2 \<Rightarrow> if ord b \<noteq> 0x8B then Some False
                else (case r2 of [] \<Rightarrow> None | c # _ \<Rightarrow> Some (ord c = 0x08))))"

definition set_ssi :: "SSI_Context \<Rightarrow> REQUEST_CONTEXT \<Rightarrow> REQUEST_CONTEXT" where
  "set_ssi ctx = upd_resp (\<lambda>r. r\<lparr>p_appContext := App_SSI ctx\<rparr>)"

definition set_files :: "file_handle list \<Rightarrow> glob \<Rightarrow> glob" where
  "set_files fs g = g\<lparr>g_FileOpened := fs\<rparr>"

text \<open>The default page when the path is a single slash: path and extension are replaced.\<close>

definition default_path :: "REQUEST_CONTEXT \<Rightarrow> REQUEST_CONTEXT option" where
  "default_path q =
     (if q_responsePath q = ''/'' then do {
        ext \<leftarrow> strcpy_at (q_extension q) 0 ''html'';
        Some (q\<lparr>q_responsePath := WEB_DEFAULT_PAGE, q_extension := ext\<rparr>) }
      else Some q)"

definition WEB_RequestReceived :: "env \<Rightarrow> REQUEST_CONTEXT \<Rightarrow> glob \<Rightarrow> (REQUEST_CONTEXT \<times> glob) option" where
  "WEB_RequestReceived e q g = do {
     q \<leftarrow> default_path q;
     let ssi = ssi_extension (cstr (q_extension q));
     let ctx = zero_ssi\<lparr>ssi_valid := 1, ssi_ssi := (if ssi then 1 else 0)\<rparr>;
     let q = (if ssi \<and> q_handler q \<noteq> None then q\<lparr>q_options := q_options q OR CGI_OPT_CHUNK_ENABLED\<rparr> else q);
     let (fs, fp) = WEB_fopen e (q_responsePath q) ''rb'' (g_FileOpened g);
     let ctx = ctx\<lparr>ssi_fp := fp\<rparr>;
     (case fp of
        None \<Rightarrow> Some (set_ssi (ctx\<lparr>ssi_valid := 0\<rparr>) (q\<lparr>q_result := - 404\<rparr>), set_files fs g)
      | Some _ \<Rightarrow> do {
          (fs, flag, err) \<leftarrow> WEB_fread e fp 3 fs;
          (q, fs) \<leftarrow>
            (if err = 0 then do {
               gz \<leftarrow> gzip_magic flag;
               let fs = fst (WEB_fseek fp 0 fs);
               Some (if gz then q\<lparr>q_options := q_options q OR CGI_OPT_GZIP\<rparr> else q, fs) }
             else Some (q, fs));
          let tFile = int (WEB_ftime e (q_responsePath q));
          if \<not> ssi \<and> tFile \<noteq> 0 \<and> q_ifModified q \<noteq> 0 \<and> tFile \<le> q_ifModified q
          then Some (set_ssi (ctx\<lparr>ssi_lastModified := ''Last-Modified: ''\<rparr>) (q\<lparr>q_result := - 304\<rparr>), set_files fs g)
          else
            (let ctx = (if ssi \<or> tFile = 0 then ctx else ctx\<lparr>ssi_lastModified := ''Last-Modified: '' @ CRLF\<rparr>);
                 q = q\<lparr>q_fileHandle := fp\<rparr>
             in Some (upd_resp (\<lambda>r. r\<lparr>p_dwTotal := WEB_fsize e fp fs\<rparr>) (set_ssi ctx q), set_files fs g)) }) }"

section \<open>Headers\<close>

definition header_nocache :: string where
  "header_nocache = ''Cache-Control: no-cache, no-store, must-revalidate'' @ CRLF @ ''Pragma: no-cache'' @ CRLF @ ''Expires: 0'' @ CRLF"

definition header_gzip :: string where
  "header_gzip = ''Content-Encoding: gzip'' @ CRLF"

text \<open>The three format strings, applied to their arguments.\<close>

definition header_generic :: "string \<Rightarrow> string \<Rightarrow> int \<Rightarrow> string \<Rightarrow> string" where
  "header_generic code ctype len conn =
     ''HTTP/1.1 '' @ code @ CRLF @ ''Content-Type: '' @ ctype @ CRLF @ ''Content-Length: '' @ fmt_d len @ CRLF
       @ ''Connection: '' @ conn @ CRLF"

definition header_chunked :: "string \<Rightarrow> string \<Rightarrow> string \<Rightarrow> string \<Rightarrow> string" where
  "header_chunked code ctype extra conn =
     ''HTTP/1.1 '' @ code @ CRLF @ ''Content-Type: '' @ ctype @ CRLF @ ''Transfer-Encoding: chunked'' @ CRLF
       @ extra @ ''Connection: '' @ conn @ CRLF"

definition header_range :: "int \<Rightarrow> int \<Rightarrow> int \<Rightarrow> string \<Rightarrow> int \<Rightarrow> string \<Rightarrow> string" where
  "header_range from to whole ctype len conn =
     ''HTTP/1.1 206 Partial Content'' @ CRLF @ ''Content-Range: bytes '' @ fmt_d from @ ''-'' @ fmt_d to @ ''/'' @ fmt_d whole @ CRLF
       @ ''Content-type: '' @ ctype @ CRLF @ ''Content-Length: '' @ fmt_d len @ CRLF @ ''Connection: '' @ conn @ CRLF"

text \<open>
  The first part is written only into an empty send buffer. \<^verbatim>\<open>_dwTotal\<close> and \<^verbatim>\<open>_rangeTo\<close> are
  set whether or not it is.
\<close>

definition WEB_AppendHeaders :: "env \<Rightarrow> string \<Rightarrow> REQUEST_CONTEXT \<Rightarrow> glob \<Rightarrow> (REQUEST_CONTEXT \<times> glob) option" where
  "WEB_AppendHeaders e HttpCodeInfo q g = do {
     ctx \<leftarrow> as_ssi (p_appContext (ctxResponse q));
     ctype \<leftarrow> GetContentType (cstr (q_extension q));
     let sb = p_sendBuffer (ctxResponse q);
     let fresh = (cstr sb = []);
     let whole = p_dwTotal (ctxResponse q);
     let chunkHeader = (ssi_ssi ctx > 0 \<or> (q_handler q \<noteq> None \<and> q_options q AND CGI_OPT_CHUNK_ENABLED \<noteq> 0));
     (q, g, sb) \<leftarrow>
       (if q_rangeTo q > q_rangeFrom q then
          (let to = min (q_rangeTo q) whole; sz = to - q_rangeFrom q in do {
             sb \<leftarrow> (if fresh then strcpy_at sb 0 (header_range (q_rangeFrom q) (to - 1) whole ctype sz (CONNECTION_HEADER e)) else Some sb);
             Some (upd_resp (\<lambda>r. r\<lparr>p_dwTotal := sz\<rparr>) (q\<lparr>q_rangeTo := to\<rparr>),
                   set_files (fst (WEB_fseek (q_fileHandle q) (q_rangeFrom q) (g_FileOpened g))) g, sb) })
        else if chunkHeader then do {
          sb \<leftarrow> (if fresh then strcpy_at sb 0 (header_chunked HttpCodeInfo ctype [] (CONNECTION_HEADER e)) else Some sb);
          Some (q, g, sb) }
        else do {
          sb \<leftarrow> (if fresh then strcpy_at sb 0 (header_generic HttpCodeInfo ctype whole (CONNECTION_HEADER e)) else Some sb);
          Some (q, g, sb) });
     sb \<leftarrow> (if q_options q AND CGI_OPT_GZIP \<noteq> 0 then strcat sb header_gzip else Some sb);
     sb \<leftarrow> strcat sb (if ssi_lastModified ctx \<noteq> [] then ssi_lastModified ctx else header_nocache);
     sb \<leftarrow> (if ssi_ssi ctx = 0 \<and> strstr (cstr sb) ''no-cache'' = None
            then strcat sb (''Cache-Control: max-age=3600'' @ CRLF) else Some sb);
     Some (upd_resp (\<lambda>r. r\<lparr>p_sendBuffer := sb\<rparr>) q, g) }"

section \<open>Reading content\<close>

definition tagStart :: string where "tagStart = ''<!--#''"
definition tagEnd :: string where "tagEnd = ''-->''"

text \<open>
  One pass over the cache: the context, the bytes written so far, the bytes consumed and the
  flag \<open>ready2Send\<close>. Each turn of the loop consumes a character, or leaves the loop.
\<close>

definition ssi_append_name :: "char \<Rightarrow> SSI_Context \<Rightarrow> SSI_Context option" where
  "ssi_append_name c ctx = do {
     tn \<leftarrow> poke (ssi_tagName ctx) (ssi_tagLength ctx) c;
     tn \<leftarrow> poke tn (ssi_tagLength ctx + 1) NUL;
     Some (ctx\<lparr>ssi_tagName := tn, ssi_tagLength := ssi_tagLength ctx + 1\<rparr>) }"

text \<open>One turn; the last component says whether the loop goes on.\<close>

definition ssi_turn :: "glob \<Rightarrow> int \<Rightarrow> SSI_Context \<times> bytes \<times> nat \<Rightarrow> (SSI_Context \<times> bytes \<times> nat \<times> bool \<times> bool) option" where
  "ssi_turn g maxSize = (\<lambda>(ctx, out, consumed).
     let ctx = (if ssi_ssiState ctx = 0 then ctx\<lparr>ssi_ssiState := 1\<rparr> else ctx);
         c = ssi_cache ctx ! consumed;
         at = (\<lambda>tag. Strnicmp (cstr (drop consumed (ssi_cache ctx))) tag (length tag) = 0);
         copy = (let out = out @ [c]; full = int (length out) \<ge> maxSize in Some (ctx, out, consumed + 1, full, \<not> full))
     in if length (ssi_cache ctx) \<le> consumed then None
        else if ssi_ssiState ctx = 1 then
          (if c \<noteq> hd tagStart then copy
           else if int consumed \<le> ssi_cacheOffset ctx - int (length tagStart) then
             (if at tagStart then Some (ctx\<lparr>ssi_ssiState := 2\<rparr>, out, consumed + 5, True, False) else copy)
           else Some (ctx, out, consumed, False, False))
        else if ssi_ssiState ctx = 2 then
          (if c \<noteq> hd tagEnd then do { ctx \<leftarrow> ssi_append_name c ctx; Some (ctx, out, consumed + 1, False, True) }
           else if int consumed \<le> ssi_cacheOffset ctx - int (length tagEnd) then
             (if at tagEnd then do {
                nm \<leftarrow> cstr_at (ssi_tagName ctx) 0;
                v \<leftarrow> ReplaceTag g nm (maxSize - int (length out) - 50);
                Some (ctx\<lparr>ssi_ssiState := 0, ssi_tagLength := 0, ssi_tagName := zeros 64\<rparr>, out @ v, consumed + 3, False, True) }
              else do { ctx \<leftarrow> ssi_append_name c ctx; Some (ctx, out, consumed + 1, False, True) })
           else Some (ctx, out, consumed, False, False))
        else None)"

text \<open>The states other than 0, 1 and 2 would spin in the loop; the code never sets them.\<close>

lemma ssi_turn_more:
  assumes "ssi_turn g m (ctx, out, k) = Some (ctx', out', k', r, True)"
  shows "k < k' \<and> ssi_cacheOffset ctx' = ssi_cacheOffset ctx"
  using assms
  by (auto simp: ssi_turn_def ssi_append_name_def Let_def bind_eq_Some_conv split: if_splits)

function ssi_pass :: "glob \<Rightarrow> int \<Rightarrow> SSI_Context \<times> bytes \<times> nat \<Rightarrow> (SSI_Context \<times> bytes \<times> nat \<times> bool) option" where
  "ssi_pass g maxSize (ctx, out, consumed) =
     (if int consumed < ssi_cacheOffset ctx then
        (case ssi_turn g maxSize (ctx, out, consumed) of
           None \<Rightarrow> None
         | Some (ctx', out', consumed', ready, again) \<Rightarrow>
             if again then ssi_pass g maxSize (ctx', out', consumed') else Some (ctx', out', consumed', ready))
      else Some (ctx, out, consumed, False))"
  by pat_completeness auto
termination
  by (relation "measure (\<lambda>(g, m, ctx, out, consumed). nat (ssi_cacheOffset ctx - int consumed))")
     (auto dest!: ssi_turn_more)

declare ssi_pass.simps [simp del]

text \<open>
  The outer loop over the file: fill the cache, parse it, shift out what was consumed. It ends
  when something is ready to send or the file is read. A file that ends before
  \<^verbatim>\<open>_dwTotal\<close> would keep it running: such a run has no result.
\<close>

partial_function (option) ssi_read ::
  "env \<Rightarrow> glob \<Rightarrow> int \<Rightarrow> int \<Rightarrow> SSI_Context \<Rightarrow> file_handle list \<Rightarrow> int \<Rightarrow> bytes
     \<Rightarrow> (SSI_Context \<times> file_handle list \<times> int \<times> bytes \<times> bool) option" where
  "ssi_read e g maxSize whole ctx fs idx out =
     (if idx < whole then
        (if ssi_fp ctx = None then None
         else do {
           (fs, bs, err) \<leftarrow> WEB_fread e (ssi_fp ctx) (min (whole - idx) (int MAX_TAG_LEN - ssi_cacheOffset ctx)) fs;
           if err \<noteq> 0 then Some (ctx, fs, idx, out, False)
           else do {
             cache \<leftarrow> blit (ssi_cache ctx) (ssi_cacheOffset ctx) bs;
             (ctx, out, consumed, ready) \<leftarrow>
               ssi_pass g maxSize (ctx\<lparr>ssi_cache := cache, ssi_cacheOffset := ssi_cacheOffset ctx + int (length bs)\<rparr>, out, 0);
             cache \<leftarrow> (if ssi_cacheOffset ctx - int consumed > 0
                      then memmove (ssi_cache ctx) 0 (int consumed) (ssi_cacheOffset ctx - int consumed)
                      else Some (ssi_cache ctx));
             (if ready then Some (ctx\<lparr>ssi_cacheOffset := ssi_cacheOffset ctx - int consumed, ssi_cache := cache\<rparr>, fs, idx + int (length bs), out, True)
              else ssi_read e g maxSize whole (ctx\<lparr>ssi_cacheOffset := ssi_cacheOffset ctx - int consumed, ssi_cache := cache\<rparr>)
                     fs (idx + int (length bs)) out) } })
      else Some (ctx, fs, idx, out, True))"

text \<open>What follows both branches of the reader: the stage moves on, to its end when all is read.\<close>

definition read_stage :: "SSI_Context \<Rightarrow> REQUEST_CONTEXT \<Rightarrow> REQUEST_CONTEXT" where
  "read_stage ctx q = upd_resp (\<lambda>r. r\<lparr>p_dwOperStage :=
     (if p_dwOperIndex r \<ge> p_dwTotal r \<and> \<not> (ssi_ssi ctx > 0 \<and> ssi_cacheOffset ctx > 0)
      then STAGE_END else p_dwOperStage r + 1)\<rparr>) q"

definition WEB_ReadContent :: "env \<Rightarrow> REQUEST_CONTEXT \<Rightarrow> glob \<Rightarrow> int \<Rightarrow> (REQUEST_CONTEXT \<times> glob \<times> bytes \<times> int) option" where
  "WEB_ReadContent e q g maxSize =
     (if q_requestMethod q = METHOD_GET \<or> q_requestMethod q = METHOD_POST then do {
        ctx \<leftarrow> as_ssi (p_appContext (ctxResponse q));
        let whole = p_dwTotal (ctxResponse q);
        let idx = p_dwOperIndex (ctxResponse q);
        let maxRead = whole - idx;
        if maxRead = 0 then
          (if ssi_ssi ctx > 0 \<and> ssi_cacheOffset ctx > 0 then
             (let n = ssi_cacheOffset ctx in
              if int (length (ssi_cache ctx)) < n then None
              else Some (upd_resp (\<lambda>r. r\<lparr>p_dwOperStage := STAGE_END\<rparr>) (set_ssi (ctx\<lparr>ssi_cacheOffset := 0\<rparr>) q), g,
                         take (nat n) (ssi_cache ctx), n))
           else Some (upd_resp (\<lambda>r. r\<lparr>p_dwOperStage := STAGE_END\<rparr>) q, g, [], - 1))
        else if ssi_ssi ctx = 0 then
          (if ssi_fp ctx = None then None
           else do {
             (fs, bs, err) \<leftarrow> WEB_fread e (ssi_fp ctx) (min maxRead maxSize) (g_FileOpened g);
             if err \<noteq> 0 then Some (q\<lparr>q_result := - 500\<rparr>, g, [], 0)
             else
               (let q = upd_resp (\<lambda>r. r\<lparr>p_dwOperIndex := idx + int (length bs)\<rparr>) q
                in Some (read_stage ctx q, set_files fs g, bs, int (length bs))) })
        else do {
          (ctx, fs, idx, out, ok) \<leftarrow> ssi_read e g maxSize whole ctx (g_FileOpened g) idx [];
          let q = upd_resp (\<lambda>r. r\<lparr>p_dwOperIndex := idx\<rparr>) (set_ssi ctx q);
          if \<not> ok then Some (q\<lparr>q_result := - 500\<rparr>, set_files fs g, out, 0)
          else Some (read_stage ctx q, set_files fs g, out, int (length out)) } }
      else Some (q, g, [], - 1))"

section \<open>The end of a response\<close>

definition WEB_AllSent :: "REQUEST_CONTEXT \<Rightarrow> glob \<Rightarrow> (REQUEST_CONTEXT \<times> glob) option" where
  "WEB_AllSent q g = do {
     ctx \<leftarrow> as_ssi (p_appContext (ctxResponse q));
     Some (if ssi_fp ctx \<noteq> None
           then (set_ssi (ctx\<lparr>ssi_fp := None\<rparr>) q, set_files (WEB_fclose (ssi_fp ctx) (g_FileOpened g)) g)
           else (q, g)) }"

definition WEB_Finished :: "REQUEST_CONTEXT \<Rightarrow> glob \<Rightarrow> (REQUEST_CONTEXT \<times> glob) option" where
  "WEB_Finished q g = do {
     ctx \<leftarrow> as_ssi (p_appContext (ctxResponse q));
     Some (if ssi_fp ctx \<noteq> None
           then (set_ssi (ctx\<lparr>ssi_fp := None\<rparr>) q, set_files (WEB_fclose (ssi_fp ctx) (g_FileOpened g)) g)
           else (q, g)) }"

end
