(* ===== verification/Session.thy ===== *)
theory Session
  imports Http_Types
begin

text \<open>
  \<^verbatim>\<open>httpd/http_session.c\<close>: the table of five login sessions. The contract that the login
  handler and the request loop rely on is the locale \<open>session_store\<close>, interpreted here on
  the table. The mutex of the table is empty in this build (\<^verbatim>\<open>NO_SYS\<close> is 1).
\<close>

section \<open>Operations\<close>

definition SetupSession :: "SESSION list" where
  "SetupSession = replicate MAX_SESSIONS zero_session"

text \<open>
  \<^verbatim>\<open>LWIP_sprintf(outCookie, "SID=%08lX", LWIP_GetTickCount())\<close>: the conversion reads the low 32
  bits of the 64-bit tick.
\<close>

definition session_cookie :: "u64 \<Rightarrow> string" where
  "session_cookie tick = ''SID='' @ pad0 8 (fmt_X (unat (ucast tick :: u32)))"

definition SessionCreate :: "u64 \<Rightarrow> u32 \<Rightarrow> SESSION list \<Rightarrow> SESSION list \<times> string \<times> nat option" where
  "SessionCreate tick remoteIP ss =
     (case List.find (\<lambda>i. s_token (ss ! i) = []) [0..<length ss] of
        None \<Rightarrow> (ss, [], None)
      | Some i \<Rightarrow>
          (ss[i := zero_session\<lparr>s_tLastReceived := tick_stamp tick, s_nLoginIP := remoteIP,
                     s_token := session_cookie tick\<rparr>],
           session_cookie tick, Some i))"

definition SessionKill :: "nat option \<Rightarrow> SESSION list \<Rightarrow> SESSION list" where
  "SessionKill session ss =
     (case session of None \<Rightarrow> ss
      | Some i \<Rightarrow> if s_token (ss ! i) \<noteq> [] then ss[i := zero_session] else ss)"

definition SessionTypes :: "string \<Rightarrow> int" where
  "SessionTypes extension =
     (if Strnicmp extension ''css'' 3 = 0 \<or> Strnicmp extension ''jpg'' 3 = 0
       \<or> Strnicmp extension ''png'' 3 = 0 \<or> Strnicmp extension ''ico'' 3 = 0
       \<or> Strnicmp extension ''bmp'' 3 = 0 \<or> Strnicmp extension ''svg'' 3 = 0
       \<or> Strnicmp extension ''gif'' 3 = 0 \<or> Strnicmp extension ''woff'' 4 = 0
       \<or> Strnicmp extension ''ttf'' 3 = 0 \<or> Strnicmp extension ''otf'' 3 = 0
       \<or> Strnicmp extension ''tiff'' 4 = 0
      then 0 else 1)"

definition GetSession :: "SESSION list \<Rightarrow> string \<Rightarrow> nat option" where
  "GetSession ss token =
     (if token \<noteq> [] then
        List.find (\<lambda>i. s_token (ss ! i) \<noteq> [] \<and> strstr token (s_token (ss ! i)) \<noteq> None) [0..<length ss]
      else None)"

text \<open>Time since \<open>since\<close>, 0 when nothing was recorded; the sum of the other branch is 64 bits wide.\<close>

definition elapsed_since :: "u64 \<Rightarrow> u64 \<Rightarrow> u64" where
  "elapsed_since tick since =
     (let e = tick_stamp tick in
      if since \<noteq> 0 then (if e \<ge> since then e - since else e + (0xFFFFFFFF - since)) else 0)"

definition session_expired :: "u64 \<Rightarrow> int \<Rightarrow> SESSION \<Rightarrow> bool" where
  "session_expired tick timeout s =
     (let recvElapsed = elapsed_since tick (s_tLastReceived s);
          sendElapsed = elapsed_since tick (s_tLastSent s)
      in timeout > 0
         \<and> (if sendElapsed < recvElapsed then sendElapsed else recvElapsed) > ucast (word_of_int timeout :: u32))"

definition SessionCheck :: "u64 \<Rightarrow> int \<Rightarrow> SESSION list \<Rightarrow> SESSION list" where
  "SessionCheck tick timeout ss =
     map (\<lambda>s. if s_token s = [] then s
              else if session_expired tick timeout s then zero_session else s) ss"

definition SessionClearAll :: "SESSION list \<Rightarrow> SESSION list" where
  "SessionClearAll ss = map (\<lambda>_. zero_session) ss"

definition SessionReceived :: "u64 \<Rightarrow> nat option \<Rightarrow> SESSION list \<Rightarrow> SESSION list" where
  "SessionReceived tick session ss =
     (case session of None \<Rightarrow> ss
      | Some i \<Rightarrow> if s_token (ss ! i) \<noteq> []
                  then ss[i := (ss ! i)\<lparr>s_tLastReceived := tick_stamp tick\<rparr>] else ss)"

definition SessionSent :: "u64 \<Rightarrow> nat option \<Rightarrow> SESSION list \<Rightarrow> SESSION list" where
  "SessionSent tick session ss =
     (case session of None \<Rightarrow> ss
      | Some i \<Rightarrow> if s_token (ss ! i) \<noteq> []
                  then ss[i := (ss ! i)\<lparr>s_tLastSent := tick_stamp tick\<rparr>] else ss)"

section \<open>The table's invariant and the live sessions\<close>

definition live :: "SESSION list \<Rightarrow> nat set" where
  "live ss = {i. i < length ss \<and> s_token (ss ! i) \<noteq> []}"

definition cookie_shape :: "string \<Rightarrow> bool" where
  "cookie_shape t \<longleftrightarrow> length t = 12 \<and> take 4 t = ''SID='' \<and> nul_free t"

definition session_inv :: "SESSION list \<Rightarrow> bool" where
  "session_inv ss \<longleftrightarrow> length ss = MAX_SESSIONS
     \<and> (\<forall>s \<in> set ss. s_token s \<noteq> [] \<longrightarrow> cookie_shape (s_token s) \<and> s_tLastReceived s \<noteq> 0)"

lemma length_base_digits_16: "n < 16 ^ k \<Longrightarrow> 0 < k \<Longrightarrow> length (base_digits 16 n) \<le> k"
proof (induction k arbitrary: n)
  case 0
  then show ?case by simp
next
  case (Suc k)
  show ?case
  proof (cases "n < 16")
    case True
    then show ?thesis by (simp add: base_digits.simps [of 16 n])
  next
    case False
    with Suc.prems have "n div 16 < 16 ^ k" by (simp add: less_mult_imp_div_less mult.commute)
    moreover have "0 < k" using False Suc.prems by (cases k) auto
    ultimately have "length (base_digits 16 (n div 16)) \<le> k" by (rule Suc.IH)
    with False show ?thesis by (simp add: base_digits.simps [of 16 n])
  qed
qed

lemma cookie_shape_cookie: "cookie_shape (session_cookie tick)"
proof -
  have "unat (ucast tick :: u32) < 16 ^ 8" using unsigned_less [of "ucast tick :: u32", where ?'a = nat] by simp
  then have "length (fmt_X (unat (ucast tick :: u32))) \<le> 8"
    unfolding fmt_X_def by (rule length_base_digits_16) simp
  then show ?thesis by (simp add: cookie_shape_def session_cookie_def pad0_def nul_free_def [of "replicate _ _"])
qed

lemma cookie_nonempty [simp]: "session_cookie tick \<noteq> []"
  by (simp add: session_cookie_def)

lemma zero_session_token [simp]: "s_token zero_session = []"
  by (simp add: zero_session_def)

lemma SessionCreate_Some:
  assumes "SessionCreate tick ip ss = (ss', c, Some i)"
  shows "i < length ss \<and> s_token (ss ! i) = [] \<and> (\<forall>j < i. s_token (ss ! j) \<noteq> []) \<and> c = session_cookie tick
    \<and> ss' = ss[i := \<lparr>s_token = c, s_nLoginIP = ip, s_tLastReceived = tick_stamp tick, s_tLastSent = 0\<rparr>]"
  using assms
  by (auto simp: SessionCreate_def find_index_Some zero_session_def split: option.splits)

lemma SessionCreate_None:
  "SessionCreate tick ip ss = (ss', c, None) \<longleftrightarrow> (\<forall>i < length ss. s_token (ss ! i) \<noteq> []) \<and> ss' = ss \<and> c = []"
proof -
  have "List.find (\<lambda>i. s_token (ss ! i) = []) [0..<length ss] = None
    \<longleftrightarrow> (\<forall>i < length ss. s_token (ss ! i) \<noteq> [])" by (rule find_index_None)
  then show ?thesis by (cases "List.find (\<lambda>i. s_token (ss ! i) = []) [0..<length ss]") (auto simp: SessionCreate_def)
qed

lemma session_inv_update:
  assumes "session_inv ss" and "s_token s \<noteq> [] \<longrightarrow> cookie_shape (s_token s) \<and> s_tLastReceived s \<noteq> 0"
  shows "session_inv (ss[i := s])"
  using assms set_update_subset_insert [of ss i s] by (auto simp: session_inv_def)

lemma session_inv_nth:
  "session_inv ss \<Longrightarrow> i < length ss \<Longrightarrow> s_token (ss ! i) \<noteq> []
    \<Longrightarrow> cookie_shape (s_token (ss ! i)) \<and> s_tLastReceived (ss ! i) \<noteq> 0"
  by (auto simp: session_inv_def)

lemma session_inv_setup: "session_inv SetupSession"
  by (simp add: session_inv_def SetupSession_def)

lemma session_inv_create:
  assumes "session_inv ss" and "SessionCreate tick ip ss = (ss', c, r)"
  shows "session_inv ss'"
proof (cases r)
  case None
  with assms show ?thesis by (simp add: SessionCreate_None)
next
  case (Some i)
  with assms SessionCreate_Some [of tick ip ss ss' c i] cookie_shape_cookie [of tick]
  show ?thesis by (auto intro!: session_inv_update)
qed

lemma session_inv_kill: "session_inv ss \<Longrightarrow> session_inv (SessionKill r ss)"
  by (auto simp: SessionKill_def intro!: session_inv_update split: option.splits)

lemma session_inv_check: "session_inv ss \<Longrightarrow> session_inv (SessionCheck tick timeout ss)"
  by (auto simp: session_inv_def SessionCheck_def)

lemma session_inv_clear: "session_inv ss \<Longrightarrow> session_inv (SessionClearAll ss)"
  by (auto simp: session_inv_def SessionClearAll_def)

lemma session_inv_received:
  "session_inv ss \<Longrightarrow> (\<forall>i. r = Some i \<longrightarrow> i < length ss) \<Longrightarrow> session_inv (SessionReceived tick r ss)"
  by (auto simp: SessionReceived_def intro!: session_inv_update dest: session_inv_nth split: option.splits)

lemma session_inv_sent:
  "session_inv ss \<Longrightarrow> (\<forall>i. r = Some i \<longrightarrow> i < length ss) \<Longrightarrow> session_inv (SessionSent tick r ss)"
  by (auto simp: SessionSent_def intro!: session_inv_update dest: session_inv_nth split: option.splits)

lemma live_create:
  assumes "SessionCreate tick ip ss = (ss', c, Some i)"
  shows "i \<notin> live ss \<and> live ss' = insert i (live ss)"
  using SessionCreate_Some [OF assms]
  by (auto simp: live_def nth_list_update split: if_splits)

lemma live_kill: "live (SessionKill (Some i) ss) = live ss - {i}"
proof -
  have "x \<in> live (SessionKill (Some i) ss) \<longleftrightarrow> x \<in> live ss - {i}" for x
    by (cases "x = i") (auto simp: live_def SessionKill_def)
  then show ?thesis by blast
qed

lemma live_card: "session_inv ss \<Longrightarrow> card (live ss) \<le> MAX_SESSIONS"
  using card_mono [of "{..<length ss}" "live ss"] by (auto simp: session_inv_def live_def)

lemma GetSession_Some:
  "GetSession ss token = Some i \<longleftrightarrow> i \<in> live ss \<and> sublist (s_token (ss ! i)) token
     \<and> (\<forall>j < i. \<not> (s_token (ss ! j) \<noteq> [] \<and> sublist (s_token (ss ! j)) token))"
proof -
  have "token \<noteq> [] \<or> \<not> sublist (s_token (ss ! i)) token \<or> s_token (ss ! i) = []" by (cases token) auto
  then show ?thesis
    by (auto simp: GetSession_def find_index_Some live_def strstr_None_iff)
qed

text \<open>A cookie of the table found in another cookie is that cookie: both are twelve bytes.\<close>

lemma cookie_sublist: "cookie_shape a \<Longrightarrow> cookie_shape b \<Longrightarrow> sublist a b \<Longrightarrow> a = b"
  by (auto simp: cookie_shape_def sublist_def)

lemma GetSession_live:
  assumes "session_inv ss" and "i \<in> live ss"
  shows "\<exists>j. GetSession ss (s_token (ss ! i)) = Some j \<and> j \<in> live ss \<and> s_token (ss ! j) = s_token (ss ! i)"
proof -
  let ?t = "s_token (ss ! i)"
  have i: "i < length ss" "?t \<noteq> []" using assms(2) by (auto simp: live_def)
  have "strstr ?t ?t \<noteq> None" by (simp add: strstr_None_iff)
  with i have "List.find (\<lambda>i. s_token (ss ! i) \<noteq> [] \<and> strstr ?t (s_token (ss ! i)) \<noteq> None) [0..<length ss] \<noteq> None"
    by (auto simp: find_index_None)
  with i obtain j where j: "GetSession ss ?t = Some j" by (auto simp: GetSession_def)
  then have l: "j \<in> live ss" and s: "sublist (s_token (ss ! j)) ?t" by (auto simp: GetSession_Some)
  have "cookie_shape (s_token (ss ! j))" "cookie_shape ?t"
    using assms l i session_inv_nth by (auto simp: live_def)
  from cookie_sublist [OF this s] j l show ?thesis by auto
qed

section \<open>The contract of the table\<close>

text \<open>
  What the login handler and the request loop need of a session table: creating a session
  takes a slot that was not live, killing it gives the slot back, and a token presented by a
  client finds a session whose token occurs in it.
\<close>

locale session_store =
  fixes create :: "'t \<Rightarrow> 'ip \<Rightarrow> 'st \<Rightarrow> 'st \<times> string \<times> 'id option"
    and kill :: "'id option \<Rightarrow> 'st \<Rightarrow> 'st"
    and get :: "'st \<Rightarrow> string \<Rightarrow> 'id option"
    and inv :: "'st \<Rightarrow> bool"
    and alive :: "'st \<Rightarrow> 'id set"
    and token :: "'st \<Rightarrow> 'id \<Rightarrow> string"
    and owner :: "'st \<Rightarrow> 'id \<Rightarrow> 'ip"
  assumes inv_create: "inv st \<Longrightarrow> create t ip st = (st', c, r) \<Longrightarrow> inv st'"
    and inv_kill: "inv st \<Longrightarrow> inv (kill r st)"
    and create_alive: "create t ip st = (st', c, Some i) \<Longrightarrow> i \<notin> alive st \<and> alive st' = insert i (alive st)"
    and create_new: "inv st \<Longrightarrow> create t ip st = (st', c, Some i) \<Longrightarrow> token st' i = c \<and> owner st' i = ip"
    and create_frame: "create t ip st = (st', c, Some i) \<Longrightarrow> j \<noteq> i \<Longrightarrow> token st' j = token st j \<and> owner st' j = owner st j"
    and create_full: "create t ip st = (st', c, None) \<Longrightarrow> st' = st"
    and kill_alive: "alive (kill (Some i) st) = alive st - {i}"
    and kill_frame: "j \<noteq> i \<Longrightarrow> token (kill (Some i) st) j = token st j"
    and get_sound: "get st tok = Some i \<Longrightarrow> i \<in> alive st \<and> sublist (token st i) tok"
    and get_complete: "inv st \<Longrightarrow> i \<in> alive st \<Longrightarrow> \<exists>j. get st (token st i) = Some j \<and> token st j = token st i"
begin

lemma login_get:
  assumes "inv st" and "create t ip st = (st', c, Some i)"
  shows "\<exists>j. get st' c = Some j \<and> j \<in> alive st' \<and> token st' j = c"
  using get_complete [OF inv_create [OF assms], of i] create_alive [OF assms(2)] create_new [OF assms]
  by (auto dest: get_sound)

lemma login_get_fresh:
  assumes "inv st" and "create t ip st = (st', c, Some i)" and "\<forall>j \<in> alive st. token st j \<noteq> c"
  shows "get st' c = Some i"
proof -
  from login_get [OF assms(1,2)] obtain j where j: "get st' c = Some j" "j \<in> alive st'" "token st' j = c" by blast
  have "j = i"
  proof (rule ccontr)
    assume "j \<noteq> i"
    with j create_alive [OF assms(2)] create_frame [OF assms(2)] assms(3) show False by auto
  qed
  with j show ?thesis by simp
qed

lemma login_logout:
  "create t ip st = (st', c, Some i) \<Longrightarrow> alive (kill (Some i) st') = alive st"
  using create_alive kill_alive by fastforce

lemma get_killed: "get (kill (Some i) st) tok \<noteq> Some i"
  using get_sound kill_alive by blast

end

definition session_token :: "SESSION list \<Rightarrow> nat \<Rightarrow> string" where
  "session_token ss i = (if i < length ss then s_token (ss ! i) else [])"

definition session_owner :: "SESSION list \<Rightarrow> nat \<Rightarrow> u32" where
  "session_owner ss i = (if i < length ss then s_nLoginIP (ss ! i) else 0)"

interpretation tbl: session_store SessionCreate SessionKill GetSession session_inv live session_token session_owner
proof
  show "session_inv st \<Longrightarrow> SessionCreate t ip st = (st', c, r) \<Longrightarrow> session_inv st'" for st t ip st' c r
    by (rule session_inv_create)
  show "session_inv st \<Longrightarrow> session_inv (SessionKill r st)" for st r
    by (rule session_inv_kill)
  show "SessionCreate t ip st = (st', c, Some i) \<Longrightarrow> i \<notin> live st \<and> live st' = insert i (live st)" for t ip st st' c i
    by (rule live_create)
  show "session_inv st \<Longrightarrow> SessionCreate t ip st = (st', c, Some i) \<Longrightarrow> session_token st' i = c \<and> session_owner st' i = ip"
    for st t ip st' c i
    by (drule SessionCreate_Some) (auto simp: session_token_def session_owner_def)
  show "SessionCreate t ip st = (st', c, Some i) \<Longrightarrow> j \<noteq> i
      \<Longrightarrow> session_token st' j = session_token st j \<and> session_owner st' j = session_owner st j" for t ip st st' c i j
    by (drule SessionCreate_Some) (auto simp: session_token_def session_owner_def)
  show "SessionCreate t ip st = (st', c, None) \<Longrightarrow> st' = st" for t ip st st' c
    by (simp add: SessionCreate_None)
  show "live (SessionKill (Some i) st) = live st - {i}" for i st
    by (rule live_kill)
  show "j \<noteq> i \<Longrightarrow> session_token (SessionKill (Some i) st) j = session_token st j" for i j st
    by (simp add: SessionKill_def session_token_def)
  show "GetSession st tok = Some i \<Longrightarrow> i \<in> live st \<and> sublist (session_token st i) tok" for st tok i
    by (auto simp: GetSession_Some session_token_def live_def)
  show "session_inv st \<Longrightarrow> i \<in> live st
      \<Longrightarrow> \<exists>j. GetSession st (session_token st i) = Some j \<and> session_token st j = session_token st i" for st i
    using GetSession_live [of st i] by (auto simp: session_token_def live_def)
qed

section \<open>Expiry\<close>

lemma elapsed_since_unat:
  "since \<noteq> 0 \<Longrightarrow> since \<le> tick \<Longrightarrow> unat (elapsed_since tick since) = unat tick - unat since"
  by (auto simp: elapsed_since_def tick_stamp_def Let_def unat_sub)

lemma not_expired_idle: "s_tLastSent s = 0 \<or> s_tLastReceived s = 0 \<or> timeout \<le> 0 \<Longrightarrow> \<not> session_expired tick timeout s"
  by (auto simp: session_expired_def elapsed_since_def Let_def word_gt_0)

lemma session_expired_iff:
  assumes "s_tLastSent s \<noteq> 0" and "s_tLastReceived s \<noteq> 0" and "s_tLastSent s \<le> tick" and "s_tLastReceived s \<le> tick"
    and "0 < timeout" and "timeout < 2 ^ 31"
  shows "session_expired tick timeout s
    \<longleftrightarrow> unat tick - max (unat (s_tLastReceived s)) (unat (s_tLastSent s)) > nat timeout"
proof -
  have "unat (ucast (word_of_int timeout :: u32) :: u64) = nat timeout"
    using assms(5,6) by (simp add: unsigned_ucast_eq unsigned_of_int take_bit_int_eq_self take_bit_nat_eq_self nat_less_iff)
  moreover have "elapsed_since tick (s_tLastSent s) < elapsed_since tick (s_tLastReceived s)
      \<longleftrightarrow> unat (s_tLastReceived s) < unat (s_tLastSent s)"
    using assms(1-4) by (simp add: word_less_nat_alt elapsed_since_unat) (auto simp: word_le_nat_alt)
  ultimately show ?thesis
    using assms(1-5) by (auto simp: session_expired_def Let_def word_less_nat_alt elapsed_since_unat max_def)
qed

section \<open>Tables the server can reach\<close>

text \<open>
  The table is set up once and then changed by the operations in any order. A session
  pointer of the server is a slot of the table, live or not: it was returned by
  \<^verbatim>\<open>SessionCreate\<close> or \<^verbatim>\<open>GetSession\<close>, perhaps some time ago.
\<close>

inductive session_reach :: "SESSION list \<Rightarrow> bool" where
  reach_setup: "session_reach SetupSession"
| reach_create: "session_reach ss \<Longrightarrow> SessionCreate tick ip ss = (ss', c, r) \<Longrightarrow> session_reach ss'"
| reach_kill: "session_reach ss \<Longrightarrow> session_reach (SessionKill r ss)"
| reach_check: "session_reach ss \<Longrightarrow> session_reach (SessionCheck tick timeout ss)"
| reach_clear: "session_reach ss \<Longrightarrow> session_reach (SessionClearAll ss)"
| reach_received: "session_reach ss \<Longrightarrow> i < length ss \<Longrightarrow> session_reach (SessionReceived tick (Some i) ss)"
| reach_sent: "session_reach ss \<Longrightarrow> i < length ss \<Longrightarrow> session_reach (SessionSent tick (Some i) ss)"

lemma session_reach_inv: "session_reach ss \<Longrightarrow> session_inv ss"
proof (induction rule: session_reach.induct)
  case (reach_create ss tick ip ss' c r)
  then show ?case using session_inv_create by blast
qed (auto intro: session_inv_setup session_inv_kill session_inv_check session_inv_clear session_inv_received session_inv_sent)

lemma SessionCheck_nth:
  "i < length ss \<Longrightarrow> SessionCheck tick timeout ss ! i =
     (if s_token (ss ! i) = [] then ss ! i else if session_expired tick timeout (ss ! i) then zero_session else ss ! i)"
  by (simp add: SessionCheck_def)

lemma live_check: "i \<in> live (SessionCheck tick timeout ss) \<longleftrightarrow> i \<in> live ss \<and> \<not> session_expired tick timeout (ss ! i)"
  by (auto simp: live_def SessionCheck_def)

lemma login_slot:
  assumes "session_inv ss"
  shows "(SessionCreate tick ip ss = (ss, [], None) \<longleftrightarrow> card (live ss) = MAX_SESSIONS)
    \<and> (card (live ss) < MAX_SESSIONS \<longrightarrow>
        (\<exists>i ss'. SessionCreate tick ip ss = (ss', session_cookie tick, Some i) \<and> {..<i} \<subseteq> live ss \<and> i \<notin> live ss))"
proof -
  have len: "length ss = MAX_SESSIONS" using assms by (simp add: session_inv_def)
  have sub: "live ss \<subseteq> {..<5}" using len by (auto simp: live_def)
  have full: "card (live ss) = MAX_SESSIONS \<longleftrightarrow> (\<forall>i < length ss. s_token (ss ! i) \<noteq> [])"
  proof -
    have "card (live ss) = MAX_SESSIONS \<longleftrightarrow> live ss = {..<5}"
      by (metis card_subset_eq [OF finite_lessThan sub] card_lessThan)
    then show ?thesis using len by (auto simp: live_def)
  qed
  obtain ss' c r where create: "SessionCreate tick ip ss = (ss', c, r)" by (cases "SessionCreate tick ip ss")
  show ?thesis
  proof (cases r)
    case None
    with create full show ?thesis using SessionCreate_None [of tick ip ss ss' c] by auto
  next
    case (Some i)
    with create have "SessionCreate tick ip ss = (ss', c, Some i)" by simp
    from SessionCreate_Some [OF this] full create Some show ?thesis by (auto simp: live_def)
  qed
qed

section \<open>Properties\<close>

text \<open>
  C20: Whatever the order of logins, logouts, expiry checks and traffic, the table keeps its
  invariant: five slots, at most five live sessions, and every live one has a twelve-byte
  cookie \<^verbatim>\<open>SID=\<close> and a time of its last request.
\<close>

theorem session_table_invariant:
  assumes "session_reach ss"
  shows "length ss = MAX_SESSIONS \<and> card (live ss) \<le> MAX_SESSIONS
    \<and> (\<forall>i \<in> live ss. cookie_shape (s_token (ss ! i)) \<and> s_tLastReceived (ss ! i) \<noteq> 0)"
  using session_reach_inv [OF assms] live_card session_inv_nth
  by (auto simp: live_def session_inv_def)

theorem session_table_invariant_witness:
  "length SetupSession = MAX_SESSIONS \<and> card (live SetupSession) \<le> MAX_SESSIONS"
  using session_table_invariant [OF reach_setup] by simp

text \<open>
  C21: The life of a login. Creating a session takes a slot that was free; its cookie, when a
  client presents it, leads to a live session with this very cookie; killing the session gives the slot back, leaves the
  others live, and the slot is not found any more by any cookie.
\<close>

theorem login_lifecycle:
  assumes "session_inv ss" and "SessionCreate tick ip ss = (ss', c, Some i)"
  shows "i \<notin> live ss \<and> live ss' = insert i (live ss) \<and> s_token (ss' ! i) = c \<and> s_nLoginIP (ss' ! i) = ip
    \<and> (\<exists>j. GetSession ss' c = Some j \<and> j \<in> live ss' \<and> s_token (ss' ! j) = c)
    \<and> live (SessionKill (Some i) ss') = live ss
    \<and> (\<forall>tok. GetSession (SessionKill (Some i) ss') tok \<noteq> Some i)"
proof (intro conjI allI)
  show "i \<notin> live ss" "live ss' = insert i (live ss)" using live_create [OF assms(2)] by auto
  show "s_token (ss' ! i) = c" "s_nLoginIP (ss' ! i) = ip" using SessionCreate_Some [OF assms(2)] by auto
  show "\<exists>j. GetSession ss' c = Some j \<and> j \<in> live ss' \<and> s_token (ss' ! j) = c"
    using tbl.login_get [OF assms] by (auto simp: session_token_def live_def)
  show "live (SessionKill (Some i) ss') = live ss" by (rule tbl.login_logout [OF assms(2)])
  show "GetSession (SessionKill (Some i) ss') tok \<noteq> Some i" for tok by (rule tbl.get_killed)
qed

theorem login_lifecycle_witness:
  "GetSession (fst (SessionCreate 5000 7 SetupSession)) (fst (snd (SessionCreate 5000 7 SetupSession))) \<noteq> None"
proof -
  let ?r = "SessionCreate 5000 7 SetupSession"
  have "?r = (fst ?r, fst (snd ?r), Some 0)" by (simp add: SessionCreate_def SetupSession_def upt_rec)
  from login_lifecycle [OF session_inv_setup this] show ?thesis by auto
qed

text \<open>
  A login is refused exactly when all five slots are live; it then changes nothing. The
  slot it takes otherwise is the first free one.
\<close>

theorem login_refused_iff_full:
  assumes "session_inv ss"
  shows "(SessionCreate tick ip ss = (ss, [], None) \<longleftrightarrow> card (live ss) = MAX_SESSIONS)
    \<and> (card (live ss) < MAX_SESSIONS \<longrightarrow>
        (\<exists>i ss'. SessionCreate tick ip ss = (ss', session_cookie tick, Some i) \<and> {..<i} \<subseteq> live ss \<and> i \<notin> live ss))"
  by (rule login_slot [OF assms])

theorem login_refused_iff_full_witness:
  "\<exists>i ss'. SessionCreate 5000 7 SetupSession = (ss', session_cookie 5000, Some i) \<and> {..<i} \<subseteq> live SetupSession \<and> i \<notin> live SetupSession"
proof -
  have "live SetupSession = {}" by (auto simp: live_def SetupSession_def)
  then show ?thesis using login_refused_iff_full [OF session_inv_setup, of 5000 7] by simp
qed

text \<open>
  C32: The expiry check keeps a session with traffic in both directions exactly while the time
  since its latest traffic is at most the timeout; a session to which nothing was sent is
  never ended by it, nor is any session when the timeout is not positive.
\<close>

theorem session_expiry:
  assumes "i \<in> live ss" and "s_tLastReceived (ss ! i) \<noteq> 0"
    and "s_tLastSent (ss ! i) \<le> tick" and "s_tLastReceived (ss ! i) \<le> tick" and "timeout < 2 ^ 31"
  shows "i \<in> live (SessionCheck tick timeout ss) \<longleftrightarrow> s_tLastSent (ss ! i) = 0 \<or> timeout \<le> 0
    \<or> unat tick - max (unat (s_tLastReceived (ss ! i))) (unat (s_tLastSent (ss ! i))) \<le> nat timeout"
  using assms not_expired_idle [of "ss ! i" timeout tick] session_expired_iff [of "ss ! i" tick timeout]
  unfolding live_check by (cases "s_tLastSent (ss ! i) = 0 \<or> timeout \<le> 0") auto

theorem session_expiry_witness:
  "0 \<notin> live (SessionCheck 200000 180000 [\<lparr>s_token = ''SID=00000001'', s_nLoginIP = 7, s_tLastReceived = 10, s_tLastSent = 12\<rparr>])"
  by (subst session_expiry) (simp_all add: live_def)

end
