(* ===== verification/Cgi_Auth.thy ===== *)
theory Cgi_Auth
  imports Web Session
begin

text \<open>
  \<^verbatim>\<open>httpd/cgi/cgi_auth.c\<close>: the pages under \<^verbatim>\<open>/auth/\<close>. A posted login is collected as a C
  string in the application area, its user is checked, and a session is created; the logout
  page kills the session of the request; the check page reports whether there is one.
\<close>

text \<open>The password is an argument that the code does not look at.\<close>

definition CheckUser :: "string \<Rightarrow> string \<Rightarrow> bool" where
  "CheckUser u p \<longleftrightarrow> Strnicmp u ''admin'' 5 = 0 \<or> Strnicmp u ''user'' 4 = 0"

text \<open>Ending a field at its \<^verbatim>\<open>&\<close>: the first one from an offset on, before the NUL.\<close>

definition cut_field :: "bytes \<Rightarrow> nat \<Rightarrow> bytes" where
  "cut_field a off =
     (case strchr (cstr (drop off a)) CHR ''&'' of None \<Rightarrow> a | Some i \<Rightarrow> a[off + i := NUL])"

definition AuthCheck :: "REQUEST_CONTEXT \<Rightarrow> glob \<Rightarrow> (REQUEST_CONTEXT \<times> glob \<times> int) option" where
  "AuthCheck q g = do {
     s \<leftarrow> as_raw (p_appContext (ctxResponse q));
     (case (strstr s ''username='', strstr s ''password='') of
        (Some u, Some p) \<Rightarrow>
          (let a = cut_field (cut_field (s @ [NUL]) (u + 9)) (p + 9);
               q = upd_resp (\<lambda>r. r\<lparr>p_appContext := App_Raw (cstr a)\<rparr>) q
           in if CheckUser (cstr (drop (u + 9) a)) (cstr (drop (p + 9) a)) then
                (let (ss, szNewToken, session) = SessionCreate (g_now g) (q_ipRemote q) (g_httpSessions g);
                     q = q\<lparr>q_session := session\<rparr>; g = g\<lparr>g_httpSessions := ss\<rparr>
                 in Some (if session \<noteq> None
                          then (upd_resp (\<lambda>r. r\<lparr>p_token := szNewToken\<rparr>) q, g, 1) else (q, g, 0)))
              else Some (q, g, 0))
      | _ \<Rightarrow> Some (q, g, 0)) }"

definition Auth_OnHeaders :: "REQUEST_CONTEXT \<Rightarrow> REQUEST_CONTEXT" where
  "Auth_OnHeaders q = upd_resp (\<lambda>r. r\<lparr>p_appContext := App_Raw []\<rparr>) q"

text \<open>
  \<^verbatim>\<open>strncpy\<close> stops at a NUL of the received bytes; a count that is negative, or one that
  runs past the received bytes without meeting a NUL, is undefined.
\<close>

definition Auth_OnPostData :: "bytes \<Rightarrow> int \<Rightarrow> REQUEST_CONTEXT \<Rightarrow> (REQUEST_CONTEXT \<times> int) option" where
  "Auth_OnPostData buffer size' q =
     (if size' > 0 then do {
        s \<leftarrow> as_raw (p_appContext (ctxResponse q));
        let room = int MAX_APP_CONTEXT_SIZE - int (length s) - 2;
        let n = (if size' < room then size' else room);
        if n < 0 \<or> (int (length buffer) < n \<and> NUL \<notin> set buffer) then None
        else Some (upd_resp (\<lambda>r. r\<lparr>p_appContext := App_Raw (s @ cstr (take (nat n) buffer))\<rparr>) q, size') }
      else Some (q, size'))"

definition path_is :: "REQUEST_CONTEXT \<Rightarrow> string \<Rightarrow> bool" where
  "path_is q page \<longleftrightarrow> Strnicmp (cstr (q_requestPath q)) page (length page) = 0"

definition Auth_OnRequestReceived :: "env \<Rightarrow> REQUEST_CONTEXT \<Rightarrow> glob \<Rightarrow> (REQUEST_CONTEXT \<times> glob) option" where
  "Auth_OnRequestReceived e q g =
     (if path_is q WEB_SESSION_CHECK then
        Some (q\<lparr>q_result := (if q_session q = None then CODE_UNAUTHORIZED else CODE_OK)\<rparr>, g)
      else if path_is q WEB_LOGOUT_PAGE then
        Some (upd_resp (\<lambda>r. r\<lparr>p_authorized := 0, p_token := []\<rparr>)
                (q\<lparr>q_responsePath := WEB_DEFAULT_PAGE, q_result := CODE_REDIRECT\<rparr>),
              g\<lparr>g_httpSessions := SessionKill (q_session q) (g_httpSessions g)\<rparr>)
      else if q_requestMethod q = METHOD_POST \<and> path_is q WEB_DEFAULT_PAGE then do {
        (q, g, success) \<leftarrow> AuthCheck q g;
        let q = set_ssi zero_ssi q;
        Some (if success > 0
              then (upd_resp (\<lambda>r. r\<lparr>p_authorized := CODE_OK\<rparr>) (q\<lparr>q_responsePath := WEB_APP_PAGE, q_result := CODE_REDIRECT\<rparr>), g)
              else (upd_resp (\<lambda>r. r\<lparr>p_authorized := 0\<rparr>) (q\<lparr>q_responsePath := WEB_DEFAULT_PAGE, q_result := CODE_REDIRECT\<rparr>), g)) }
      else WEB_RequestReceived e q g)"

definition auth_headers :: "string \<Rightarrow> string" where
  "auth_headers token = ''X-Auth-Token: '' @ token @ CRLF @ ''Set-Cookie: '' @ token @ ''; Path=/; HttpOnly; max-age=3600'' @ CRLF"

definition Auth_SetResponseHeaders :: "env \<Rightarrow> string \<Rightarrow> REQUEST_CONTEXT \<Rightarrow> glob \<Rightarrow> (REQUEST_CONTEXT \<times> glob) option" where
  "Auth_SetResponseHeaders e HttpCodeInfo q g = do {
     let r = ctxResponse q;
     sb \<leftarrow> (if path_is q WEB_LOGOUT_PAGE then strcat (p_sendBuffer r) (auth_headers ''SID='')
           else if q_requestMethod q = METHOD_POST \<and> path_is q WEB_DEFAULT_PAGE
             \<and> p_authorized r = CODE_OK \<and> p_token r \<noteq> []
           then strcat (p_sendBuffer r) (auth_headers (p_token r))
           else Some (p_sendBuffer r));
     WEB_AppendHeaders e HttpCodeInfo (upd_resp (\<lambda>r. r\<lparr>p_sendBuffer := sb\<rparr>) q) g }"

section \<open>Correctness\<close>

text \<open>Collecting the posted login in the application area.\<close>

lemma Auth_OnHeaders_raw [simp]: "p_appContext (ctxResponse (Auth_OnHeaders q)) = App_Raw []"
  by (simp add: Auth_OnHeaders_def)

lemma Auth_OnPostData_collects:
  assumes "p_appContext (ctxResponse q) = App_Raw s" and "nul_free data" and "length s + length data \<le> 254"
  shows "Auth_OnPostData (data @ rest) (int (length data)) q
    = Some (upd_resp (\<lambda>r. r\<lparr>p_appContext := App_Raw (s @ data)\<rparr>) q, int (length data))"
proof (cases "data = []")
  case True
  have "r\<lparr>p_appContext := App_Raw s\<rparr> = r" if "p_appContext r = App_Raw s" for r :: RESPONSE_CONTEXT
    using that by (cases r) simp
  with True assms(1) show ?thesis by (simp add: Auth_OnPostData_def upd_resp_def)
next
  case False
  have "(if int (length data) < int MAX_APP_CONTEXT_SIZE - int (length s) - 2 then int (length data)
      else int MAX_APP_CONTEXT_SIZE - int (length s) - 2) = int (length data)" using assms(3) by auto
  with False assms show ?thesis by (simp add: Auth_OnPostData_def Let_def)
qed

text \<open>Where the fields of a login form start: the user's name must not hold an equals sign.\<close>

lemma password_chars: "CHR ''&'' \<notin> set ''password=''" "CHR ''='' \<in> set ''password=''"
  by simp_all

lemma password_field: "CHR ''='' \<notin> set u \<Longrightarrow> strstr (u @ ''&password='' @ p) ''password='' = Some (length u + 1)"
proof (induction u)
  case Nil
  then show ?case by (simp add: strstr_Cons strstr.simps [of "CHR ''p'' # _"])
next
  case (Cons c u)
  let ?w = "c # u"
  have "\<not> prefix ''password='' (?w @ ''&password='' @ p)"
  proof
    assume "prefix ''password='' (?w @ ''&password='' @ p)"
    then consider "prefix ''password='' ?w" | us where "''password='' = ?w @ us" "prefix us (''&password='' @ p)"
      unfolding prefix_append by blast
    then show False
    proof cases
      case 1
      then show False using Cons.prems set_mono_prefix by fastforce
    next
      case 2
      show False
      proof (cases us)
        case Nil
        with 2(1) have "set ?w = set ''password=''" by (metis append_Nil2)
        with Cons.prems password_chars(2) show False by metis
      next
        case (Cons d us')
        with 2(2) have "CHR ''&'' \<in> set (?w @ us)" by simp
        with 2(1) show False by (metis password_chars)
      qed
    qed
  qed
  with Cons show ?case by (simp add: strstr_Cons)
qed

lemma login_fields:
  assumes "CHR ''='' \<notin> set u"
  shows "strstr (''username='' @ u @ ''&password='' @ p) ''username='' = Some 0"
    "strstr (''username='' @ u @ ''&password='' @ p) ''password='' = Some (length u + 10)"
  using password_field [OF assms, of p] by (simp_all add: strstr_Cons)

definition user_known :: "string \<Rightarrow> bool" where
  "user_known u \<longleftrightarrow> map toUpper (take 5 u) = map toUpper ''admin'' \<or> map toUpper (take 4 u) = map toUpper ''user''"

lemma drop_password: "drop (length u + 19) (''username='' @ u @ NUL # ''password='' @ p @ [NUL]) = p @ [NUL]"
proof -
  let ?h = "''username='' @ u @ NUL # ''password=''"
  have "length u + 19 = length ?h" and "''username='' @ u @ NUL # ''password='' @ p @ [NUL] = ?h @ p @ [NUL]" by simp_all
  moreover have "drop (length a) (a @ b) = b" for a b :: string by simp
  ultimately show ?thesis by (simp only:)
qed

lemma cut_login:
  assumes "nul_free u" and "nul_free p" and "CHR ''&'' \<notin> set u" and "CHR ''&'' \<notin> set p"
  defines "s \<equiv> ''username='' @ u @ ''&password='' @ p"
  shows "cut_field (cut_field (s @ [NUL]) 9) (length u + 19) = ''username='' @ u @ NUL # ''password='' @ p @ [NUL]"
proof -
  have 1: "drop 9 (s @ [NUL]) = u @ CHR ''&'' # ''password='' @ p @ [NUL]" by (simp add: s_def)
  have c: "cstr (u @ CHR ''&'' # ''password='' @ p @ [NUL]) = u @ CHR ''&'' # ''password='' @ p"
    using cstr_append_NUL [of "u @ CHR ''&'' # ''password='' @ p" "[]"] assms(1,2) by simp
  have "cut_field (s @ [NUL]) 9 = (s @ [NUL])[9 + length u := NUL]"
    unfolding cut_field_def 1 c by (simp add: strchr_skip [OF assms(3)])
  also have "\<dots> = ''username='' @ u @ NUL # ''password='' @ p @ [NUL]" by (simp add: s_def list_update_append)
  finally have 2: "cut_field (s @ [NUL]) 9 = ''username='' @ u @ NUL # ''password='' @ p @ [NUL]" .
  note 3 = drop_password [of u p]
  have "strchr (cstr (p @ [NUL])) CHR ''&'' = None"
    using assms(2,4) by (simp add: cstr_append_NUL [of p "[]", simplified] strchr_def strstr_None_iff sublist_def) auto
  then have "cut_field (''username='' @ u @ NUL # ''password='' @ p @ [NUL]) (length u + 19) = ''username='' @ u @ NUL # ''password='' @ p @ [NUL]"
    unfolding cut_field_def 3 by simp
  then show ?thesis by (simp only: 2)
qed

lemma AuthCheck_eq:
  assumes "p_appContext (ctxResponse q) = App_Raw s" and "strstr s ''username='' = Some i" and "strstr s ''password='' = Some k"
    and "cut_field (cut_field (s @ [NUL]) (i + 9)) (k + 9) = a"
  shows "AuthCheck q g = (let q1 = upd_resp (\<lambda>r. r\<lparr>p_appContext := App_Raw (cstr a)\<rparr>) q in
     if CheckUser (cstr (drop (i + 9) a)) (cstr (drop (k + 9) a)) then
       (let (ss, c, s) = SessionCreate (g_now g) (q_ipRemote q1) (g_httpSessions g);
            q2 = q1\<lparr>q_session := s\<rparr>; g2 = g\<lparr>g_httpSessions := ss\<rparr>
        in Some (if s \<noteq> None then (upd_resp (\<lambda>r. r\<lparr>p_token := c\<rparr>) q2, g2, 1) else (q2, g2, 0)))
     else Some (q1, g, 0))"
  using assms by (simp add: AuthCheck_def Let_def)

section \<open>Properties\<close>



end
