(* ===== verification/Cgi_Form.thy ===== *)
theory Cgi_Form
  imports Web
begin

text \<open>
  \<^verbatim>\<open>httpd/cgi/cgi_form.c\<close>: the settings page. Asking for the page loads the running
  configuration for editing; a posted form sets tags of the edited copy and applies it when
  the request is complete.
\<close>

definition Form_OnHeadersReceived :: "REQUEST_CONTEXT \<Rightarrow> glob \<Rightarrow> REQUEST_CONTEXT \<times> glob" where
  "Form_OnHeadersReceived q g =
     (WEB_OnFormHeaders q, if q_requestMethod q = METHOD_GET then LoadConfig4Edit g else g)"

definition Form_OnRequestReceived :: "env \<Rightarrow> REQUEST_CONTEXT \<Rightarrow> glob \<Rightarrow> (REQUEST_CONTEXT \<times> glob) option" where
  "Form_OnRequestReceived e q g = do {
     (q, g) \<leftarrow> WEB_RequestReceived e q g;
     let g = (if q_requestMethod q = METHOD_POST then AppyConfig g else g);
     Some (upd_resp (\<lambda>r. r\<lparr>p_sendBuffer := zeros MAX_SEND_BUF_SIZE, p_bytesLeft := 0\<rparr>) q, g) }"

definition Form_SetResponseHeaders :: "env \<Rightarrow> string \<Rightarrow> REQUEST_CONTEXT \<Rightarrow> glob \<Rightarrow> (REQUEST_CONTEXT \<times> glob) option" where
  "Form_SetResponseHeaders e HttpCodeInfo q g = WEB_AppendHeaders e HttpCodeInfo q g"

definition Form_AllSent :: "REQUEST_CONTEXT \<Rightarrow> glob \<Rightarrow> (REQUEST_CONTEXT \<times> glob) option" where
  "Form_AllSent q g = WEB_AllSent q g"

end
