(* ===== verification/Cgi_Files.thy ===== *)
theory Cgi_Files
  imports Web
begin

text \<open>
  \<^verbatim>\<open>httpd/cgi/cgi_files.c\<close>: the list of files as JSON. With the made-up file system a scan
  of a directory yields the seven made-up files, whatever the path.
\<close>

definition FOLDER_TO_LIST :: string where
  "FOLDER_TO_LIST = ''D:/straight/straight-httpd/straight-httpd/straight-httpd/httpd/webroot/app/cache/''"

text \<open>The parameter \<^verbatim>\<open>path=\<close> behind the question mark of the request.\<close>

definition files_param :: "REQUEST_CONTEXT \<Rightarrow> string option option" where
  "files_param q =
     (if q_posQuestion q \<ge> 0 then do {
        s \<leftarrow> cstr_at (q_requestPath q) (q_posQuestion q + 1);
        Some (map_option (\<lambda>i. drop (i + 5) s) (strstr s ''path='')) }
      else Some None)"

definition files_filter :: "string option \<Rightarrow> string" where
  "files_filter p =
     (case p of None \<Rightarrow> FOLDER_TO_LIST
      | Some p \<Rightarrow>
          (let path = FOLDER_TO_LIST @ (if take 1 p = ''/'' then drop 1 p else p)
           in if last path \<noteq> CHR ''/'' then path @ ''/'' else path)) @ ''*.*''"

definition Files_OnRequestReceived :: "REQUEST_CONTEXT \<Rightarrow> glob \<Rightarrow> (REQUEST_CONTEXT \<times> glob) option" where
  "Files_OnRequestReceived q g = do {
     p \<leftarrow> files_param q;
     path \<leftarrow> fit 128 (files_filter p);
     let q = q\<lparr>q_responsePath := path, q_options := q_options q OR CGI_OPT_CHUNK_ENABLED\<rparr>;
     let (fs, fp, _) = WEB_firstdir 64 (g_FileOpened g);
     let fs = (if fp \<noteq> None then WEB_closedir fp fs else fs);
     Some (set_ssi (zero_ssi\<lparr>ssi_valid := 1\<rparr>) q, set_files fs g) }"

definition Files_SetResponseHeader :: "env \<Rightarrow> string \<Rightarrow> REQUEST_CONTEXT \<Rightarrow> REQUEST_CONTEXT option" where
  "Files_SetResponseHeader e HttpCodeInfo q =
     (if q_requestMethod q = METHOD_GET \<and> q_result q = CODE_OK then do {
        sb \<leftarrow> strcpy_at (p_sendBuffer (ctxResponse q)) 0 (header_chunked HttpCodeInfo ''application/json'' [] (CONNECTION_HEADER e));
        Some (upd_resp (\<lambda>r. r\<lparr>p_sendBuffer := sb\<rparr>) q) }
      else Some q)"

definition file_json :: "string \<Rightarrow> int \<Rightarrow> nat \<Rightarrow> string" where
  "file_json name sz date =
     ''{'' @ [DQ] @ ''folder'' @ [DQ] @ '':'' @ fmt_d 0 @ '','' @ [DQ] @ ''name'' @ [DQ] @ '':'' @ [DQ] @ name @ [DQ]
       @ '','' @ [DQ] @ ''size'' @ [DQ] @ '':'' @ fmt_d sz @ '','' @ [DQ] @ ''date'' @ [DQ] @ '':'' @ fmt_d (s32 (int date)) @ ''}''"

definition files_head :: string where
  "files_head = ''{'' @ [DQ] @ ''result'' @ [DQ] @ '':1, '' @ [DQ] @ ''data'' @ [DQ] @ '':[''"

definition files_empty :: string where
  "files_empty = ''{'' @ [DQ] @ ''result'' @ [DQ] @ '':0, '' @ [DQ] @ ''data'' @ [DQ] @ '':[]}''"

text \<open>
  One item: opening the directory or reading on. The result is the item, or \<open>None\<close> with the
  text that ends the list; the stage has moved on.
\<close>

definition files_item :: "u32 \<Rightarrow> SSI_Context \<Rightarrow> file_handle list
    \<Rightarrow> (SSI_Context \<times> file_handle list \<times> ((string \<times> int \<times> nat) + string)) option" where
  "files_item stage ctx fs =
     (if stage = 0 then
        (case WEB_firstdir 128 fs of (fs, fp, entry) \<Rightarrow>
           Some (ctx\<lparr>ssi_fp := fp\<rparr>, fs, if fp = None then Inr files_empty else Inl entry))
      else do {
        (fs, entry) \<leftarrow> WEB_readdir (ssi_fp ctx) 128 fs;
        Some (case entry of
          None \<Rightarrow> (ctx\<lparr>ssi_fp := None\<rparr>, WEB_closedir (ssi_fp ctx) fs, Inr '']}'')
        | Some en \<Rightarrow> (ctx, fs, Inl en)) })"

text \<open>The names that the loop skips: empty ones, and the dots of a directory.\<close>

definition skip_name :: "string \<Rightarrow> string \<Rightarrow> bool" where
  "skip_name name path \<longleftrightarrow> name = [] \<or> name = ''.'' \<or> (name = ''..'' \<and> length path = length FOLDER_TO_LIST + 3)"

partial_function (option) files_loop ::
  "int \<Rightarrow> string \<Rightarrow> u32 \<Rightarrow> int \<Rightarrow> SSI_Context \<Rightarrow> file_handle list \<Rightarrow> bytes
     \<Rightarrow> (u32 \<times> int \<times> SSI_Context \<times> file_handle list \<times> bytes) option" where
  "files_loop maxSize path stage whole ctx fs out =
     (if int (length out) < maxSize - 200 then do {
        (ctx, fs, item) \<leftarrow> files_item stage ctx fs;
        (case item of
           Inr t \<Rightarrow> Some (STAGE_END, whole, ctx, fs, out @ t)
         | Inl (name, sz, date) \<Rightarrow>
             if skip_name name path then files_loop maxSize path (stage + 1) whole ctx fs out
             else files_loop maxSize path (stage + 1) (whole + 1) ctx fs
                    ((if whole = 0 then out @ files_head else out @ '','') @ file_json name sz date)) }
      else Some (stage, whole, ctx, fs, out))"

definition Files_ReadOneFileInfo :: "REQUEST_CONTEXT \<Rightarrow> glob \<Rightarrow> int \<Rightarrow> (REQUEST_CONTEXT \<times> glob \<times> bytes \<times> int) option" where
  "Files_ReadOneFileInfo q g maxSize =
     (if q_requestMethod q = METHOD_GET then do {
        ctx \<leftarrow> as_ssi (p_appContext (ctxResponse q));
        if p_dwOperStage (ctxResponse q) = STAGE_END then
          Some (if ssi_fp ctx \<noteq> None
                then (set_ssi (ctx\<lparr>ssi_fp := None\<rparr>) q, set_files (WEB_closedir (ssi_fp ctx) (g_FileOpened g)) g, [], - 1)
                else (q, g, [], - 1))
        else do {
          (stage, whole, ctx, fs, out) \<leftarrow>
            files_loop maxSize (q_responsePath q) (p_dwOperStage (ctxResponse q)) (p_dwTotal (ctxResponse q)) ctx (g_FileOpened g) [];
          Some (upd_resp (\<lambda>r. r\<lparr>p_dwOperStage := stage, p_dwTotal := whole\<rparr>) (set_ssi ctx q), set_files fs g,
                if out = [] then [] else out @ [NUL], if out \<noteq> [] then int (length out) else - 1) } }
      else Some (q, g, [], - 1))"

end
