(* ===== verification/Cgi_Upload.thy ===== *)
theory Cgi_Upload
  imports Web
begin

text \<open>
  \<^verbatim>\<open>httpd/cgi/cgi_upload.c\<close>: receiving a file. The name comes base64-encoded in a header and
  is decoded in the receive buffer; the data is handed to the file system as it comes in.
  \<^verbatim>\<open>MakeDeepPath\<close> is empty in this build.
\<close>

definition UPLOAD_TO_FOLDER :: string where
  "UPLOAD_TO_FOLDER = ''D:/straight/straight-httpd/straight-httpd/straight-httpd/httpd/webroot/app/cache/''"

definition Dev_IsBusy :: bool where
  "Dev_IsBusy = False"

definition Upload_Start :: "env \<Rightarrow> REQUEST_CONTEXT \<Rightarrow> glob \<Rightarrow> (REQUEST_CONTEXT \<times> glob \<times> int) option" where
  "Upload_Start e q g = do {
     name \<leftarrow> as_raw (p_appContext (ctxResponse q));
     let (fs, h) = WEB_fopen e name ''wb'' (g_FileOpened g);
     Some (q\<lparr>q_fileHandle := h\<rparr>, set_files fs g, if h = None then 0 else 1) }"

definition Upload_GetFreeSize :: "int \<Rightarrow> int" where
  "Upload_GetFreeSize askForSize = askForSize"

definition Upload_Received :: "REQUEST_CONTEXT \<Rightarrow> bytes \<Rightarrow> int" where
  "Upload_Received q pData = (if WEB_fwrite (q_fileHandle q) pData > 0 then int (length pData) else 0)"

definition Upload_AllReceived :: "REQUEST_CONTEXT \<Rightarrow> glob \<Rightarrow> REQUEST_CONTEXT \<times> glob" where
  "Upload_AllReceived q g = (q, set_files (WEB_fclose (q_fileHandle q) (g_FileOpened g)) g)"

text \<open>\<open>line\<close> is the receive buffer from the start of the header line on.\<close>

definition Upload_OnHeaderReceived :: "bytes \<Rightarrow> REQUEST_CONTEXT \<Rightarrow> (bytes \<times> REQUEST_CONTEXT \<times> int) option" where
  "Upload_OnHeaderReceived line q = do {
     header_line \<leftarrow> cstr_at line 0;
     if Strnicmp header_line ''X-File-Name:'' 12 = 0 then do {
       let j = value_offset 0 False header_line;
       (d, len) \<leftarrow> DecodeB64 (drop j line);
       line \<leftarrow> poke (take j line @ d) (int (len + j)) NUL;
       name \<leftarrow> cstr_at line (int j);
       name \<leftarrow> fit MAX_APP_CONTEXT_SIZE (UPLOAD_TO_FOLDER @ name);
       Some (line, upd_resp (\<lambda>r. r\<lparr>p_appContext := App_Raw name\<rparr>) q, 1) }
     else Some (line, q, 0) }"

definition Upload_OnCancel :: "REQUEST_CONTEXT \<Rightarrow> REQUEST_CONTEXT" where
  "Upload_OnCancel q = q"

definition Upload_OnHeadersReceived :: "env \<Rightarrow> REQUEST_CONTEXT \<Rightarrow> glob \<Rightarrow> (REQUEST_CONTEXT \<times> glob) option" where
  "Upload_OnHeadersReceived e q g =
     (if q_requestMethod q = METHOD_GET then Some (q\<lparr>q_result := - 404\<rparr>, g)
      else if q_requestMethod q = METHOD_POST then
        (if Dev_IsBusy then Some (q\<lparr>q_result := - 500\<rparr>, g)
         else do {
           (q, g, ok) \<leftarrow> Upload_Start e q g;
           Some (if ok \<le> 0 then q\<lparr>q_result := - 500\<rparr> else q, g) })
      else Some (q, g))"

definition Upload_OnContentReceived :: "bytes \<Rightarrow> int \<Rightarrow> REQUEST_CONTEXT \<Rightarrow> glob \<Rightarrow> (REQUEST_CONTEXT \<times> glob \<times> int) option" where
  "Upload_OnContentReceived buffer size' q g =
     (let maxToConsume = min (q_contentLength q - q_contentReceived q) size' in
      if maxToConsume > 0 \<and> q_requestMethod q = METHOD_POST then
        (case IsKilling q 1 of (q, killing) \<Rightarrow>
         if killing \<noteq> 0 then Some (q\<lparr>q_result := - 500\<rparr>, g, 0)
         else
           (let nFree = Upload_GetFreeSize maxToConsume in
            if nFree > 0 then
              (if int (length buffer) < nFree then None
               else
                 (let eaten = Upload_Received q (take (nat nFree) buffer) in
                  Some (if eaten > 0 then (q\<lparr>q_tLastReceived := tick_stamp (g_now g)\<rparr>, g, eaten) else (q, g, 0))))
            else Some (q\<lparr>q_tLastReceived := tick_stamp (g_now g)\<rparr>, g, 0)))
      else Some (q, g, 0))"

end
