(* ===== verification/Cgi_Ssdp.thy ===== *)
theory Cgi_Ssdp
  imports Web
begin

text \<open>
  \<^verbatim>\<open>httpd/cgi/cgi_ssdp.c\<close>: the UPnP description of the device, sent as a sequence of
  pieces. Each of the seventeen steps of the source tests whether 128 bytes are left and, if
  so, appends its piece and counts the stage; here the steps are the list of the pieces.
\<close>

definition SSDP_SendHeader :: "env \<Rightarrow> REQUEST_CONTEXT \<Rightarrow> REQUEST_CONTEXT option" where
  "SSDP_SendHeader e q =
     (if q_requestMethod q = METHOD_GET then do {
        sb \<leftarrow> strcpy_at (p_sendBuffer (ctxResponse q)) 0
          (header_chunked ''200 OK'' (''text/xml; charset='' @ [DQ] @ ''utf-8'' @ [DQ]) header_nocache (CONNECTION_HEADER e));
        Some (upd_resp (\<lambda>r. r\<lparr>p_sendBuffer := sb\<rparr>) q) }
      else Some q)"

definition xml_url :: "glob \<Rightarrow> string" where
  "xml_url g = (if g_pcbListen443 g \<noteq> None then ''https://'' else ''http://'') @ dotted (GetMyIP g)"

definition ssdp_pieces :: "glob \<Rightarrow> string list" where
  "ssdp_pieces g = [
     ''<?xml version='' @ [DQ] @ ''1.0'' @ [DQ] @ ''?>'' @ CRLF,
     ''<root xmlns='' @ [DQ] @ ''urn:schemas-upnp-org:device-1-0'' @ [DQ] @ ''>'' @ CRLF,
     ''<specVersion><major>1</major><minor>0</minor></specVersion>'' @ CRLF,
     ''<URLBase>'' @ xml_url g @ ''</URLBase>'' @ CRLF,
     ''<device>'' @ CRLF,
     ''<deviceType>urn:schemas-upnp-org:device:Basic:1</deviceType>'' @ CRLF,
     ''<friendlyName>'' @ GetDeviceName @ ''</friendlyName>'' @ CRLF,
     ''<presentationURL>'' @ xml_url g @ ''</presentationURL>'' @ CRLF,
     ''<manufacturer>'' @ GetVendor @ ''</manufacturer>'' @ CRLF,
     ''<manufacturerURL>'' @ GetVendorURL @ ''</manufacturerURL>'' @ CRLF,
     ''<modelDescription>'' @ GetModel @ ''</modelDescription>'' @ CRLF,
     ''<modelName>'' @ GetModel @ ''</modelName>'' @ CRLF,
     ''<modelNumber>'' @ GetDeviceName @ '' ('' @ GetDeviceVersion @ '')</modelNumber>'' @ CRLF,
     ''<modelURL>'' @ GetModelURL @ ''</modelURL>'' @ CRLF,
     ''<serialNumber>'' @ GetDeviceSN @ ''</serialNumber>'' @ CRLF,
     ''<UDN>uuid:'' @ GetDeviceUUID @ ''</UDN>'' @ CRLF,
     ''</device>'' @ CRLF @ ''</root>'' @ CRLF]"

text \<open>The steps from a stage on; \<open>False\<close> in the result is the jump to \<^verbatim>\<open>block_end\<close>.\<close>

fun ssdp_emit :: "int \<Rightarrow> string list \<Rightarrow> u32 \<Rightarrow> bytes \<Rightarrow> u32 \<times> bytes" where
  "ssdp_emit maxSize [] stage out = (STAGE_END, out)"
| "ssdp_emit maxSize (p # ps) stage out =
     (if int (length out) > maxSize - 128 then (stage, out)
      else ssdp_emit maxSize ps (stage + 1) (out @ p))"

definition SSDP_Sending :: "REQUEST_CONTEXT \<Rightarrow> glob \<Rightarrow> int \<Rightarrow> (REQUEST_CONTEXT \<times> glob \<times> bytes \<times> int) option" where
  "SSDP_Sending q g maxSize =
     (if q_requestMethod q = METHOD_GET then
        (let stage = p_dwOperStage (ctxResponse q) in
         if stage = STAGE_END then Some (q, g, [NUL], - 1)
         else (case ssdp_emit maxSize (drop (unat stage) (ssdp_pieces g)) stage [] of (stage, out) \<Rightarrow>
           Some (upd_resp (\<lambda>r. r\<lparr>p_dwOperStage := stage\<rparr>) q, g, out @ [NUL], int (length out))))
      else Some (q, g, [], 0))"

section \<open>Correctness\<close>

lemma ssdp_pieces_length: "length (ssdp_pieces g) = 17"
  by (simp add: ssdp_pieces_def)

lemma ssdp_piece_short: "p \<in> set (ssdp_pieces g) \<Longrightarrow> length p < 100"
  using length_dotted [of "GetMyIP g"]
  by (auto simp: ssdp_pieces_def xml_url_def GetDeviceName_def GetVendor_def GetVendorURL_def GetModel_def
      GetModelURL_def GetDeviceVersion_def GetDeviceSN_def GetDeviceUUID_def CRLF_def)

text \<open>What is emitted and what is left to emit make up the pieces; the stage counts them.\<close>

lemma ssdp_emit_split:
  assumes "ssdp_emit m ps stage out = (stage', out')"
  shows "\<exists>k. k \<le> length ps \<and> out' = out @ concat (take k ps)
    \<and> (if k = length ps then stage' = STAGE_END else stage' = stage + word_of_nat k \<and> m - 128 < int (length out'))"
  using assms
proof (induction ps arbitrary: stage out)
  case (Cons p ps)
  show ?case
  proof (cases "int (length out) > m - 128")
    case True
    with Cons.prems show ?thesis by (intro exI [of _ 0]) auto
  next
    case False
    with Cons.prems have "ssdp_emit m ps (stage + 1) (out @ p) = (stage', out')" by simp
    from Cons.IH [OF this] obtain k where "k \<le> length ps" "out' = (out @ p) @ concat (take k ps)"
      "if k = length ps then stage' = STAGE_END else stage' = stage + 1 + word_of_nat k \<and> m - 128 < int (length out')" by blast
    then show ?thesis by (intro exI [of _ "Suc k"]) (auto simp: add.assoc)
  qed
qed simp

lemma ssdp_emit_bound:
  assumes "ssdp_emit m ps stage out = (stage', out')" and "\<forall>p \<in> set ps. length p < 100" and "int (length out) \<le> m - 28"
  shows "int (length out') \<le> m - 28"
  using assms
proof (induction ps arbitrary: stage out)
  case (Cons p ps)
  then show ?case by (cases "int (length out) > m - 128") (auto intro!: Cons.IH)
qed simp

text \<open>Calling the reader again and again, with the room there is each time, and collecting what it writes.\<close>

fun ssdp_collect :: "int list \<Rightarrow> REQUEST_CONTEXT \<Rightarrow> glob \<Rightarrow> (REQUEST_CONTEXT \<times> glob \<times> bytes) option" where
  "ssdp_collect [] q g = Some (q, g, [])"
| "ssdp_collect (m # ms) q g = do {
     (q, g, out, n) \<leftarrow> SSDP_Sending q g m;
     (q, g, rest) \<leftarrow> ssdp_collect ms q g;
     Some (q, g, take (nat n) out @ rest) }"

text \<open>The stage says how many pieces were sent.\<close>

definition ssdp_sent :: "REQUEST_CONTEXT \<Rightarrow> nat" where
  "ssdp_sent q = (if p_dwOperStage (ctxResponse q) = STAGE_END then 17 else unat (p_dwOperStage (ctxResponse q)))"

definition ssdp_stage_ok :: "REQUEST_CONTEXT \<Rightarrow> bool" where
  "ssdp_stage_ok q \<longleftrightarrow> q_requestMethod q = METHOD_GET
     \<and> (p_dwOperStage (ctxResponse q) = STAGE_END \<or> unat (p_dwOperStage (ctxResponse q)) < 17)"

lemma SSDP_Sending_progress:
  assumes ok: "ssdp_stage_ok q" and k: "ssdp_sent q < 17" and m: "128 \<le> m"
  shows "\<exists>q' out. SSDP_Sending q g m = Some (q', g, out @ [NUL], int (length out)) \<and> ssdp_stage_ok q'
    \<and> ssdp_sent q < ssdp_sent q' \<and> ssdp_sent q' \<le> 17 \<and> int (length out) \<le> m - 28
    \<and> out = concat (take (ssdp_sent q' - ssdp_sent q) (drop (ssdp_sent q) (ssdp_pieces g)))"
proof -
  let ?s = "p_dwOperStage (ctxResponse q)" and ?ps = "drop (ssdp_sent q) (ssdp_pieces g)"
  have get: "q_requestMethod q = METHOD_GET" using ok by (simp add: ssdp_stage_ok_def)
  have s: "?s \<noteq> STAGE_END" "unat ?s = ssdp_sent q" using k by (auto simp: ssdp_sent_def split: if_splits)
  obtain stage' out where e: "ssdp_emit m ?ps ?s [] = (stage', out)" by (cases "ssdp_emit m ?ps ?s []")
  let ?q = "upd_resp (\<lambda>r. r\<lparr>p_dwOperStage := stage'\<rparr>) q"
  have step: "SSDP_Sending q g m = Some (?q, g, out @ [NUL], int (length out))"
    using get s e by (simp add: SSDP_Sending_def)
  have len: "length ?ps = 17 - ssdp_sent q" by (simp add: ssdp_pieces_length)
  from ssdp_emit_split [OF e] obtain j where j: "j \<le> length ?ps" "out = concat (take j ?ps)"
    "if j = length ?ps then stage' = STAGE_END else stage' = ?s + word_of_nat j \<and> m - 128 < int (length out)" by auto
  have "j \<noteq> 0"
  proof
    assume "j = 0"
    with j(2,3) k m len show False by (simp split: if_splits)
  qed
  moreover have "ssdp_sent ?q = ssdp_sent q + j \<and> ssdp_stage_ok ?q"
  proof (cases "j = length ?ps")
    case True
    then show ?thesis using j(3) len k get by (simp add: ssdp_sent_def ssdp_stage_ok_def upd_resp_def)
  next
    case False
    then have less: "ssdp_sent q + j < 17" using j(1) len by linarith
    have "?s = word_of_nat (ssdp_sent q)" unfolding s(2) [symmetric] by simp
    then have "stage' = word_of_nat (ssdp_sent q + j)" using False j(3) by simp
    then have "unat stage' = ssdp_sent q + j" using less by (simp add: unsigned_of_nat take_bit_nat_eq_self del: of_nat_add)
    moreover from this have "stage' \<noteq> STAGE_END" using less by auto
    ultimately show ?thesis using less get by (simp add: ssdp_sent_def ssdp_stage_ok_def upd_resp_def)
  qed
  moreover have "int (length out) \<le> m - 28"
    using ssdp_emit_bound [OF e] ssdp_piece_short m by (auto dest: in_set_dropD)
  ultimately show ?thesis using step get j len by (intro exI [of _ ?q] exI [of _ out]) auto
qed

lemma SSDP_Sending_end:
  "ssdp_stage_ok q \<Longrightarrow> \<not> ssdp_sent q < 17 \<Longrightarrow> SSDP_Sending q g m = Some (q, g, [NUL], - 1) \<and> ssdp_sent q = 17"
  by (auto simp: SSDP_Sending_def ssdp_stage_ok_def ssdp_sent_def split: if_splits)

lemma ssdp_collect_rest:
  assumes "ssdp_stage_ok q" and "\<forall>m \<in> set ms. 128 \<le> m"
  shows "\<exists>q' out. ssdp_collect ms q g = Some (q', g, out) \<and> ssdp_stage_ok q' \<and> min (ssdp_sent q + length ms) 17 \<le> ssdp_sent q'
    \<and> ssdp_sent q' \<le> 17 \<and> concat (drop (ssdp_sent q) (ssdp_pieces g)) = out @ concat (drop (ssdp_sent q') (ssdp_pieces g))"
  using assms
proof (induction ms arbitrary: q)
  case Nil
  then show ?case by (auto simp: ssdp_sent_def ssdp_stage_ok_def)
next
  case (Cons m ms)
  show ?case
  proof (cases "ssdp_sent q < 17")
    case True
    from SSDP_Sending_progress [OF Cons.prems(1) True, of m g] Cons.prems(2) obtain q1 out where 1:
      "SSDP_Sending q g m = Some (q1, g, out @ [NUL], int (length out))" "ssdp_stage_ok q1"
      "ssdp_sent q < ssdp_sent q1" "ssdp_sent q1 \<le> 17"
      "out = concat (take (ssdp_sent q1 - ssdp_sent q) (drop (ssdp_sent q) (ssdp_pieces g)))" by auto
    from Cons.IH [OF 1(2)] Cons.prems(2) obtain q' rest where 2: "ssdp_collect ms q1 g = Some (q', g, rest)" "ssdp_stage_ok q'"
      "min (ssdp_sent q1 + length ms) 17 \<le> ssdp_sent q'" "ssdp_sent q' \<le> 17"
      "concat (drop (ssdp_sent q1) (ssdp_pieces g)) = rest @ concat (drop (ssdp_sent q') (ssdp_pieces g))" by auto
    have "concat (drop (ssdp_sent q) (ssdp_pieces g)) = out @ concat (drop (ssdp_sent q1) (ssdp_pieces g))"
    proof -
      let ?d = "ssdp_sent q1 - ssdp_sent q" and ?l = "drop (ssdp_sent q) (ssdp_pieces g)"
      have "concat ?l = concat (take ?d ?l) @ concat (drop ?d ?l)" by (metis append_take_drop_id concat_append)
      then show ?thesis using 1(3,5) by simp
    qed
    with 1 2 show ?thesis by auto
  next
    case False
    from SSDP_Sending_end [OF Cons.prems(1) False] have e: "SSDP_Sending q g m = Some (q, g, [NUL], - 1)" "ssdp_sent q = 17" by auto
    from Cons.IH [OF Cons.prems(1)] Cons.prems(2) obtain q' rest where "ssdp_collect ms q g = Some (q', g, rest)" "ssdp_stage_ok q'"
      "min (ssdp_sent q + length ms) 17 \<le> ssdp_sent q'" "ssdp_sent q' \<le> 17"
      "concat (drop (ssdp_sent q) (ssdp_pieces g)) = rest @ concat (drop (ssdp_sent q') (ssdp_pieces g))" by auto
    with e show ?thesis by auto
  qed
qed

section \<open>Properties\<close>

text \<open>
  C37: The UPnP description is streamed completely and in order. However the room of each call
  varies, as long as it is at least 128 bytes, the blocks written by at most seventeen calls
  are together exactly the description, and the reader then reports its end.
\<close>

theorem ssdp_description_streamed:
  assumes "q_requestMethod q = METHOD_GET" and "p_dwOperStage (ctxResponse q) = 0"
    and "\<forall>m \<in> set ms. 128 \<le> m" and "17 \<le> length ms"
  shows "\<exists>q'. ssdp_collect ms q g = Some (q', g, concat (ssdp_pieces g)) \<and> SSDP_Sending q' g m = Some (q', g, [NUL], - 1)"
proof -
  have q: "ssdp_stage_ok q" "ssdp_sent q = 0" using assms(1,2) by (simp_all add: ssdp_stage_ok_def ssdp_sent_def)
  from ssdp_collect_rest [OF q(1) assms(3), of g] q(2) assms(4) obtain q' out where
    c: "ssdp_collect ms q g = Some (q', g, out)" "ssdp_stage_ok q'" "ssdp_sent q' = 17" "concat (ssdp_pieces g) = out" 
    by (auto simp: ssdp_pieces_length)
  with c SSDP_Sending_end [of q' g m] show ?thesis by auto
qed

theorem ssdp_description_streamed_witness:
  "\<exists>q'. ssdp_collect (replicate 17 200) (zero_context\<lparr>q_requestMethod := METHOD_GET\<rparr>) sample_glob
     = Some (q', sample_glob, concat (ssdp_pieces sample_glob))"
  using ssdp_description_streamed [of "zero_context\<lparr>q_requestMethod := METHOD_GET\<rparr>" "replicate 17 200" sample_glob]
  by (auto simp: zero_context_def zero_response_def)

text \<open>
  No block of the description overruns the room the framing gives it: a call with room for
  at least 128 bytes writes at most 27 bytes less than that, the terminating NUL included,
  and moves the stage on.
\<close>

theorem ssdp_block_fits:
  assumes "SSDP_Sending q g m = Some (q', g', out, n)" and "q_requestMethod q = METHOD_GET"
    and "unat (p_dwOperStage (ctxResponse q)) < 17" and "128 \<le> m"
  shows "int (length out) \<le> m - 27 \<and> n = int (length out) - 1 \<and> last out = NUL \<and> ssdp_sent q < ssdp_sent q'"
proof -
  have "ssdp_stage_ok q" "ssdp_sent q < 17" using assms(2,3) by (auto simp: ssdp_stage_ok_def ssdp_sent_def)
  from SSDP_Sending_progress [OF this assms(4), of g] assms(1) show ?thesis by auto
qed

theorem ssdp_block_fits_witness:
  "\<exists>q' g' out n. SSDP_Sending (zero_context\<lparr>q_requestMethod := METHOD_GET\<rparr>) sample_glob 244 = Some (q', g', out, n) \<and> int (length out) \<le> 217"
proof -
  let ?q = "zero_context\<lparr>q_requestMethod := METHOD_GET\<rparr>"
  have "SSDP_Sending ?q sample_glob 244 \<noteq> None"
    by (auto simp: SSDP_Sending_def Let_def zero_context_def split: prod.splits)
  then obtain q' g' out n where r: "SSDP_Sending ?q sample_glob 244 = Some (q', g', out, n)" by auto
  from ssdp_block_fits [OF this] have "int (length out) \<le> 244 - 27" by (simp add: zero_context_def zero_response_def)
  with r show ?thesis by auto
qed

end
