(* ===== verification/Cgi.thy ===== *)
theory Cgi
  imports Cgi_Auth Cgi_Form Cgi_Files Cgi_Upload Cgi_Ssdp
begin

text \<open>
  \<^verbatim>\<open>httpd/http_cgi.c\<close> and \<^verbatim>\<open>httpd/cgi/cgi_web.c\<close>: the table that maps paths to handlers,
  the call of a handler's function at each stage of a request, the response headers and the
  framing of the content. The struct of function pointers of each handler is a case over the
  handlers: a case that leaves the state alone is a NULL pointer of the struct.
\<close>

section \<open>The table of handlers\<close>

text \<open>A path is cut at its first star, which becomes the wildcard option.\<close>

definition CGI_Append :: "cgi_id \<Rightarrow> string \<Rightarrow> u32 \<Rightarrow> CGI_Mapping list \<Rightarrow> CGI_Mapping list" where
  "CGI_Append newMapping ovwPath ovwOptions ms =
     (let path = take 63 ovwPath; prefix = takeWhile (\<lambda>c. c \<noteq> CHR ''*'') path in
      ms @ [\<lparr>m_id = newMapping, m_path = prefix,
             m_optionsAllowed = (if CHR ''*'' \<in> set path then ovwOptions OR CGI_OPT_PREFIX_WILDCARD else ovwOptions)\<rparr>])"

definition CGI_SetupMapping :: "CGI_Mapping list \<Rightarrow> CGI_Mapping list" where
  "CGI_SetupMapping ms =
     (let ms = CGI_Append g_cgiSSDP ''/upnp_device.xml'' (CGI_OPT_GET_ENABLED OR CGI_OPT_CHUNK_ENABLED) ms;
          ms = CGI_Append g_cgiAuth ''/auth/*'' (CGI_OPT_GET_ENABLED OR CGI_OPT_POST_ENABLED) ms;
          ms = CGI_Append g_cgiForm ''/app/form.shtml'' (CGI_OPT_AUTH_REQUIRED OR CGI_OPT_GET_ENABLED OR CGI_OPT_POST_ENABLED) ms;
          ms = CGI_Append g_cgiFiles ''/api/files.cgi'' (CGI_OPT_AUTH_REQUIRED OR CGI_OPT_GET_ENABLED OR CGI_OPT_CHUNK_ENABLED) ms;
          ms = CGI_Append g_cgiUpload ''/api/upload.cgi'' (CGI_OPT_AUTH_REQUIRED OR CGI_OPT_POST_ENABLED) ms
      in CGI_Append g_cgiWebApp ''/app/*'' (CGI_OPT_AUTH_REQUIRED OR CGI_OPT_GET_ENABLED) ms)"

definition mapping_matches :: "string \<Rightarrow> CGI_Mapping \<Rightarrow> bool" where
  "mapping_matches path m \<longleftrightarrow>
     (if m_optionsAllowed m AND CGI_OPT_PREFIX_WILDCARD \<noteq> 0
      then length path \<ge> length (m_path m) \<and> Strnicmp path (m_path m) (length (m_path m)) = 0
      else length path = length (m_path m) \<and> Strnicmp path (m_path m) (length (m_path m)) = 0)"

definition CGI_SetCgiHandler :: "REQUEST_CONTEXT \<Rightarrow> glob \<Rightarrow> REQUEST_CONTEXT" where
  "CGI_SetCgiHandler q g =
     (case List.find (mapping_matches (cstr (q_requestPath q))) (g_cgiMapping g) of
        Some m \<Rightarrow> q\<lparr>q_handler := Some (m_id m), q_options := m_optionsAllowed m\<rparr>
      | None \<Rightarrow> q\<lparr>q_handler := None\<rparr>)"

section \<open>The functions of the handlers\<close>

fun handler_OnHeaderReceived :: "cgi_id \<Rightarrow> bytes \<Rightarrow> REQUEST_CONTEXT \<Rightarrow> (bytes \<times> REQUEST_CONTEXT \<times> int) option" where
  "handler_OnHeaderReceived g_cgiUpload line q = Upload_OnHeaderReceived line q"
| "handler_OnHeaderReceived _ line q = Some (line, q, 0)"

fun handler_OnHeadersReceived :: "env \<Rightarrow> cgi_id \<Rightarrow> REQUEST_CONTEXT \<Rightarrow> glob \<Rightarrow> (REQUEST_CONTEXT \<times> glob) option" where
  "handler_OnHeadersReceived e g_cgiAuth q g = Some (Auth_OnHeaders q, g)"
| "handler_OnHeadersReceived e g_cgiForm q g = Some (Form_OnHeadersReceived q g)"
| "handler_OnHeadersReceived e g_cgiUpload q g = Upload_OnHeadersReceived e q g"
| "handler_OnHeadersReceived e _ q g = Some (q, g)"

fun handler_OnContentReceived :: "cgi_id \<Rightarrow> bytes \<Rightarrow> int \<Rightarrow> REQUEST_CONTEXT \<Rightarrow> glob \<Rightarrow> (REQUEST_CONTEXT \<times> glob \<times> int) option" where
  "handler_OnContentReceived g_cgiAuth buffer sz q g = map_option (\<lambda>(q, n). (q, g, n)) (Auth_OnPostData buffer sz q)"
| "handler_OnContentReceived g_cgiForm buffer sz q g = WEB_OnFormReceived buffer sz q g"
| "handler_OnContentReceived g_cgiUpload buffer sz q g = Upload_OnContentReceived buffer sz q g"
| "handler_OnContentReceived _ buffer sz q g = Some (q, g, 0)"

fun handler_OnRequestReceived :: "env \<Rightarrow> cgi_id \<Rightarrow> REQUEST_CONTEXT \<Rightarrow> glob \<Rightarrow> (REQUEST_CONTEXT \<times> glob) option" where
  "handler_OnRequestReceived e g_cgiSSDP q g = Some (q, g)"
| "handler_OnRequestReceived e g_cgiAuth q g = Auth_OnRequestReceived e q g"
| "handler_OnRequestReceived e g_cgiForm q g = Form_OnRequestReceived e q g"
| "handler_OnRequestReceived e g_cgiFiles q g = Files_OnRequestReceived q g"
| "handler_OnRequestReceived e g_cgiUpload q g = Some (Upload_AllReceived q g)"
| "handler_OnRequestReceived e g_cgiWebApp q g = WEB_RequestReceived e q g"

fun handler_SetResponseHeaders :: "env \<Rightarrow> cgi_id \<Rightarrow> string \<Rightarrow> REQUEST_CONTEXT \<Rightarrow> glob \<Rightarrow> (REQUEST_CONTEXT \<times> glob) option" where
  "handler_SetResponseHeaders e g_cgiSSDP code q g = map_option (\<lambda>q. (q, g)) (SSDP_SendHeader e q)"
| "handler_SetResponseHeaders e g_cgiAuth code q g = Auth_SetResponseHeaders e code q g"
| "handler_SetResponseHeaders e g_cgiForm code q g = Form_SetResponseHeaders e code q g"
| "handler_SetResponseHeaders e g_cgiFiles code q g = map_option (\<lambda>q. (q, g)) (Files_SetResponseHeader e code q)"
| "handler_SetResponseHeaders e g_cgiUpload code q g = Some (q, g)"
| "handler_SetResponseHeaders e g_cgiWebApp code q g = WEB_AppendHeaders e code q g"

text \<open>\<open>None\<close> of the inner option is a handler without a content reader.\<close>

fun handler_ReadContent :: "env \<Rightarrow> cgi_id \<Rightarrow> (REQUEST_CONTEXT \<Rightarrow> glob \<Rightarrow> int \<Rightarrow> (REQUEST_CONTEXT \<times> glob \<times> bytes \<times> int) option) option" where
  "handler_ReadContent e g_cgiSSDP = Some SSDP_Sending"
| "handler_ReadContent e g_cgiAuth = Some (WEB_ReadContent e)"
| "handler_ReadContent e g_cgiForm = Some (WEB_ReadContent e)"
| "handler_ReadContent e g_cgiFiles = Some Files_ReadOneFileInfo"
| "handler_ReadContent e g_cgiUpload = None"
| "handler_ReadContent e g_cgiWebApp = Some (WEB_ReadContent e)"

fun handler_OnAllSent :: "cgi_id \<Rightarrow> REQUEST_CONTEXT \<Rightarrow> glob \<Rightarrow> (REQUEST_CONTEXT \<times> glob) option" where
  "handler_OnAllSent g_cgiAuth q g = WEB_AllSent q g"
| "handler_OnAllSent g_cgiForm q g = Form_AllSent q g"
| "handler_OnAllSent g_cgiWebApp q g = WEB_AllSent q g"
| "handler_OnAllSent _ q g = Some (q, g)"

fun handler_OnFinished :: "cgi_id \<Rightarrow> REQUEST_CONTEXT \<Rightarrow> glob \<Rightarrow> (REQUEST_CONTEXT \<times> glob) option" where
  "handler_OnFinished g_cgiAuth q g = WEB_Finished q g"
| "handler_OnFinished g_cgiWebApp q g = WEB_Finished q g"
| "handler_OnFinished _ q g = Some (q, g)"

fun handler_OnCancel :: "cgi_id \<Rightarrow> REQUEST_CONTEXT \<Rightarrow> REQUEST_CONTEXT" where
  "handler_OnCancel g_cgiUpload q = Upload_OnCancel q"
| "handler_OnCancel _ q = q"

section \<open>Stages of a request\<close>

definition CGI_Cancel :: "REQUEST_CONTEXT \<Rightarrow> REQUEST_CONTEXT" where
  "CGI_Cancel q = (case q_handler q of None \<Rightarrow> q | Some h \<Rightarrow> handler_OnCancel h q)"

definition CGI_Finish :: "REQUEST_CONTEXT \<Rightarrow> glob \<Rightarrow> (REQUEST_CONTEXT \<times> glob) option" where
  "CGI_Finish q g = (case q_handler q of None \<Rightarrow> Some (q, g) | Some h \<Rightarrow> handler_OnFinished h q g)"

text \<open>The header line is given as the receive buffer from its start on.\<close>

definition CGI_HeaderReceived :: "bytes \<Rightarrow> REQUEST_CONTEXT \<Rightarrow> (bytes \<times> REQUEST_CONTEXT \<times> int) option" where
  "CGI_HeaderReceived line q =
     (case q_handler q of None \<Rightarrow> Some (line, q, 0) | Some h \<Rightarrow> handler_OnHeaderReceived h line q)"

definition redirect_https :: "REQUEST_CONTEXT \<Rightarrow> glob \<Rightarrow> REQUEST_CONTEXT" where
  "redirect_https q g = upd_resp (\<lambda>r. r\<lparr>p_authorized := 0\<rparr>)
     (q\<lparr>q_responsePath := ''https://'' @ dotted (GetMyIP g) @ ''/'', q_result := CODE_REDIRECT\<rparr>)"

text \<open>A method that the handler's options allow, with the bit that allows it.\<close>

definition method_allowed :: "REQUEST_CONTEXT \<Rightarrow> bool" where
  "method_allowed q \<longleftrightarrow>
     (q_requestMethod q = METHOD_GET \<and> q_options q AND CGI_OPT_GET_ENABLED \<noteq> 0)
     \<or> (q_requestMethod q = METHOD_POST \<and> q_options q AND CGI_OPT_POST_ENABLED \<noteq> 0)"

definition CGI_HeadersReceived :: "env \<Rightarrow> REQUEST_CONTEXT \<Rightarrow> glob \<Rightarrow> (REQUEST_CONTEXT \<times> glob) option" where
  "CGI_HeadersReceived e q g =
     (if q_handler q \<noteq> None \<and> q_options q AND CGI_OPT_AUTH_REQUIRED \<noteq> 0 \<and> p_authorized (ctxResponse q) \<noteq> CODE_OK
      then Some (q\<lparr>q_result := p_authorized (ctxResponse q)\<rparr>, g)
      else if q_handler q \<noteq> None \<and> method_allowed q
      then handler_OnHeadersReceived e (the (q_handler q)) q g
      else if q_result q < 0 then Some (q, g)
      else if e_tls e \<and> g_httpsListening g > 0 \<and> q_https q = 0
        \<and> Strnicmp (cstr (q_requestPath q)) ''upnp_device.xml'' 15 \<noteq> 0
      then Some (redirect_https q g, g)
      else if SessionTypes (cstr (q_extension q)) > 0 \<and> q_handler q = None
      then Some (upd_resp (\<lambda>r. r\<lparr>p_authorized := 0\<rparr>)
                   (q\<lparr>q_responsePath := WEB_DEFAULT_PAGE, q_result := CODE_REDIRECT\<rparr>), g)
      else if q_requestMethod q = METHOD_GET then Some (q\<lparr>q_result := - 404\<rparr>, g)
      else Some (q\<lparr>q_result := - 500\<rparr>, g))"

definition CGI_ContentReceived :: "bytes \<Rightarrow> int \<Rightarrow> REQUEST_CONTEXT \<Rightarrow> glob \<Rightarrow> (REQUEST_CONTEXT \<times> glob \<times> int) option" where
  "CGI_ContentReceived buffer sz q g =
     (case q_handler q of None \<Rightarrow> Some (q, g, 0) | Some h \<Rightarrow> handler_OnContentReceived h buffer sz q g)"

definition CGI_RequestReceived :: "env \<Rightarrow> REQUEST_CONTEXT \<Rightarrow> glob \<Rightarrow> (REQUEST_CONTEXT \<times> glob) option" where
  "CGI_RequestReceived e q g =
     (case q_handler q of None \<Rightarrow> Some (q, g) | Some h \<Rightarrow> handler_OnRequestReceived e h q g)"

section \<open>Response headers\<close>

definition redirect_body1 :: string where
  "redirect_body1 = ''<html><head/><body><script>location.href='' @ [CHR 0x27]"

definition redirect_body2 :: string where
  "redirect_body2 = [CHR 0x27] @ '';</script></body></html>''"

definition redirect_body :: "string \<Rightarrow> string" where
  "redirect_body path = redirect_body1 @ path @ redirect_body2"

definition date_header :: "env \<Rightarrow> string" where
  "date_header e = ''Date: '' @ take 30 (e_clock e) @ CRLF"

definition CGI_SetResponseHeaders :: "env \<Rightarrow> string \<Rightarrow> REQUEST_CONTEXT \<Rightarrow> glob \<Rightarrow> (REQUEST_CONTEXT \<times> glob) option" where
  "CGI_SetResponseHeaders e HttpCodeInfo q g = do {
     sb \<leftarrow> poke (p_sendBuffer (ctxResponse q)) 0 NUL;
     sb \<leftarrow> (if q_result q = CODE_REDIRECT
            then strcpy_at sb 0 (header_generic ''200 OK'' ''text/html''
                   (int (length redirect_body1 + length redirect_body2 + length (q_responsePath q))) ''close'')
            else Some sb);
     let q = upd_resp (\<lambda>r. r\<lparr>p_sendBuffer := sb\<rparr>) q;
     (q, g) \<leftarrow> (case q_handler q of None \<Rightarrow> Some (q, g) | Some h \<Rightarrow> handler_SetResponseHeaders e h HttpCodeInfo q g);
     let sb = p_sendBuffer (ctxResponse q);
     sb \<leftarrow> (if cstr sb = [] then strcpy_at sb 0 (header_generic HttpCodeInfo ''text/html'' 0 (CONNECTION_HEADER e)) else Some sb);
     sb \<leftarrow> strcat sb (date_header e);
     sb \<leftarrow> strcat sb ''Server: '';
     sb \<leftarrow> strcat sb SERVER_HEADER;
     sb \<leftarrow> strcat sb CRLF;
     sb \<leftarrow> strcat sb CRLF;
     sb \<leftarrow> (if q_result q = CODE_REDIRECT
            then do {
              sb \<leftarrow> strcat sb redirect_body1;
              sb \<leftarrow> strcat sb (q_responsePath q);
              strcat sb redirect_body2 }
            else Some sb);
     Some (upd_resp (\<lambda>r. r\<lparr>p_sendBuffer := sb, p_bytesLeft := int (length (cstr sb))\<rparr>) q, g) }"

section \<open>Content and its framing\<close>

definition chunk_prefix :: "bool \<Rightarrow> int \<Rightarrow> string" where
  "chunk_prefix first sz = (if first then [] else CRLF) @ fmt_X (nat sz) @ CRLF"

definition last_chunk :: string where
  "last_chunk = CRLF @ ''0'' @ CRLF @ CRLF"

text \<open>
  Framing one block: the content stands 10 bytes behind \<open>pReadTo\<close>; its length is put before
  it, the last-chunk mark behind it when the stage is at its end, and all is moved down.
\<close>

definition frame_chunk :: "bytes \<Rightarrow> int \<Rightarrow> bool \<Rightarrow> bool \<Rightarrow> int \<Rightarrow> (bytes \<times> int) option" where
  "frame_chunk sb pReadTo first fin size' = do {
     let szSize = chunk_prefix first size';
     let prefixLen = int (length szSize);
     sb \<leftarrow> blit sb (pReadTo + 10 - prefixLen) szSize;
     let size' = size' + prefixLen;
     (sb, size') \<leftarrow> (if fin then do {
          sb \<leftarrow> blit sb (pReadTo + 10 - prefixLen + size') last_chunk;
          Some (sb, size' + 7) }
        else Some (sb, size'));
     sb \<leftarrow> memmove sb pReadTo (pReadTo + 10 - prefixLen) size';
     Some (sb, size') }"

definition CGI_LoadContentToSend :: "env \<Rightarrow> proc_caller \<Rightarrow> REQUEST_CONTEXT \<Rightarrow> glob \<Rightarrow> (REQUEST_CONTEXT \<times> glob \<times> int) option" where
  "CGI_LoadContentToSend e caller q g =
     (let r = ctxResponse q in
      if (q_requestMethod q = METHOD_GET \<or> q_requestMethod q = METHOD_POST)
        \<and> p_dwOperStage r \<ge> STAGE_END \<and> caller = HTTP_PROC_CALLER_SENT \<and> p_totalSent r \<ge> p_total2Send r
      then (case q_handler q of None \<Rightarrow> None
            | Some h \<Rightarrow> do { (q, g) \<leftarrow> handler_OnAllSent h q g; Some (q, g, - 1) })
      else case Option.bind (q_handler q) (handler_ReadContent e) of
        None \<Rightarrow> Some (q, g, - 1)
      | Some ReadContent \<Rightarrow>
          (let pReadTo = p_bytesLeft r; nFreeSize = p_sendMaxBlock r - p_bytesLeft r - 2 in
           if p_dwOperStage r \<ge> STAGE_END then Some (q, g, 0)
           else if q_options q AND CGI_OPT_CHUNK_ENABLED = 0 then do {
             (q, g, out, sz) \<leftarrow> ReadContent q g nFreeSize;
             sb \<leftarrow> blit (p_sendBuffer (ctxResponse q)) pReadTo out;
             let q = upd_resp (\<lambda>r. r\<lparr>p_sendBuffer := sb\<rparr>) q;
             Some (if sz < 0 then (upd_resp (\<lambda>r. r\<lparr>p_dwOperStage := STAGE_END\<rparr>) q, g, - 1)
                   else (upd_resp (\<lambda>r. r\<lparr>p_bytesLeft := p_bytesLeft r + sz\<rparr>) q, g, if sz = 0 then 0 else 1)) }
           else do {
             let first = (p_dwOperStage r = 0 \<and> p_dwOperIndex r = 0);
             (q, g, out, sz) \<leftarrow> ReadContent q g (nFreeSize - 10);
             sb \<leftarrow> blit (p_sendBuffer (ctxResponse q)) (pReadTo + 10) out;
             if sz > 0 then do {
               (sb, sz) \<leftarrow> frame_chunk sb pReadTo first (p_dwOperStage (ctxResponse q) = STAGE_END) sz;
               Some (upd_resp (\<lambda>r. r\<lparr>p_sendBuffer := sb, p_bytesLeft := p_bytesLeft r + sz\<rparr>) q, g, 1) }
             else Some (upd_resp (\<lambda>r. r\<lparr>p_sendBuffer := sb\<rparr>) q, g, if sz < 0 then - 1 else 0) }))"

section \<open>Correctness\<close>

lemma CGI_Append_eq:
  "length p < 64 \<Longrightarrow> CGI_Append h p opts ms =
     ms @ [\<lparr>m_id = h, m_path = takeWhile (\<lambda>c. c \<noteq> CHR ''*'') p,
            m_optionsAllowed = (if CHR ''*'' \<in> set p then opts OR CGI_OPT_PREFIX_WILDCARD else opts)\<rparr>]"
  by (simp add: CGI_Append_def)

text \<open>Equality and prefix without regard to case.\<close>

definition same_path :: "string \<Rightarrow> string \<Rightarrow> bool" where
  "same_path a b \<longleftrightarrow> map toUpper a = map toUpper b"

definition under_path :: "string \<Rightarrow> string \<Rightarrow> bool" where
  "under_path a b \<longleftrightarrow> map toUpper (take (length b) a) = map toUpper b"

lemma mapping_matches_iff:
  "mapping_matches path m \<longleftrightarrow> (if m_optionsAllowed m AND CGI_OPT_PREFIX_WILDCARD \<noteq> 0 then under_path path (m_path m) else same_path path (m_path m))"
proof -
  have "length path \<ge> length (m_path m)" if "map toUpper (take (length (m_path m)) path) = map toUpper (m_path m)"
    using that [THEN map_eq_imp_length_eq] by simp
  moreover have "length path = length (m_path m)" if "map toUpper path = map toUpper (m_path m)"
    using that by (rule map_eq_imp_length_eq)
  ultimately show ?thesis
    by (auto simp: mapping_matches_def Strnicmp_eq_0_iff under_path_def same_path_def)
qed

definition route :: "string \<Rightarrow> (cgi_id \<times> bool) option" where
  "route path =
     (if same_path path ''/upnp_device.xml'' then Some (g_cgiSSDP, False)
      else if under_path path ''/auth/'' then Some (g_cgiAuth, False)
      else if same_path path ''/app/form.shtml'' then Some (g_cgiForm, True)
      else if same_path path ''/api/files.cgi'' then Some (g_cgiFiles, True)
      else if same_path path ''/api/upload.cgi'' then Some (g_cgiUpload, True)
      else if under_path path ''/app/'' then Some (g_cgiWebApp, True)
      else None)"

text \<open>Moving and overwriting a block between two others.\<close>

lemma memmove_block:
  assumes "0 \<le> d" and "nat d \<le> length pre"
  shows "\<exists>tail. memmove (pre @ blk @ post) d (int (length pre)) (int (length blk)) = Some (take (nat d) pre @ blk @ tail)
    \<and> nat d + length tail = length pre + length post"
proof -
  let ?x = "pre @ blk @ post"
  have "memmove ?x d (int (length pre)) (int (length blk)) = blit ?x d blk" by (simp add: memmove_def in_arr_def)
  also have "\<dots> = Some (take (nat d) ?x @ blk @ drop (nat d + length blk) ?x)"
    using assms unfolding blit_eq_Some by (simp add: in_arr_def del: take_append drop_append)
  also have "take (nat d) ?x = take (nat d) pre" using assms by simp
  finally show ?thesis using assms by (intro exI [of _ "drop (nat d + length blk) ?x"]) (simp del: drop_append)
qed

lemma blit_block:
  "length new = length old \<Longrightarrow> blit (pre @ old @ post) (int (length pre)) new = Some (pre @ new @ post)"
  by (simp add: blit_def in_arr_def)

lemma length_chunk_prefix: "0 \<le> n \<Longrightarrow> n < 256 \<Longrightarrow> length (chunk_prefix first n) \<le> 6"
proof -
  assume "0 \<le> n" "n < 256"
  then have "length (fmt_X (nat n)) \<le> 2" unfolding fmt_X_def by (intro length_base_digits_16) (simp_all add: nat_less_iff)
  then show ?thesis by (simp add: chunk_prefix_def CRLF_def)
qed

lemma frame_chunk_blocks:
  assumes p: "length gap = length (chunk_prefix first (int (length content)))" "length pre + length gap = nat d + 10" "0 \<le> d" "nat d \<le> length pre"
    and post: "fin \<longrightarrow> 7 \<le> length post"
    and frame: "frame = chunk_prefix first (int (length content)) @ content @ (if fin then last_chunk else [])"
  shows "\<exists>tail. frame_chunk (pre @ gap @ content @ post) d first fin (int (length content)) = Some (take (nat d) pre @ frame @ tail, int (length frame))
    \<and> nat d + length frame + length tail = length (pre @ gap @ content @ post)"
proof -
  let ?p = "chunk_prefix first (int (length content))"
  have at: "d + 10 - int (length ?p) = int (length pre)" using p by linarith
  have 1: "blit (pre @ gap @ content @ post) (int (length pre)) ?p = Some (pre @ ?p @ content @ post)"
    by (rule blit_block) (simp add: p)
  show ?thesis
  proof (cases fin)
    case True
    have len: "length last_chunk = 7" by (simp add: last_chunk_def CRLF_def)
    from True post have post': "post = take 7 post @ drop 7 post" "length last_chunk = length (take 7 post)" using len by simp_all
    have e: "int (length (pre @ ?p @ content)) = d + 10 - int (length ?p) + (int (length content) + int (length ?p))"
      using p by simp
    have "blit ((pre @ ?p @ content) @ take 7 post @ drop 7 post) (int (length (pre @ ?p @ content))) last_chunk
        = Some ((pre @ ?p @ content) @ last_chunk @ drop 7 post)"
      by (rule blit_block [OF post'(2)])
    then have 2: "blit (pre @ ?p @ content @ post) (d + 10 - int (length ?p) + (int (length content) + int (length ?p))) last_chunk
        = Some (pre @ frame @ drop 7 post)"
      unfolding e post'(1) [symmetric] using frame True by simp
    have f: "int (length frame) = int (length content) + int (length ?p) + 7" using frame True len by simp
    from memmove_block [OF p(3,4), of frame "drop 7 post"] obtain tail where
      3: "memmove (pre @ frame @ drop 7 post) d (int (length pre)) (int (length frame)) = Some (take (nat d) pre @ frame @ tail)"
      "nat d + length tail = length pre + length (drop 7 post)" by auto
    have "frame_chunk (pre @ gap @ content @ post) d first fin (int (length content)) = Some (take (nat d) pre @ frame @ tail, int (length frame))"
      using True 1 2 3(1) unfolding frame_chunk_def Let_def at f by simp
    moreover have "nat d + length frame + length tail = length (pre @ gap @ content @ post)"
      using 3(2) frame True len p(1) post by simp
    ultimately show ?thesis by blast
  next
    case False
    have f: "frame = ?p @ content" "int (length frame) = int (length content) + int (length ?p)" using frame False by simp_all
    from memmove_block [OF p(3,4), of frame post] obtain tail where
      3: "memmove (pre @ frame @ post) d (int (length pre)) (int (length frame)) = Some (take (nat d) pre @ frame @ tail)"
      "nat d + length tail = length pre + length post" by auto
    have "frame_chunk (pre @ gap @ content @ post) d first fin (int (length content)) = Some (take (nat d) pre @ frame @ tail, int (length frame))"
      using False 1 3(1) unfolding frame_chunk_def Let_def at f by (simp add: add.commute)
    moreover have "nat d + length frame + length tail = length (pre @ gap @ content @ post)"
      using 3(2) f p(1) by simp
    ultimately show ?thesis by blast
  qed
qed

lemma frame_chunk_frame:
  assumes "length sb = 256" and "0 \<le> pReadTo" and "0 < n" and "n < 256"
    and "pReadTo + 10 + n + 7 \<le> 256"
    and "content = take (nat n) (drop (nat pReadTo + 10) sb)"
    and "frame = (if first then [] else CRLF) @ fmt_X (nat n) @ CRLF @ content @ (if fin then CRLF @ ''0'' @ CRLF @ CRLF else [])"
  shows "\<exists>sb'. frame_chunk sb pReadTo first fin n = Some (sb', int (length frame)) \<and> length sb' = 256
    \<and> take (nat pReadTo + length frame) sb' = take (nat pReadTo) sb @ frame"
proof -
  let ?p = "chunk_prefix first n"
  have lp: "length ?p \<le> 6" by (rule length_chunk_prefix) (use assms(3,4) in auto)
  define pre gap post where "pre = take (nat pReadTo + 10 - length ?p) sb"
    and "gap = take (length ?p) (drop (nat pReadTo + 10 - length ?p) sb)" and "post = drop (nat pReadTo + 10 + nat n) sb"
  have P: "nat pReadTo + 10 + nat n + 7 \<le> 256" using assms(2,3,5) by linarith
  have len: "int (length content) = n" "length gap = length ?p" "length pre = nat pReadTo + 10 - length ?p" "7 \<le> length post"
    using P lp assms(1,3,6) by (simp_all add: gap_def pre_def post_def)
  have sb: "sb = pre @ gap @ content @ post"
  proof -
    have "drop (nat pReadTo + 10) sb = content @ post"
      unfolding assms(6) post_def by (metis add.commute append_take_drop_id drop_drop)
    moreover have "drop (nat pReadTo + 10) sb = drop (length ?p) (drop (nat pReadTo + 10 - length ?p) sb)" using lp by simp
    then have "gap @ drop (nat pReadTo + 10) sb = drop (nat pReadTo + 10 - length ?p) sb"
      unfolding gap_def by (simp only: append_take_drop_id)
    ultimately show ?thesis unfolding pre_def by simp
  qed
  have frame: "frame = ?p @ content @ (if fin then last_chunk else [])"
    using assms(7) by (simp add: chunk_prefix_def last_chunk_def)
  have d: "nat pReadTo \<le> length pre" "length pre + length gap = nat pReadTo + 10" using len lp by simp_all
  from frame_chunk_blocks [of gap first content pre pReadTo fin post frame] len d assms(2) frame obtain tail where
    "frame_chunk (pre @ gap @ content @ post) pReadTo first fin (int (length content)) = Some (take (nat pReadTo) pre @ frame @ tail, int (length frame))"
    "nat pReadTo + length frame + length tail = length (pre @ gap @ content @ post)" by auto
  then have "frame_chunk sb pReadTo first fin n = Some (take (nat pReadTo) pre @ frame @ tail, int (length frame))"
    "nat pReadTo + length frame + length tail = 256" using assms(1) unfolding sb [symmetric] len(1) by simp_all
  moreover have "take (nat pReadTo) pre = take (nat pReadTo) sb" using d sb by simp
  moreover have "length (take (nat pReadTo) sb) = nat pReadTo" using P assms(1) by simp
  ultimately show ?thesis by (auto simp del: length_take)
qed

text \<open>Appending strings one after the other.\<close>

fun strcats :: "bytes \<Rightarrow> string list \<Rightarrow> bytes option" where
  "strcats a [] = Some a"
| "strcats a (s # ss) = do { a \<leftarrow> strcat a s; strcats a ss }"

lemma strcats_Some:
  "strcats a ss = Some b \<Longrightarrow> nul_free (concat ss) \<Longrightarrow> cstr b = cstr a @ concat ss \<and> length b = length a"
proof (induction ss arbitrary: a)
  case (Cons s ss)
  then obtain c where c: "strcat a s = Some c" "strcats c ss = Some b" by (auto simp: bind_eq_Some_conv)
  with Cons.IH [OF c(2)] Cons.prems(2) cstr_strcat [OF c(1)] length_strcat [OF c(1)] show ?case by simp
qed simp

lemma strcats_defined:
  assumes "length (cstr a) < length a" and "nul_free (concat ss)"
  shows "strcats a ss \<noteq> None \<longleftrightarrow> length (cstr a) + length (concat ss) < length a"
  using assms
proof (induction ss arbitrary: a)
  case (Cons s ss)
  show ?case
  proof (cases "strcat a s")
    case None
    then show ?thesis using strcat_defined [of a s] by simp
  next
    case (Some b)
    then have "cstr b = cstr a @ s" "length b = length a" using Cons.prems cstr_strcat length_strcat by auto
    moreover have "length (cstr a) + length s < length a" using Some strcat_defined [of a s] by simp
    ultimately show ?thesis using Cons.IH [of b] Cons.prems(2) Some by (simp add: add.assoc)
  qed
qed simp

definition redirect_head :: "env \<Rightarrow> string \<Rightarrow> string" where
  "redirect_head e path = header_generic ''200 OK'' ''text/html'' (int (length (redirect_body path))) ''close''
     @ date_header e @ ''Server: '' @ SERVER_HEADER @ CRLF @ CRLF"

lemma redirect_headers_eq:
  assumes "q_result q = CODE_REDIRECT" and "q_handler q = None" and "length (p_sendBuffer (ctxResponse q)) = 256"
  shows "CGI_SetResponseHeaders e code q g = do {
     sb \<leftarrow> strcpy_at ((p_sendBuffer (ctxResponse q))[0 := NUL]) 0
        (header_generic ''200 OK'' ''text/html'' (int (length (redirect_body (q_responsePath q)))) ''close'');
     sb \<leftarrow> (if cstr sb = [] then strcpy_at sb 0 (header_generic code ''text/html'' 0 (CONNECTION_HEADER e)) else Some sb);
     sb \<leftarrow> strcats sb [date_header e, ''Server: '', SERVER_HEADER, CRLF, CRLF, redirect_body1, q_responsePath q, redirect_body2];
     Some (upd_resp (\<lambda>r. r\<lparr>p_sendBuffer := sb, p_bytesLeft := int (length (cstr sb))\<rparr>) q, g) }"
  using assms unfolding CGI_SetResponseHeaders_def
  by (simp add: in_arr_def Let_def redirect_body_def upd_resp_def add.commute add.left_commute comp_def cong: if_cong)

section \<open>Properties\<close>

text \<open>
  C33: The handler of a request is the one its path selects in the table that the server sets
  up: the description, the pages under \<^verbatim>\<open>/auth/\<close>, the settings form, the file list, the upload
  and the application pages, in this order of precedence and without regard to case; a path
  of none of these has no handler. Exactly the handlers other than the first two require a login.
\<close>

theorem routing_table:
  assumes "g_cgiMapping g = CGI_SetupMapping []"
    and "q' = CGI_SetCgiHandler q g"
  shows "q_handler q' = map_option fst (route (cstr (q_requestPath q)))
    \<and> (case route (cstr (q_requestPath q)) of None \<Rightarrow> q_options q' = q_options q
       | Some (_, login) \<Rightarrow> (q_options q' AND CGI_OPT_AUTH_REQUIRED \<noteq> 0) = login)"
proof -
  have t: "CGI_SetupMapping [] = [
     \<lparr>m_id = g_cgiSSDP, m_path = ''/upnp_device.xml'', m_optionsAllowed = 0x00808000\<rparr>,
     \<lparr>m_id = g_cgiAuth, m_path = ''/auth/'', m_optionsAllowed = 0x08C00000\<rparr>,
     \<lparr>m_id = g_cgiForm, m_path = ''/app/form.shtml'', m_optionsAllowed = 0x40C00000\<rparr>,
     \<lparr>m_id = g_cgiFiles, m_path = ''/api/files.cgi'', m_optionsAllowed = 0x40808000\<rparr>,
     \<lparr>m_id = g_cgiUpload, m_path = ''/api/upload.cgi'', m_optionsAllowed = 0x40400000\<rparr>,
     \<lparr>m_id = g_cgiWebApp, m_path = ''/app/'', m_optionsAllowed = 0x48800000\<rparr>]"
    by (simp add: CGI_SetupMapping_def CGI_Append_eq Let_def)
  show ?thesis
    unfolding assms(2) CGI_SetCgiHandler_def assms(1) t
    by (simp add: mapping_matches_iff route_def)
qed

theorem routing_table_witness:
  "q_handler (CGI_SetCgiHandler (zero_context\<lparr>q_requestPath := ''/App/x.css'' @ [NUL]\<rparr>) (sample_glob\<lparr>g_cgiMapping := CGI_SetupMapping []\<rparr>)) = Some g_cgiWebApp"
proof -
  have "route ''/App/x.css'' = Some (g_cgiWebApp, True)" by code_simp
  then show ?thesis
    using routing_table [OF _ refl, of "sample_glob\<lparr>g_cgiMapping := CGI_SetupMapping []\<rparr>" "zero_context\<lparr>q_requestPath := ''/App/x.css'' @ [NUL]\<rparr>"]
    by simp
qed

text \<open>
  The page that redirects the browser is complete and consistent. When the whole page fits
  into the send buffer, the buffer holds exactly it, status line, headers and body, the body
  has the number of bytes that the Content-Length header announces, and all of it is to be
  sent; a page that does not fit, by its path, is written past the end of the buffer.
\<close>

theorem redirect_page:
  assumes "q_result q = CODE_REDIRECT" and "q_handler q = None" and "length (p_sendBuffer (ctxResponse q)) = 256"
    and "nul_free (q_responsePath q)" and "nul_free (e_clock e)" and "length (q_responsePath q) < 128"
    and "page = redirect_head e (q_responsePath q) @ redirect_body (q_responsePath q)"
  shows "if length page < 256
    then \<exists>q'. CGI_SetResponseHeaders e code q g = Some (q', g) \<and> cstr (p_sendBuffer (ctxResponse q')) = page
           \<and> p_bytesLeft (ctxResponse q') = int (length page) \<and> q_result q' = CODE_REDIRECT
    else CGI_SetResponseHeaders e code q g = None"
proof -
  let ?h = "header_generic ''200 OK'' ''text/html'' (int (length (redirect_body (q_responsePath q)))) ''close''"
  let ?rest = "[date_header e, ''Server: '', SERVER_HEADER, CRLF, CRLF, redirect_body1, q_responsePath q, redirect_body2]"
  let ?sb = "(p_sendBuffer (ctxResponse q))[0 := NUL]"
  have nf: "nul_free ?h" "nul_free (concat ?rest)" using assms(4,5)
    by (auto simp: header_generic_def date_header_def SERVER_HEADER_def CRLF_def redirect_body1_def redirect_body2_def)
  have page: "page = ?h @ concat ?rest" using assms(7) by (simp add: redirect_head_def redirect_body_def)
  show ?thesis
  proof (cases "strcpy_at ?sb 0 ?h")
    case None
    then have "\<not> length page < 256" using strcpy_at_defined [of 0 ?sb ?h] assms(3) page by simp
    with None show ?thesis by (simp add: redirect_headers_eq [OF assms(1-3)])
  next
    case (Some b)
    then have b: "cstr b = ?h" "length b = 256" using nf(1) cstr_strcpy0 length_strcpy_at assms(3) by auto
    have h: "?h \<noteq> []" by (simp add: header_generic_def)
    have l: "length (cstr b) < length b" using Some strcpy_at_defined [of 0 ?sb ?h] assms(3) b by simp
    have eq: "CGI_SetResponseHeaders e code q g = do {
       sb \<leftarrow> strcats b ?rest;
       Some (upd_resp (\<lambda>r. r\<lparr>p_sendBuffer := sb, p_bytesLeft := int (length (cstr sb))\<rparr>) q, g) }"
      unfolding redirect_headers_eq [OF assms(1-3)] using Some b(1) h by (simp del: strcats.simps)
    show ?thesis
    proof (cases "strcats b ?rest")
      case None
      with strcats_defined [OF l nf(2)] b page eq show ?thesis by (simp del: strcats.simps)
    next
      case (Some c)
      from strcats_Some [OF Some nf(2)] have c: "cstr c = page" using b page by simp
      have "length page < 256" using strcats_defined [OF l nf(2)] Some b page by (simp del: strcats.simps)
      then show ?thesis using eq Some c assms(1) by (simp add: upd_resp_def del: strcats.simps)
    qed
  qed
qed

theorem redirect_page_witness:
  "\<exists>q'. CGI_SetResponseHeaders sample_env ''307'' (zero_context\<lparr>q_result := CODE_REDIRECT, q_responsePath := WEB_DEFAULT_PAGE\<rparr>) sample_glob = Some (q', sample_glob)
     \<and> p_bytesLeft (ctxResponse q') = 225"
proof -
  let ?q = "zero_context\<lparr>q_result := CODE_REDIRECT, q_responsePath := WEB_DEFAULT_PAGE\<rparr>"
  have len: "length (redirect_head sample_env WEB_DEFAULT_PAGE @ redirect_body WEB_DEFAULT_PAGE) = 225"
  proof -
    have "length (redirect_body WEB_DEFAULT_PAGE) = 83"
      by (simp add: redirect_body_def redirect_body1_def redirect_body2_def WEB_DEFAULT_PAGE_def)
    moreover have "length (fmt_d 83) = 2" by (simp add: fmt_d_def fmt_u_def base_digits.simps [of 10])
    ultimately show ?thesis
      by (simp add: redirect_head_def header_generic_def date_header_def sample_env_def SERVER_HEADER_def CRLF_def)
  qed
  have "nul_free (e_clock sample_env)" "nul_free WEB_DEFAULT_PAGE" "length WEB_DEFAULT_PAGE < 128"
    by (simp_all add: sample_env_def WEB_DEFAULT_PAGE_def)
  with redirect_page [of ?q sample_env, OF _ _ _ _ _ _ refl, of "''307''" sample_glob] len show ?thesis
    by (auto simp: zero_context_def zero_response_def)
qed

end
