(* ===== verification/Http_Parse.thy ===== *)
theory Http_Parse
  imports Cgi
begin

text \<open>
  The parsing half of \<^verbatim>\<open>HttpRequestProc\<close> in \<^verbatim>\<open>httpd/http_core.c\<close>: the request line with its
  query string, the header lines, and the loop that finds the lines in the receive buffer.
  \<^verbatim>\<open>parseHttpDate\<close> is from \<^verbatim>\<open>arch/sys_arch.c\<close>.

  A line is given by its offset \<open>nLinePos\<close> and the offset \<open>i\<close> of its end, where the loop
  has put a NUL; strings are read from the buffer as C strings.
\<close>

section \<open>Dates\<close>

definition mon_name :: "string list" where
  "mon_name = [''Jan'', ''Feb'', ''Mar'', ''Apr'', ''May'', ''Jun'', ''Jul'', ''Aug'', ''Sep'', ''Oct'', ''Nov'', ''Dec'']"

text \<open>
  \<^verbatim>\<open>mktime\<close> of the C library, in UTC: fields out of their range carry over, and a time that
  the unsigned 32-bit \<^verbatim>\<open>time_t\<close> cannot hold is \<open>(time_t) (- 1)\<close>.
\<close>

definition days_from_civil :: "int \<Rightarrow> int \<Rightarrow> int \<Rightarrow> int" where
  "days_from_civil y m d =
     (let y' = y + m div 12; m' = m mod 12; ym = (if m' < 2 then y' - 1 else y');
          era = ym div 400; yoe = ym - era * 400;
          doy = (153 * (if m' < 2 then m' + 10 else m' - 2) + 2) div 5 + d - 1;
          doe = yoe * 365 + yoe div 4 - yoe div 100 + doy
      in era * 146097 + doe - 719468)"

definition mktime :: "int \<Rightarrow> int \<Rightarrow> int \<Rightarrow> int \<Rightarrow> int \<Rightarrow> int \<Rightarrow> int" where
  "mktime year mon mday hour minute sec =
     (let t = ((days_from_civil year mon mday * 24 + hour) * 60 + minute) * 60 + sec
      in if 0 \<le> t \<and> t < 2 ^ 32 then t else 2 ^ 32 - 1)"

fun month_index :: "string \<Rightarrow> int \<Rightarrow> string list \<Rightarrow> int" where
  "month_index s i [] = - 1"
| "month_index s i (m # ms) = (if Strnicmp s m 3 = 0 then i else month_index s (i + 1) ms)"

definition parseHttpDate :: "bytes \<Rightarrow> int \<Rightarrow> int option" where
  "parseHttpDate buf s = do {
     sec \<leftarrow> cstr_at buf (s + 23);
     minute \<leftarrow> cstr_at buf (s + 20);
     hour \<leftarrow> cstr_at buf (s + 17);
     mday \<leftarrow> cstr_at buf (s + 5);
     mon \<leftarrow> cstr_at buf (s + 8);
     year \<leftarrow> cstr_at buf (s + 12);
     Some (mktime (atol year) (month_index mon 0 mon_name) (atol mday) (atol hour) (atol minute) (atol sec)) }"

section \<open>The request line\<close>

text \<open>
  The extension is collected behind the last dot that no slash follows, up to the question
  mark. The state is the position of the dot and of the question mark (negative while there
  is none), the length collected and the array of eight bytes.
\<close>

definition query_step :: "char \<Rightarrow> int \<Rightarrow> int \<times> int \<times> int \<times> bytes \<Rightarrow> (int \<times> int \<times> int \<times> bytes) option" where
  "query_step c i = (\<lambda>(iDot, iQuestion, len, ext).
     if c = CHR ''.'' then
       (if iQuestion < 0 then do { ext \<leftarrow> poke ext 0 NUL; Some (i, iQuestion, 0, ext) } else Some (iDot, iQuestion, len, ext))
     else if c = CHR ''?'' then Some (iDot, if iQuestion < 0 then i else iQuestion, len, ext)
     else if c = CHR ''#'' then Some (iDot, iQuestion, len, ext)
     else if c = CHR ''/'' then
       (if iQuestion < 0 then do { ext \<leftarrow> poke ext 0 NUL; Some (- 1, iQuestion, 0, ext) } else Some (iDot, iQuestion, len, ext))
     else if iDot \<ge> 0 \<and> iQuestion < 0 then do {
       ext \<leftarrow> poke ext len c;
       ext \<leftarrow> poke ext (len + 1) NUL;
       Some (iDot, iQuestion, len + 1, ext) }
     else Some (iDot, iQuestion, len, ext))"

fun query_loop :: "string \<Rightarrow> int \<Rightarrow> int \<times> int \<times> int \<times> bytes \<Rightarrow> (int \<times> int \<times> int \<times> bytes) option" where
  "query_loop [] i st = Some st"
| "query_loop (c # s) i st = (case query_step c i st of None \<Rightarrow> None | Some st \<Rightarrow> query_loop s (i + 1) st)"

definition ParseQueryString :: "REQUEST_CONTEXT \<Rightarrow> REQUEST_CONTEXT option" where
  "ParseQueryString q = do {
     path \<leftarrow> cstr_at (q_requestPath q) 0;
     (iDot, iQuestion, len, ext) \<leftarrow> query_loop path 0 (- 1, - 1, 0, zeros 8);
     rp \<leftarrow> (if iQuestion \<ge> 0 then poke (q_requestPath q) iQuestion NUL else Some (q_requestPath q));
     Some (q\<lparr>q_extension := ext, q_posQuestion := iQuestion, q_requestPath := rp\<rparr>) }"

text \<open>
  Collecting the path up to \<^verbatim>\<open> HTTP/1.\<close> or the end of the line: leading spaces are dropped,
  and what exceeds 126 characters.
\<close>

function path_loop :: "bytes \<Rightarrow> nat \<Rightarrow> nat \<Rightarrow> bytes \<Rightarrow> bytes \<times> bytes option" where
  "path_loop buf j i path =
     (if j < i then
        (if take 8 (drop j buf) = '' HTTP/1.'' then (path, Some (cstr (take 3 (drop (j + 6) buf))))
         else path_loop buf (j + 1) i
           (if (path = [] \<and> buf ! j = CHR '' '') \<or> \<not> length path < 126 then path else path @ [buf ! j]))
      else (path, None))"
  by pat_completeness auto
termination
  by (relation "measure (\<lambda>(buf, j, i, path). i - j)") auto

declare path_loop.simps [simp del]

text \<open>The flag of the result says that the line was refused, which ends the loop over the lines.\<close>

definition request_line :: "glob \<Rightarrow> nat \<Rightarrow> nat \<Rightarrow> REQUEST_CONTEXT \<Rightarrow> (REQUEST_CONTEXT \<times> bool) option" where
  "request_line g nLinePos i q =
     (let buf = q_http_request_buffer q; line = drop nLinePos buf;
          get = (take 4 line = ''GET ''); post = (take 5 line = ''POST '')
      in if \<not> get \<and> \<not> post then Some (q\<lparr>q_result := - 500\<rparr>, True)
         else do {
           let q = q\<lparr>q_requestMethod := (if get then METHOD_GET else METHOD_POST)\<rparr>;
           let (path, ver) = path_loop buf (nLinePos + (if get then 4 else 5)) i [];
           let q = (case ver of None \<Rightarrow> q | Some v \<Rightarrow> q\<lparr>q_ver := v\<rparr>);
           rp \<leftarrow> blit (q_requestPath q) 0 path;
           rp \<leftarrow> poke rp (int (length path)) NUL;
           (rp, n) \<leftarrow> URLDecode rp;
           rp \<leftarrow> poke rp (int n) NUL;
           q \<leftarrow> ParseQueryString (upd_resp (\<lambda>r. r\<lparr>p_appContext := App_Raw []\<rparr>)
                  (q\<lparr>q_checkAlive := 0, q_posQuestion := - 1, q_requestPath := rp\<rparr>));
           path \<leftarrow> cstr_at (q_requestPath q) 0;
           path \<leftarrow> fit 128 path;
           let q = q\<lparr>q_responsePath := path, q_checkAlive := (if path_is q WEB_SESSION_CHECK then 1 else 0)\<rparr>;
           Some (CGI_SetCgiHandler q g, False) })"

section \<open>Header lines\<close>

definition has_word :: "string \<Rightarrow> string \<Rightarrow> string \<Rightarrow> int" where
  "has_word s a b = (if strstr s a \<noteq> None then 1 else if strstr s b \<noteq> None then 1 else 0)"

text \<open>\<open>p\<close> is the offset of \<^verbatim>\<open>bytes=\<close>; the code reads from 7 characters behind it on.\<close>

definition range_values :: "bytes \<Rightarrow> int \<Rightarrow> (int \<times> int) option" where
  "range_values buf p = do {
     s \<leftarrow> cstr_at buf (p + 7);
     Some (atol s,
       case strstr s ''-'' of None \<Rightarrow> 0
       | Some k \<Rightarrow>
           (let c = cur (drop (k + 1) s) in
            if 48 \<le> ord c \<and> ord c \<le> 57 then s32 (atol (drop (k + 1) s) + 1) else 0x7FFFFFFF)) }"

definition header_range_line :: "nat \<Rightarrow> string \<Rightarrow> REQUEST_CONTEXT \<Rightarrow> REQUEST_CONTEXT option" where
  "header_range_line nLinePos line q = do {
     (from, to) \<leftarrow> (case strstr (drop 6 line) ''bytes='' of
        None \<Rightarrow> Some (0, 0)
      | Some k \<Rightarrow> range_values (q_http_request_buffer q) (int (nLinePos + 6 + k)));
     Some (if to > from then q\<lparr>q_rangeFrom := from, q_rangeTo := to\<rparr> else q\<lparr>q_rangeFrom := 0, q_rangeTo := 0\<rparr>) }"

definition header_token_line :: "nat \<Rightarrow> nat \<Rightarrow> REQUEST_CONTEXT \<Rightarrow> REQUEST_CONTEXT option" where
  "header_token_line nLinePos i q = do {
     let buf = q_http_request_buffer q;
     let j = nLinePos + value_offset 0 False (take (i - nLinePos) (drop nLinePos buf));
     s \<leftarrow> cstr_at buf (int j);
     Some (upd_resp (\<lambda>r. r\<lparr>p_token := take 126 s\<rparr>) q) }"

definition header_line :: "nat \<Rightarrow> nat \<Rightarrow> REQUEST_CONTEXT \<Rightarrow> REQUEST_CONTEXT option" where
  "header_line nLinePos i q = do {
     let buf = q_http_request_buffer q;
     line \<leftarrow> cstr_at buf (int nLinePos);
     if Strnicmp line ''Content-Length:'' 15 = 0 then
       Some (q\<lparr>q_contentLength := atol (drop 15 line), q_contentReceived := 0\<rparr>)
     else if Strnicmp line ''Connection:'' 11 = 0 then
       Some (q\<lparr>q_keepalive := has_word (drop 11 line) ''keep-alive'' ''Keep-Alive''\<rparr>)
     else if Strnicmp line ''Transfer-Encoding:'' 18 = 0 then
       Some (q\<lparr>q_chunked := has_word (drop 18 line) ''chunked'' ''Chunked''\<rparr>)
     else if Strnicmp line ''Expect:'' 7 = 0 then
       Some (q\<lparr>q_expect00 := has_word (drop 7 line) ''100-continue'' ''100-Continue''\<rparr>)
     else if Strnicmp line ''If-Modified-Since:'' 18 = 0 then do {
       t \<leftarrow> parseHttpDate buf (int nLinePos + 19);
       Some (q\<lparr>q_ifModified := t\<rparr>) }
     else if Strnicmp line ''Range:'' 6 = 0 then header_range_line nLinePos line q
     else if Strnicmp line ''X-Auth-Token:'' 13 = 0 \<or> Strnicmp line ''Cookie:'' 7 = 0 then
       header_token_line nLinePos i q
     else do {
       (line, q, _) \<leftarrow> CGI_HeaderReceived (drop nLinePos buf) q;
       Some (q\<lparr>q_http_request_buffer := take nLinePos buf @ line\<rparr>) } }"

text \<open>The empty line that ends the header.\<close>

definition header_end :: "REQUEST_CONTEXT \<Rightarrow> REQUEST_CONTEXT option" where
  "header_end q = do {
     sb \<leftarrow> poke (p_sendBuffer (ctxResponse q)) 0 NUL;
     Some (upd_resp (\<lambda>r. r\<lparr>p_authorized := 0, p_sending := 0, p_total2Send := 0, p_totalSent := 0,
             p_dwOperIndex := 0, p_dwOperStage := 0, p_bytesLeft := 0, p_sendBuffer := sb\<rparr>)
           (q\<lparr>q_result := (if q_requestMethod q < 0 then - 500 else q_result q), q_state := HTTP_STATE_HEADER_DONE\<rparr>)) }"

text \<open>
  The loop over the first \<open>size'\<close> bytes. The result is the context, the offset behind the
  last line dealt with, and whether the header is complete.
\<close>

function header_loop :: "glob \<Rightarrow> nat \<Rightarrow> nat \<Rightarrow> nat \<Rightarrow> REQUEST_CONTEXT \<Rightarrow> (REQUEST_CONTEXT \<times> nat \<times> bool) option" where
  "header_loop g size' i nLinePos q =
     (let buf = q_http_request_buffer q in
      if i + 1 < size' then
        (if length buf \<le> i + 1 then None
         else if buf ! i \<noteq> CR \<or> buf ! (i + 1) \<noteq> LF then header_loop g size' (i + 1) nLinePos q
         else if i = nLinePos then
           (case header_end q of None \<Rightarrow> None | Some q \<Rightarrow> Some (q, i + 2, True))
         else
           (let q = q\<lparr>q_http_request_buffer := buf[i := NUL]\<rparr> in
            if q_requestMethod q < 0 then
              (case request_line g nLinePos i q of None \<Rightarrow> None
               | Some (q, stop) \<Rightarrow> if stop then Some (q, nLinePos, False) else header_loop g size' (i + 1) (i + 2) q)
            else
              (case header_line nLinePos i q of None \<Rightarrow> None
               | Some q \<Rightarrow> header_loop g size' (i + 1) (i + 2) q)))
      else Some (q, nLinePos, False))"
  by pat_completeness auto
termination
  by (relation "measure (\<lambda>(g, size', i, nLinePos, q). size' - i)") auto

declare header_loop.simps [simp del]

end
