(* ===== verification/Http_Core.thy ===== *)
theory Http_Core
  imports Http_Parse
begin

text \<open>
  \<^verbatim>\<open>httpd/http_core.c\<close>: the queue of received pbufs, the loop that drives a request from
  its first byte to its response, the response itself, and the callbacks that the TCP stack
  makes. A request context and the global record go through every step; the calls into the
  stack are appended to \<open>g_calls\<close>.
\<close>

section \<open>Calls into the stack\<close>

text \<open>A call on the pcb of a context; a NULL pcb would be dereferenced by the stack.\<close>

definition on_pcb :: "(nat \<Rightarrow> net_call) \<Rightarrow> REQUEST_CONTEXT \<Rightarrow> glob \<Rightarrow> glob option" where
  "on_pcb f q g = (case q_pcb q of None \<Rightarrow> None | Some pcb \<Rightarrow> Some (call (f pcb) g))"

definition calls :: "net_call list \<Rightarrow> glob \<Rightarrow> glob" where
  "calls cs g = g\<lparr>g_calls := g_calls g @ cs\<rparr>"

definition PrintLwipStatus :: "glob \<Rightarrow> glob" where
  "PrintLwipStatus g = call Tcp_kill_timewait g"

text \<open>\<^verbatim>\<open>pbuf_free\<close> of a chain, if there is one.\<close>

definition free_chain :: "REQUEST_CONTEXT \<Rightarrow> glob \<Rightarrow> glob" where
  "free_chain q g = (if q_reqBufList q \<noteq> [] then call (Pbuf_free (concat (q_reqBufList q))) g else g)"

section \<open>The life of a context\<close>

definition IsContextTimeout :: "REQUEST_CONTEXT \<Rightarrow> glob \<Rightarrow> bool" where
  "IsContextTimeout q g =
     (let recvElapsed = elapsed_since (g_now g) (q_tLastReceived q);
          sendElapsed = elapsed_since (g_now g) (p_tLastSent (ctxResponse q))
      in if q_state q < HTTP_STATE_BODY_DONE then recvElapsed > ucast (q_nReceiveTimeout q)
         else sendElapsed > ucast (p_nSendTimeout (ctxResponse q)))"

definition close_file :: "REQUEST_CONTEXT \<Rightarrow> glob \<Rightarrow> glob" where
  "close_file q g = set_files (WEB_fclose (q_fileHandle q) (g_FileOpened g)) g"

definition ResetHttpContext :: "REQUEST_CONTEXT \<Rightarrow> glob \<Rightarrow> REQUEST_CONTEXT \<times> glob" where
  "ResetHttpContext q g =
     (q\<lparr>q_state := HTTP_STATE_IDLE, q_tRequestStart := 0, q_tLastReceived := tick_stamp (g_now g),
        q_requestMethod := - 1, q_expect00 := - 1, q_rangeFrom := 0, q_rangeTo := 0, q_ifModified := 0,
        q_chunked := - 1, q_contentLength := - 1, q_contentReceived := 0, q_keepalive := 0, q_result := 0,
        ctxResponse := zero_response\<lparr>p_nSendTimeout := TO_SENT\<rparr>, q_nReceiveTimeout := TO_RECV,
        q_ver := [], q_extension := zeros 8, q_requestPath := zeros 128, q_responsePath := [],
        q_handler := None, q_fileHandle := None, q_max_level := int MAX_REQ_BUF_SIZE\<rparr>,
      close_file q g)"

definition FreeHttpContext :: "REQUEST_CONTEXT \<Rightarrow> glob \<Rightarrow> (REQUEST_CONTEXT \<times> glob) option" where
  "FreeHttpContext q g = do {
     (q, g) \<leftarrow> CGI_Finish q g;
     let g = free_chain q g;
     let g = close_file q g;
     Some (q\<lparr>q_reqBufList := [], q_bufOffset := 0, q_state := HTTP_STATE_IDLE, q_tRequestStart := 0,
             q_pcb := None, q_requestMethod := - 1, q_contentLength := - 1, q_keepalive := 0, q_chunked := 0,
             q_contentReceived := 0, q_result := 0, ctxResponse := zero_response, q_ver := [],
             q_extension := zeros 8, q_requestPath := zeros 128, q_responsePath := [], q_handler := None,
             q_fileHandle := None, q_request_length := 0, q_max_level := int MAX_REQ_BUF_SIZE,
             q_http_request_buffer := zeros 132\<rparr>, g) }"

definition detach_calls :: "nat \<Rightarrow> net_call list" where
  "detach_calls pcb = [Altcp_arg pcb None, Altcp_callbacks pcb False, Altcp_poll pcb False]"

definition CloseHttpContext :: "env \<Rightarrow> REQUEST_CONTEXT \<Rightarrow> glob \<Rightarrow> (REQUEST_CONTEXT \<times> glob) option" where
  "CloseHttpContext e q g = do {
     let (q, g) = (case q_pcb q of
        None \<Rightarrow> (q, g)
      | Some pcb \<Rightarrow>
          (let g = calls (detach_calls pcb) g; err = e_close e (g_calls g); g = call (Altcp_close pcb) g
           in if err \<noteq> ERR_OK then (q, call (Altcp_poll pcb True) g)
              else (q\<lparr>q_pcb := None, q_peer_closing := 0\<rparr>, g)));
     (q, g) \<leftarrow> FreeHttpContext q g;
     Some (q, PrintLwipStatus g) }"

section \<open>The queue of received data\<close>

text \<open>The bytes of the chain that were not copied yet.\<close>

definition queued :: "REQUEST_CONTEXT \<Rightarrow> bytes" where
  "queued q = drop (nat (q_bufOffset q)) (concat (q_reqBufList q))"

text \<open>Freeing the leading pbufs that were copied completely, each with its part of the window.\<close>

fun free_head :: "bytes list \<Rightarrow> int \<Rightarrow> nat \<Rightarrow> glob \<Rightarrow> (bytes list \<times> int \<times> glob) option" where
  "free_head [] off pcb g = Some ([], off, g)"
| "free_head (p # ps) off pcb g =
     (if off < int (length p) then Some (p # ps, off, g)
      else if ps = [] then None
      else free_head ps (off - int (length p)) pcb (calls [Altcp_recved pcb (length p), Pbuf_free p] g))"

text \<open>Appending a block to the receive buffer, with two NULs behind it.\<close>

definition append_rx :: "bytes \<Rightarrow> REQUEST_CONTEXT \<Rightarrow> REQUEST_CONTEXT option" where
  "append_rx blk q = do {
     buf \<leftarrow> blit (q_http_request_buffer q) (q_request_length q) blk;
     let len = q_request_length q + int (length blk);
     buf \<leftarrow> poke buf len NUL;
     buf \<leftarrow> poke buf (len + 1) NUL;
     Some (q\<lparr>q_http_request_buffer := buf, q_request_length := len\<rparr>) }"

text \<open>What happens to the queue when \<open>off\<close> bytes of it were copied.\<close>

definition release :: "int \<Rightarrow> REQUEST_CONTEXT \<Rightarrow> glob \<Rightarrow> (REQUEST_CONTEXT \<times> glob) option" where
  "release off q g = do {
     let chain = concat (q_reqBufList q);
     pcb \<leftarrow> q_pcb q;
     if off = int (length chain) then
       Some (q\<lparr>q_reqBufList := [], q_bufOffset := 0\<rparr>, calls [Altcp_recved pcb (length chain), Pbuf_free chain] g)
     else do {
       (ps, off, g) \<leftarrow> free_head (q_reqBufList q) off pcb g;
       Some (q\<lparr>q_reqBufList := ps, q_bufOffset := off\<rparr>, g) } }"

definition dequeue :: "REQUEST_CONTEXT \<Rightarrow> glob \<Rightarrow> (REQUEST_CONTEXT \<times> glob) option" where
  "dequeue q g =
     (if q_reqBufList q = [] then Some (q, g)
      else
        (let chain = concat (q_reqBufList q);
             nSpace = min (q_max_level q - q_request_length q) (int (length chain) - q_bufOffset q)
         in if nSpace > 0 then do {
              q' \<leftarrow> append_rx (take (nat nSpace) (drop (nat (q_bufOffset q)) chain)) q;
              release (q_bufOffset q + nSpace) q' g }
            else Some (q, g)))"

text \<open>Dropping the first \<open>n\<close> bytes of the receive buffer.\<close>

definition shift_buffer :: "int \<Rightarrow> REQUEST_CONTEXT \<Rightarrow> REQUEST_CONTEXT option" where
  "shift_buffer n q =
     (let len = q_request_length q - n in
      if len > 0 then do {
        buf \<leftarrow> memmove (q_http_request_buffer q) 0 n len;
        Some (q\<lparr>q_request_length := len, q_http_request_buffer := buf\<rparr>) }
      else Some (q\<lparr>q_request_length := len\<rparr>))"

section \<open>One turn of the request loop\<close>

datatype verdict = Go_On | Leave | Return_OK

definition begin_request :: "REQUEST_CONTEXT \<Rightarrow> glob \<Rightarrow> REQUEST_CONTEXT" where
  "begin_request q g =
     (if q_state q = HTTP_STATE_IDLE then
        upd_resp (\<lambda>r. r\<lparr>p_tLastSent := 0\<rparr>)
          (q\<lparr>q_state := HTTP_STATE_HEADER_RECEIVING, q_tRequestStart := tick_stamp (g_now g),
             q_tLastReceived := tick_stamp (g_now g)\<rparr>)
      else q)"

text \<open>
  The header lines of the buffer, then the shift of what was dealt with; a full buffer
  without a line end loses its first half. The result has the bytes left after the header
  and whether the header is complete.
\<close>

definition parse_headers :: "REQUEST_CONTEXT \<Rightarrow> glob \<Rightarrow> (REQUEST_CONTEXT \<times> int \<times> bool) option" where
  "parse_headers q g =
     (let size' = q_request_length q in
      if q_state q = HTTP_STATE_HEADER_RECEIVING \<and> size' \<ge> 2 then do {
        (q, nLinePos, afterHeader) \<leftarrow> header_loop g (nat size') 0 0 q;
        q \<leftarrow> (if nLinePos = 0
              then if q_request_length q \<ge> q_max_level q then shift_buffer (q_request_length q div 2) q else Some q
              else shift_buffer (int nLinePos) q);
        Some (q, size' - int nLinePos, afterHeader) }
      else Some (q, size', False))"

text \<open>The end of the header: the session, the way on, and the handler's word.\<close>

definition body_done :: "REQUEST_CONTEXT \<Rightarrow> glob \<Rightarrow> REQUEST_CONTEXT" where
  "body_done q g = upd_resp (\<lambda>r. r\<lparr>p_tLastSent := tick_stamp (g_now g)\<rparr>) (q\<lparr>q_state := HTTP_STATE_BODY_DONE\<rparr>)"

definition authorize :: "REQUEST_CONTEXT \<Rightarrow> glob \<Rightarrow> REQUEST_CONTEXT" where
  "authorize q g =
     (let session = GetSession (g_httpSessions g) (p_token (ctxResponse q));
          q = upd_resp (\<lambda>r. r\<lparr>p_authorized := CODE_OK\<rparr>) (q\<lparr>q_session := session\<rparr>);
          foreign = (case session of None \<Rightarrow> True | Some i \<Rightarrow> q_ipRemote q \<noteq> s_nLoginIP (g_httpSessions g ! i))
      in if foreign \<and> q_options q AND CGI_OPT_AUTH_REQUIRED \<noteq> 0 \<and> SessionTypes (cstr (q_extension q)) > 0
         then upd_resp (\<lambda>r. r\<lparr>p_authorized := CODE_REDIRECT\<rparr>)
                (q\<lparr>q_result := CODE_REDIRECT, q_responsePath := WEB_DEFAULT_PAGE\<rparr>)
         else q)"

definition after_header :: "env \<Rightarrow> REQUEST_CONTEXT \<Rightarrow> glob \<Rightarrow> (REQUEST_CONTEXT \<times> glob) option" where
  "after_header e q g =
     (let q = authorize q g;
          q = (if q_chunked q > 0 then q\<lparr>q_state := HTTP_STATE_CHUNK_LEN_RECEIVING\<rparr>
               else if q_contentLength q > 0 then q\<lparr>q_state := HTTP_STATE_BODY_RECEIVING\<rparr>
               else body_done q g)
      in CGI_HeadersReceived e q g)"

text \<open>The length line of a chunk; the test for its end takes a CR or a LF behind it.\<close>

definition chunk_line :: "REQUEST_CONTEXT \<Rightarrow> int \<Rightarrow> REQUEST_CONTEXT option" where
  "chunk_line q size' =
     (if q_state q = HTTP_STATE_CHUNK_LEN_RECEIVING \<and> size' > 2 then
        (let buf = q_http_request_buffer q in
         if int (length buf) < size' then None
         else case List.find (\<lambda>c. buf ! c = CR \<or> buf ! (c + 1) = LF) [0..<nat size' - 1] of
           None \<Rightarrow> Some q
         | Some c \<Rightarrow> do {
             s \<leftarrow> cstr_at (buf[c := NUL]) 0;
             shift_buffer (int c + 2)
               (q\<lparr>q_http_request_buffer := buf[c := NUL], q_contentLength := s32 (atol s + 2), q_contentReceived := 0,
                  q_state := HTTP_STATE_CHUNK_RECEIVING\<rparr>) })
      else Some q)"

text \<open>The transition when a chunk or the body is complete.\<close>

definition content_done :: "REQUEST_CONTEXT \<Rightarrow> glob \<Rightarrow> REQUEST_CONTEXT" where
  "content_done q g =
     (if q_contentReceived q \<ge> q_contentLength q then
        (if q_chunked q > 0 then
           (let q = (if q_contentLength q = 2 then body_done q g else q\<lparr>q_state := HTTP_STATE_CHUNK_LEN_RECEIVING\<rparr>)
            in q\<lparr>q_contentLength := 0, q_contentReceived := 0\<rparr>)
         else body_done q g)
      else q)"

text \<open>
  Body bytes. \<open>size'\<close> is the number of bytes the turn saw after the header; a chunk line that
  was dropped from the buffer in this turn still counts in it. The last component is the
  number of bytes consumed, with the verdict when the turn ends here.
\<close>

definition receive_body :: "REQUEST_CONTEXT \<Rightarrow> glob \<Rightarrow> int \<Rightarrow> (REQUEST_CONTEXT \<times> glob \<times> int \<times> verdict option) option" where
  "receive_body q g size' =
     (if q_state q = HTTP_STATE_CHUNK_RECEIVING \<or> q_state q = HTTP_STATE_BODY_RECEIVING then do {
        (q, g, consumed) \<leftarrow> CGI_ContentReceived (q_http_request_buffer q) size' q g;
        if q_result q \<le> - 500 then Some (q, g, consumed, Some Return_OK)
        else if consumed \<le> 0 then Some (q, g, consumed, Some Leave)
        else do {
          q \<leftarrow> shift_buffer consumed (q\<lparr>q_contentReceived := q_contentReceived q + consumed\<rparr>);
          Some (content_done q g, g, consumed, None) } }
      else Some (q, g, 0, None))"

text \<open>What a turn does behind the header: chunk line, body, and the end of the request.\<close>

definition finish_turn :: "env \<Rightarrow> REQUEST_CONTEXT \<Rightarrow> glob \<Rightarrow> int \<Rightarrow> (REQUEST_CONTEXT \<times> glob \<times> verdict) option" where
  "finish_turn e q g size' = do {
     q \<leftarrow> chunk_line q size';
     (q, g, consumed, v) \<leftarrow> receive_body q g size';
     (case v of Some v \<Rightarrow> Some (q, g, v)
      | None \<Rightarrow>
          if q_state q = HTTP_STATE_BODY_DONE then do {
            (q, g) \<leftarrow> CGI_RequestReceived e q g;
            Some (if q_result q = 0 then q\<lparr>q_result := CODE_OK\<rparr> else q, g, Leave) }
          else Some (q, g, if q_reqBufList q = [] \<or> consumed \<le> 0 then Leave else Go_On)) }"

definition request_turn :: "env \<Rightarrow> REQUEST_CONTEXT \<Rightarrow> glob \<Rightarrow> (REQUEST_CONTEXT \<times> glob \<times> verdict) option" where
  "request_turn e q g = do {
     (q, g) \<leftarrow> dequeue q g;
     if q_request_length q = 0 then Some (q, g, Leave)
     else do {
       let q = (if q_request_length q > 0 then begin_request q g else q);
       (q, size', afterHeader) \<leftarrow> parse_headers q g;
       if q_result q < 0 then Some (q, g, Leave)
       else if q_state q = HTTP_STATE_HEADER_RECEIVING \<and> q_request_length q \<ge> int MAX_REQ_BUF_SIZE
       then Some (q\<lparr>q_result := - 500\<rparr>, g, Leave)
       else if q_state q < HTTP_STATE_HEADER_DONE
       then Some (q, g, if q_reqBufList q \<noteq> [] then Go_On else Leave)
       else do {
         (q, g) \<leftarrow> (if afterHeader then after_header e q g else Some (q, g));
         if q_result q < 0 then Some (q\<lparr>q_state := HTTP_STATE_SENDING_HEADER\<rparr>, g, Leave)
         else finish_turn e q g size' } } }"

section \<open>The loop\<close>

text \<open>
  A run of the loop is finished, undefined, or out of fuel. The fuel of the program is the
  number of bytes it has not dealt with; it is shown below that this is enough.
\<close>

datatype 'a run = Done 'a | Undefined | No_Fuel

fun request_loop :: "nat \<Rightarrow> env \<Rightarrow> REQUEST_CONTEXT \<Rightarrow> glob \<Rightarrow> (REQUEST_CONTEXT \<times> glob \<times> bool) run" where
  "request_loop 0 e q g = No_Fuel"
| "request_loop (Suc n) e q g =
     (if \<not> q_state q < HTTP_STATE_BODY_DONE then Done (q, g, False)
      else case request_turn e q g of
        None \<Rightarrow> Undefined
      | Some (q, g, Go_On) \<Rightarrow> request_loop n e q g
      | Some (q, g, Leave) \<Rightarrow> Done (q, g, False)
      | Some (q, g, Return_OK) \<Rightarrow> Done (q, g, True))"

definition pending :: "REQUEST_CONTEXT \<Rightarrow> int" where
  "pending q = int (length (concat (q_reqBufList q))) - q_bufOffset q + q_request_length q"

definition loop_fuel :: "REQUEST_CONTEXT \<Rightarrow> nat" where
  "loop_fuel q = nat (pending q) + 2"

end
