(* ===== verification/Http_Server.thy ===== *)
theory Http_Server
  imports Http_Core
begin

text \<open>
  \<^verbatim>\<open>httpd/http_core.c\<close>, second part: sending, the response, the request procedure, and the
  callbacks of the TCP stack on the table of connections.
\<close>

section \<open>Sending\<close>

text \<open>
  \<open>Altcp_write\<close> is recorded for a write that the stack accepted. Reading past the send
  buffer is undefined.
\<close>

definition send_block :: "env \<Rightarrow> nat \<Rightarrow> REQUEST_CONTEXT \<Rightarrow> glob \<Rightarrow> int \<Rightarrow> (REQUEST_CONTEXT \<times> glob \<times> int) option" where
  "send_block e pcb q g size2Send =
     (let r = ctxResponse q; block = take (nat size2Send) (p_sendBuffer r) in
      if int (length (p_sendBuffer r)) < size2Send then None
      else let err = e_write e (g_calls g) block in
        if err = ERR_OK then do {
          let left = p_bytesLeft r - size2Send;
          sb \<leftarrow> (if left > 0 then memmove (p_sendBuffer r) 0 size2Send left else Some (p_sendBuffer r));
          sb \<leftarrow> poke sb left NUL;
          Some (upd_resp (\<lambda>r. r\<lparr>p_total2Send := p_total2Send r + size2Send, p_bytesLeft := left, p_sendBuffer := sb,
                              p_tLastSent := tick_stamp (g_now g)\<rparr>) q,
                call (Altcp_write pcb block) g, ERR_OK) }
        else Some (q, g, err))"

lemma send_block_left:
  assumes "send_block e pcb q g n = Some (q', g', ERR_OK)"
  shows "p_bytesLeft (ctxResponse q') = p_bytesLeft (ctxResponse q) - n"
  using assms by (auto simp: send_block_def Let_def bind_eq_Some_conv split: if_splits)

text \<open>The loop of \<^verbatim>\<open>sendBuffered\<close>; the last component is its result.\<close>

function send_loop :: "env \<Rightarrow> nat \<Rightarrow> REQUEST_CONTEXT \<Rightarrow> glob \<Rightarrow> (REQUEST_CONTEXT \<times> glob \<times> int) option" where
  "send_loop e pcb q g =
     (let left = p_bytesLeft (ctxResponse q); maxbuf = e_sndbuf e (g_calls g) in
      if left > 0 \<and> maxbuf > 0 then
        (case send_block e pcb q g (min left maxbuf) of
           None \<Rightarrow> None
         | Some (q', g', err) \<Rightarrow> if err = ERR_OK then send_loop e pcb q' g' else Some (q', g', err))
      else Some (q, g, ERR_OK))"
  by pat_completeness auto
termination
  by (relation "measure (\<lambda>(e, pcb, q, g). nat (p_bytesLeft (ctxResponse q)))") (auto dest!: send_block_left)

declare send_loop.simps [simp del]

definition sendBuffered :: "env \<Rightarrow> REQUEST_CONTEXT \<Rightarrow> glob \<Rightarrow> (REQUEST_CONTEXT \<times> glob \<times> int) option" where
  "sendBuffered e q g =
     (if p_bytesLeft (ctxResponse q) > 0 then do { pcb \<leftarrow> q_pcb q; send_loop e pcb q g } else Some (q, g, ERR_OK))"

section \<open>The response\<close>

definition Response_Status_Lines :: "string list" where
  "Response_Status_Lines = [
     ''000 Unknown Error'', ''100 Continue'', ''101 Switching Protocols'',
     ''200 OK'', ''201 Created'', ''202 Accepted'', ''203 Non-Authoritative Information'', ''204 No Content'',
     ''205 Reset Content'', ''206 Partial Content'',
     ''300 Multiple Choices'', ''301 Moved Permanently'', ''302 Found'', ''303 See Other'', ''304 Not Modified'',
     ''305 Use Proxy'', ''307 Temporary Redirect'',
     ''400 Bad Request'', ''401 Unauthorized'', ''402 Payment Required'', ''403 Forbidden'', ''404 Not Found'',
     ''405 Method Not Allowed'', ''406 Not Acceptable'', ''407 Proxy Authentication Required'', ''408 Request Time-out'',
     ''409 Conflict'', ''410 Gone'', ''411 Length Required'', ''412 Precondition Failed'', ''413 Request Entity Too Large'',
     ''414 Request-URI Too Large'', ''415 Unsupported Media Type'', ''416 Requested range not satisfiable'',
     ''417 Expectation Failed'',
     ''500 Internal Server Error'', ''501 Not Implemented'', ''502 Bad Gateway'', ''503 Service Unavailable'',
     ''504 Gateway Time-out'', ''505 HTTP Version not supported'']"

definition status_line :: "int \<Rightarrow> string" where
  "status_line result =
     (let code = pad0 3 (fmt_u (nat (abs result) mod 1000)) in
      case List.find (\<lambda>l. take 3 l = take 3 code) Response_Status_Lines of None \<Rightarrow> code | Some l \<Rightarrow> l)"

definition fail_send :: "REQUEST_CONTEXT \<Rightarrow> REQUEST_CONTEXT" where
  "fail_send q = q\<lparr>q_state := HTTP_STATE_REQUEST_END, q_result := - 500\<rparr>"

text \<open>The first call for a response: the headers; \<open>True\<close> when the call goes on to the body.\<close>

definition send_headers :: "env \<Rightarrow> REQUEST_CONTEXT \<Rightarrow> glob \<Rightarrow> (REQUEST_CONTEXT \<times> glob \<times> bool) option" where
  "send_headers e q g = do {
     let q = upd_resp (\<lambda>r. r\<lparr>p_dwOperStage := 0, p_dwOperIndex := 0, p_tLastSent := tick_stamp (g_now g),
                          p_sendMaxBlock := int MAX_SEND_BUF_SIZE\<rparr>) q;
     (q, g) \<leftarrow> CGI_SetResponseHeaders e (status_line (q_result q)) q g;
     (q, g, err) \<leftarrow> sendBuffered e q g;
     Some (if err = ERR_OK
           then (upd_resp (\<lambda>r. r\<lparr>p_sending := 1\<rparr>)
                   (q\<lparr>q_state := (if q_result q = CODE_REDIRECT then HTTP_STATE_SENDING_BODY else HTTP_STATE_SENDING_HEADER)\<rparr>),
                 g, True)
           else (fail_send q, g, False)) }"

definition send_body :: "env \<Rightarrow> proc_caller \<Rightarrow> REQUEST_CONTEXT \<Rightarrow> glob \<Rightarrow> (REQUEST_CONTEXT \<times> glob) option" where
  "send_body e caller q g =
     (if q_state q = HTTP_STATE_SENDING_BODY then do {
        (q, g, hasData2Send) \<leftarrow> CGI_LoadContentToSend e caller q g;
        if hasData2Send > 0 then do {
          (q, g, err) \<leftarrow> sendBuffered e q g;
          Some (if err = ERR_OK then upd_resp (\<lambda>r. r\<lparr>p_sending := 1\<rparr>) q else fail_send q, g) }
        else if hasData2Send < 0 then Some (q\<lparr>q_state := HTTP_STATE_REQUEST_END\<rparr>, g)
        else Some (q, g) }
      else Some (q, g))"

text \<open>Data that the stack had no room for has to leave first.\<close>

definition must_flush :: "env \<Rightarrow> REQUEST_CONTEXT \<Rightarrow> glob \<Rightarrow> bool option" where
  "must_flush e q g =
     (let r = ctxResponse q in
      if p_bytesLeft r > 0 then
        (if p_dwOperStage r = STAGE_END then Some True
         else do { _ \<leftarrow> q_pcb q; Some (p_bytesLeft r \<ge> e_sndbuf e (g_calls g)) })
      else Some False)"

definition HttpResponseProc :: "env \<Rightarrow> proc_caller \<Rightarrow> REQUEST_CONTEXT \<Rightarrow> glob \<Rightarrow> (REQUEST_CONTEXT \<times> glob) option" where
  "HttpResponseProc e caller q g =
     (if q_state q < HTTP_STATE_BODY_DONE \<or> q_result q = 0 then Some (q, g)
      else do {
        flush \<leftarrow> must_flush e q g;
        if flush then do {
          (q, g, err) \<leftarrow> sendBuffered e q g;
          Some (if err \<noteq> ERR_OK then fail_send q else q, g) }
        else if p_sending (ctxResponse q) = 0 then do {
          (q, g, ok) \<leftarrow> send_headers e q g;
          if ok then send_body e caller q g else Some (q, g) }
        else if q_state q = HTTP_STATE_SENDING_HEADER \<and> caller = HTTP_PROC_CALLER_SENT then
          send_body e caller
            (q\<lparr>q_state := (if q_result q < 0 then HTTP_STATE_REQUEST_END else HTTP_STATE_SENDING_BODY)\<rparr>) g
        else send_body e caller q g })"

section \<open>The request procedure\<close>

definition end_request :: "env \<Rightarrow> REQUEST_CONTEXT \<Rightarrow> glob \<Rightarrow> (REQUEST_CONTEXT \<times> glob) option" where
  "end_request e q g =
     (if q_peer_closing q > 0 then CloseHttpContext e q g
      else if q_keepalive q > 0 then Some (ResetHttpContext q g)
      else CloseHttpContext e q g)"

definition HttpRequestProc :: "env \<Rightarrow> proc_caller \<Rightarrow> REQUEST_CONTEXT \<Rightarrow> glob \<Rightarrow> (REQUEST_CONTEXT \<times> glob) option" where
  "HttpRequestProc e caller q g =
     (case request_loop (loop_fuel q) e q g of
        Done (q, g, returned) \<Rightarrow>
          if returned then Some (q, g)
          else if q_state q \<ge> HTTP_STATE_BODY_DONE then do {
            (q, g) \<leftarrow> HttpResponseProc e caller q g;
            if q_state q = HTTP_STATE_REQUEST_END then end_request e q g else Some (q, g) }
          else Some (if q_peer_closing q > 0 then q\<lparr>q_result := - 500\<rparr> else q, g)
      | _ \<Rightarrow> None)"

section \<open>The table of connections and the callbacks\<close>

type_synonym server = "REQUEST_CONTEXT list \<times> glob"

definition SetupHttpContext :: "glob \<Rightarrow> server" where
  "SetupHttpContext g =
     (map (\<lambda>i. zero_context\<lparr>q_sid := i\<rparr>) [0..<MAX_CONNECTIONS],
      g\<lparr>g_httpSessions := SetupSession, g_cgiMapping := CGI_SetupMapping (g_cgiMapping g)\<rparr>)"

definition GetHttpContext :: "env \<Rightarrow> u32 \<Rightarrow> server \<Rightarrow> server \<times> nat option" where
  "GetHttpContext e ipRemote = (\<lambda>(cs, g).
     if e_tls e \<and> length (filter (\<lambda>c. q_pcb c \<noteq> None \<and> q_ipRemote c = ipRemote) cs) \<ge> MAX_CONN_PER_IP
     then ((cs, g), None)
     else case List.find (\<lambda>i. q_pcb (cs ! i) = None) [0..<length cs] of
       None \<Rightarrow> ((cs, g), None)
     | Some i \<Rightarrow>
         (let g = free_chain (cs ! i) g;
              (q, g) = ResetHttpContext ((cs ! i)\<lparr>q_reqBufList := [], q_bufOffset := 0, q_peer_closing := 0\<rparr>) g
          in ((cs[i := q], g), Some i)))"

definition put :: "nat \<Rightarrow> REQUEST_CONTEXT list \<Rightarrow> (REQUEST_CONTEXT \<times> glob) \<Rightarrow> server" where
  "put i cs = (\<lambda>(q, g). (cs[i := q], g))"

text \<open>Closing a pcb that has no context any more, as \<^verbatim>\<open>OnHttpPoll\<close> and \<^verbatim>\<open>OnHttpSent\<close> do.\<close>

definition retry_close :: "env \<Rightarrow> nat \<Rightarrow> glob \<Rightarrow> glob \<times> int" where
  "retry_close e pcb g =
     (let g = call (Altcp_poll pcb False) g; err = e_close e (g_calls g); g = call (Altcp_close pcb) g
      in if err \<noteq> ERR_OK then (PrintLwipStatus (call (Altcp_abort pcb) g), ERR_ABRT) else (PrintLwipStatus g, err))"

text \<open>
  The new connection comes with its address, its ports and whether it is a TLS connection. A
  NULL pcb is dereferenced by the first log line.
\<close>

definition OnHttpAccept :: "env \<Rightarrow> nat option \<Rightarrow> int \<Rightarrow> u32 \<Rightarrow> nat \<Rightarrow> nat \<Rightarrow> bool \<Rightarrow> server \<Rightarrow> (server \<times> int) option" where
  "OnHttpAccept e pcbAccepted errIn remote_ip remote_port local_port inner = (\<lambda>(cs, g). do {
     pcb \<leftarrow> pcbAccepted;
     let g = PrintLwipStatus g;
     if errIn \<noteq> ERR_OK then Some ((cs, g), ERR_VAL)
     else
       (let g = calls [Altcp_setprio pcb, Altcp_nagle_disable pcb] g in
        case GetHttpContext e remote_ip (cs, g) of
          ((cs, g), None) \<Rightarrow>
            (let err = e_close e (g_calls g); g = call (Altcp_close pcb) g in
             Some (if err \<noteq> ERR_OK then ((cs, call (Altcp_abort pcb) g), ERR_ABRT) else ((cs, g), err)))
        | ((cs, g), Some i) \<Rightarrow>
            Some ((cs[i := (cs ! i)\<lparr>q_pcb := Some pcb, q_https := (if e_tls e \<and> inner then 1 else 0),
                            q_ipRemote := remote_ip, q_portRemote := remote_port, q_portLocal := local_port\<rparr>],
                   calls [Altcp_arg pcb (Some i), Altcp_callbacks pcb True, Altcp_poll pcb True] g), ERR_OK)) })"

text \<open>Queueing or copying the received chain \<open>p\<close>.\<close>

definition receive_pbuf :: "nat \<Rightarrow> bytes list \<Rightarrow> REQUEST_CONTEXT \<Rightarrow> glob \<Rightarrow> (REQUEST_CONTEXT \<times> glob) option" where
  "receive_pbuf pcb p q g =
     (let chain = concat p; tot_len = int (length chain) in
      if q_reqBufList q \<noteq> [] then Some (q\<lparr>q_reqBufList := q_reqBufList q @ p\<rparr>, g)
      else if tot_len > q_max_level q - q_request_length q then Some (q\<lparr>q_reqBufList := p\<rparr>, g)
      else do {
        q \<leftarrow> append_rx chain q;
        Some (q, calls [Altcp_recved pcb (length chain), Pbuf_free chain] g) })"

text \<open>What follows the request procedure in \<^verbatim>\<open>OnHttpReceive\<close>.\<close>

definition after_receive :: "env \<Rightarrow> REQUEST_CONTEXT \<Rightarrow> glob \<Rightarrow> (REQUEST_CONTEXT \<times> glob) option" where
  "after_receive e q g =
     (let q = (if q_result q \<le> - 400 then CGI_Cancel q else q) in
      if q_result q \<le> - 500 then CloseHttpContext e q g
      else Some (q, if q_checkAlive q = 0
        then g\<lparr>g_httpSessions := SessionReceived (g_now g) (q_session q) (g_httpSessions g)\<rparr> else g))"

definition OnHttpReceive :: "env \<Rightarrow> nat option \<Rightarrow> nat \<Rightarrow> bytes list option \<Rightarrow> server \<Rightarrow> (server \<times> int) option" where
  "OnHttpReceive e arg pcb p = (\<lambda>(cs, g).
     case arg of
       None \<Rightarrow> Some ((cs, case p of None \<Rightarrow> g
                  | Some p \<Rightarrow> calls [Altcp_recved pcb (length (concat p)), Pbuf_free (concat p)] g), ERR_OK)
     | Some i \<Rightarrow>
         (let q = cs ! i in
          if p = None \<and> q_state q = HTTP_STATE_IDLE
          then map_option (\<lambda>r. (put i cs r, ERR_OK)) (CloseHttpContext e q g)
          else do {
            let q = (if p = None then q\<lparr>q_peer_closing := 1\<rparr> else q);
            let q = q\<lparr>q_tLastReceived := tick_stamp (g_now g)\<rparr>;
            (q, g) \<leftarrow> (case p of None \<Rightarrow> Some (q, g) | Some p \<Rightarrow> receive_pbuf pcb p q g);
            (q, g) \<leftarrow> HttpRequestProc e HTTP_PROC_CALLER_RECV q g;
            (q, g) \<leftarrow> after_receive e q g;
            Some (put i cs (q, g), ERR_OK) }))"

text \<open>The common end of \<^verbatim>\<open>OnHttpPoll\<close> and \<^verbatim>\<open>OnHttpSent\<close>.\<close>

definition after_event :: "env \<Rightarrow> REQUEST_CONTEXT \<Rightarrow> glob \<Rightarrow> (REQUEST_CONTEXT \<times> glob) option" where
  "after_event e q g =
     (let q = (if q_result q < 0 then CGI_Cancel q else q) in
      if q_result q \<le> - 500 then CloseHttpContext e q g else Some (q, g))"

definition OnHttpPoll :: "env \<Rightarrow> nat option \<Rightarrow> nat \<Rightarrow> server \<Rightarrow> (server \<times> int) option" where
  "OnHttpPoll e arg pcb = (\<lambda>(cs, g).
     case arg of
       None \<Rightarrow> (case retry_close e pcb g of (g, err) \<Rightarrow> Some ((cs, g), err))
     | Some i \<Rightarrow>
         (let q = cs ! i in
          if IsContextTimeout q g
          then map_option (\<lambda>r. (put i cs r, ERR_OK)) (CloseHttpContext e (CGI_Cancel q) g)
          else do {
            (q, g) \<leftarrow> HttpRequestProc e HTTP_PROC_CALLER_POLL q g;
            (q, g) \<leftarrow> after_event e q g;
            Some (put i cs (q, g), ERR_OK) }))"

definition OnHttpSent :: "env \<Rightarrow> nat option \<Rightarrow> nat \<Rightarrow> nat \<Rightarrow> server \<Rightarrow> (server \<times> int) option" where
  "OnHttpSent e arg pcb len = (\<lambda>(cs, g).
     case arg of
       None \<Rightarrow> (case retry_close e pcb g of (g, err) \<Rightarrow> Some ((cs, g), err))
     | Some i \<Rightarrow> do {
         let q = cs ! i;
         let g = (if q_checkAlive q = 0
                  then g\<lparr>g_httpSessions := SessionSent (g_now g) (q_session q) (g_httpSessions g)\<rparr> else g);
         let q = upd_resp (\<lambda>r. r\<lparr>p_totalSent := p_totalSent r + int len\<rparr>) q;
         (q, g) \<leftarrow> HttpRequestProc e HTTP_PROC_CALLER_SENT q g;
         (q, g) \<leftarrow> after_event e q g;
         Some (put i cs (q, g), ERR_OK) })"

definition OnHttpError :: "nat option \<Rightarrow> server \<Rightarrow> server option" where
  "OnHttpError arg = (\<lambda>(cs, g).
     case arg of
       None \<Rightarrow> Some (cs, PrintLwipStatus g)
     | Some i \<Rightarrow> do {
         (q, g) \<leftarrow> FreeHttpContext (CGI_Cancel (cs ! i)) g;
         Some (put i cs (q, PrintLwipStatus g)) })"

text \<open>
  The listening sockets. The answers of the stack are a new pcb, plain or TLS, and the pcb that
  listening turns it into. Without TLS in the build a TLS socket is not even asked for.
\<close>

record listen_env =
  le_new :: "bool \<Rightarrow> net_call list \<Rightarrow> nat option"
  le_listen :: "nat \<Rightarrow> net_call list \<Rightarrow> nat option"

definition HttpdInit :: "env \<Rightarrow> listen_env \<Rightarrow> int \<Rightarrow> nat \<Rightarrow> glob \<Rightarrow> glob \<times> nat option" where
  "HttpdInit e le tls port g =
     (let (g, listen) =
        (if tls > 0
         then (if e_tls e then (g\<lparr>g_httpsListening := 0\<rparr>, le_new le True (g_calls g)) else (g, None))
         else (g, le_new le False (g_calls g)))
      in case listen of
        None \<Rightarrow> (g, None)
      | Some pcb \<Rightarrow>
          (let g = calls [Altcp_setprio pcb, Altcp_bind pcb port, Altcp_listen pcb] g;
               listen = le_listen le pcb (g_calls g);
               g = call (Altcp_accept listen) g
           in (if tls > 0 \<and> listen \<noteq> None then g\<lparr>g_httpsListening := 1\<rparr> else g, listen)))"

fun free_contexts :: "nat list \<Rightarrow> server \<Rightarrow> server option" where
  "free_contexts [] s = Some s"
| "free_contexts (i # is) (cs, g) = do { r \<leftarrow> FreeHttpContext (cs ! i) g; free_contexts is (put i cs r) }"

definition HttpdStop :: "nat \<Rightarrow> server \<Rightarrow> server option" where
  "HttpdStop pcbListen = (\<lambda>(cs, g). do {
     (cs, g) \<leftarrow> free_contexts [0..<length cs] (cs, call (Altcp_close pcbListen) g);
     Some (cs, PrintLwipStatus g) })"

end
