(* ===== verification/Receive_Queue.thy ===== *)
theory Receive_Queue
  imports Http_Server Samples
begin

text \<open>
  The receive side of \<^verbatim>\<open>http_core.c\<close>: what the queue of pbufs and the receive buffer hold
  together, and the credit given back to the TCP window as pbufs are freed.
\<close>

section \<open>The state of the receive side\<close>

definition queue_ok :: "REQUEST_CONTEXT \<Rightarrow> bool" where
  "queue_ok q \<longleftrightarrow> (if q_reqBufList q = [] then q_bufOffset q = 0
     else 0 \<le> q_bufOffset q \<and> q_bufOffset q < int (length (concat (q_reqBufList q))))"

definition rx_shape :: "REQUEST_CONTEXT \<Rightarrow> bool" where
  "rx_shape q \<longleftrightarrow> length (q_http_request_buffer q) = 132 \<and> q_max_level q = int MAX_REQ_BUF_SIZE
     \<and> q_request_length q \<le> int MAX_REQ_BUF_SIZE \<and> queue_ok q"

definition recv_inv :: "REQUEST_CONTEXT \<Rightarrow> bool" where
  "recv_inv q \<longleftrightarrow> rx_shape q \<and> 0 \<le> q_request_length q"

text \<open>The bytes received and not dealt with: the buffer, then the queue.\<close>

definition backlog :: "REQUEST_CONTEXT \<Rightarrow> bytes" where
  "backlog q = take (nat (q_request_length q)) (q_http_request_buffer q) @ queued q"

text \<open>Credit given to the window so far.\<close>

definition credit :: "glob \<Rightarrow> nat" where
  "credit g = sum_list (map (\<lambda>c. case c of Altcp_recved _ n \<Rightarrow> n | _ \<Rightarrow> 0) (g_calls g))"

text \<open>Everything but the receive buffer, its length and the queue.\<close>

definition rx_frame :: "REQUEST_CONTEXT \<Rightarrow> REQUEST_CONTEXT \<Rightarrow> bool" where
  "rx_frame q q' \<longleftrightarrow> (\<exists>ps off len buf. q' = q\<lparr>q_reqBufList := ps, q_bufOffset := off, q_request_length := len, q_http_request_buffer := buf\<rparr>)"

text \<open>The queue, the length and the size of the buffer are the same.\<close>

definition same_rx :: "REQUEST_CONTEXT \<Rightarrow> REQUEST_CONTEXT \<Rightarrow> bool" where
  "same_rx q q' \<longleftrightarrow> q_reqBufList q' = q_reqBufList q \<and> q_bufOffset q' = q_bufOffset q
     \<and> q_request_length q' = q_request_length q \<and> q_max_level q' = q_max_level q
     \<and> length (q_http_request_buffer q') = length (q_http_request_buffer q)"

lemma same_rx_refl [simp]: "same_rx q q"
  by (simp add: same_rx_def)

lemma same_rx_trans: "same_rx a b \<Longrightarrow> same_rx b c \<Longrightarrow> same_rx a c"
  by (simp add: same_rx_def)

lemma same_rx_pending: "same_rx q q' \<Longrightarrow> pending q' = pending q"
  by (simp add: same_rx_def pending_def)

lemma same_rx_shape: "same_rx q q' \<Longrightarrow> rx_shape q' = rx_shape q"
  by (simp add: same_rx_def rx_shape_def queue_ok_def)

lemma upd_resp_rx [simp]:
  "q_reqBufList (upd_resp f q) = q_reqBufList q" "q_bufOffset (upd_resp f q) = q_bufOffset q"
  "q_request_length (upd_resp f q) = q_request_length q" "q_max_level (upd_resp f q) = q_max_level q"
  "q_http_request_buffer (upd_resp f q) = q_http_request_buffer q"
  "q_state (upd_resp f q) = q_state q" "q_result (upd_resp f q) = q_result q" "q_pcb (upd_resp f q) = q_pcb q"
  by (simp_all add: upd_resp_def)

lemma set_ssi_rx [simp]:
  "q_reqBufList (set_ssi c q) = q_reqBufList q" "q_bufOffset (set_ssi c q) = q_bufOffset q"
  "q_request_length (set_ssi c q) = q_request_length q" "q_max_level (set_ssi c q) = q_max_level q"
  "q_http_request_buffer (set_ssi c q) = q_http_request_buffer q"
  by (simp_all add: set_ssi_def)

lemma calls_simps [simp]:
  "g_calls (calls cs g) = g_calls g @ cs" "g_calls (call c g) = g_calls g @ [c]"
  by (simp_all add: calls_def call_def)

section \<open>Taking bytes from the queue\<close>

lemma free_head_props:
  assumes "0 \<le> off" and "off < int (length (concat ps))"
  shows "\<exists>ps' off' g'. free_head ps off pcb g = Some (ps', off', g') \<and> ps' \<noteq> [] \<and> 0 \<le> off' \<and> off' < int (length (hd ps'))
    \<and> drop (nat off') (concat ps') = drop (nat off) (concat ps)
    \<and> credit g' + length (concat ps') = credit g + length (concat ps)"
  using assms
proof (induction ps arbitrary: off g)
  case (Cons p ps)
  show ?case
  proof (cases "off < int (length p)")
    case False
    then have ps: "ps \<noteq> []" using Cons.prems by auto
    let ?g = "calls [Altcp_recved pcb (length p), Pbuf_free p] g"
    from Cons.IH [of "off - int (length p)" ?g] Cons.prems False
    obtain ps' off' g' where *: "free_head ps (off - int (length p)) pcb ?g = Some (ps', off', g')" "ps' \<noteq> []" "0 \<le> off'"
      "off' < int (length (hd ps'))" "drop (nat off') (concat ps') = drop (nat (off - int (length p))) (concat ps)"
      "credit g' + length (concat ps') = credit ?g + length (concat ps)" by auto
    have "nat (off - int (length p)) = nat off - length p" using False by auto
    with * ps False show ?thesis by (auto simp: credit_def)
  qed (use Cons.prems in auto)
qed simp

lemma append_rx_defined:
  assumes "length (q_http_request_buffer q) = 132" and "0 \<le> q_request_length q" and "q_request_length q + int (length blk) \<le> 128"
  shows "\<exists>buf. append_rx blk q = Some (q\<lparr>q_http_request_buffer := buf, q_request_length := q_request_length q + int (length blk)\<rparr>)
    \<and> length buf = 132 \<and> take (nat (q_request_length q + int (length blk))) buf = take (nat (q_request_length q)) (q_http_request_buffer q) @ blk"
proof -
  let ?len = "q_request_length q" and ?buf = "q_http_request_buffer q"
  let ?k = "nat ?len + length blk"
  define b1 where "b1 = take (nat ?len) ?buf @ blk @ drop ?k ?buf"
  have l1: "length b1 = 132" using assms by (auto simp: b1_def)
  have t1: "take ?k b1 = take (nat ?len) ?buf @ blk" using assms by (auto simp: b1_def)
  have k: "nat (?len + int (length blk)) = ?k" "nat (?len + int (length blk) + 1) = Suc ?k" using assms by auto
  have "blit ?buf ?len blk = Some b1" using assms by (simp add: blit_def in_arr_def b1_def)
  then show ?thesis using assms l1 t1 k
    by (intro exI [of _ "(b1[?k := NUL])[Suc ?k := NUL]"])
      (simp add: append_rx_def poke_def in_arr_def)
qed

lemma release_props:
  assumes pcb: "q_pcb q = Some pcb" and ne: "q_reqBufList q \<noteq> []" and off: "0 \<le> off" "off \<le> int (length (concat (q_reqBufList q)))"
  shows "\<exists>ps off' g'. release off q g = Some (q\<lparr>q_reqBufList := ps, q_bufOffset := off'\<rparr>, g')
    \<and> (if ps = [] then off' = 0 else 0 \<le> off' \<and> off' < int (length (concat ps)))
    \<and> (ps \<noteq> [] \<longrightarrow> off < int (length (concat (q_reqBufList q))))
    \<and> drop (nat off') (concat ps) = drop (nat off) (concat (q_reqBufList q))
    \<and> int (length (concat ps)) - off' = int (length (concat (q_reqBufList q))) - off
    \<and> credit g' + length (concat ps) = credit g + length (concat (q_reqBufList q))"
proof (cases "off = int (length (concat (q_reqBufList q)))")
  case True
  then show ?thesis using pcb
    by (intro exI [of _ "[]"] exI [of _ 0] exI [of _ "calls [Altcp_recved pcb (length (concat (q_reqBufList q))), Pbuf_free (concat (q_reqBufList q))] g"])
      (simp add: release_def Let_def credit_def)
next
  case False
  then have less: "off < int (length (concat (q_reqBufList q)))" using off by simp
  from free_head_props [OF off(1) less, of pcb g] obtain ps off' g' where f:
    "free_head (q_reqBufList q) off pcb g = Some (ps, off', g')" "ps \<noteq> []" "0 \<le> off'" "off' < int (length (hd ps))"
    "drop (nat off') (concat ps) = drop (nat off) (concat (q_reqBufList q))"
    "credit g' + length (concat ps) = credit g + length (concat (q_reqBufList q))" by auto
  have "length (hd ps) \<le> length (concat ps)" using f(2) by (cases ps) auto
  then have off': "off' < int (length (concat ps))" using f(4) by linarith
  have "length (drop (nat off') (concat ps)) = length (drop (nat off) (concat (q_reqBufList q)))" using f(5) by simp
  then have "int (length (concat ps)) - off' = int (length (concat (q_reqBufList q))) - off" using off' f(3) off less by auto
  with False f off' less show ?thesis using pcb
    by (intro exI [of _ ps] exI [of _ off'] exI [of _ g']) (simp add: release_def Let_def)
qed

lemma rx_frame_refl: "rx_frame q q"
  unfolding rx_frame_def
  by (intro exI [of _ "q_reqBufList q"] exI [of _ "q_bufOffset q"] exI [of _ "q_request_length q"] exI [of _ "q_http_request_buffer q"]) simp

lemma dequeue_props:
  assumes inv: "recv_inv q" and pcb: "q_pcb q \<noteq> None"
  shows "\<exists>q' g'. dequeue q g = Some (q', g') \<and> recv_inv q' \<and> backlog q' = backlog q \<and> rx_frame q q'
    \<and> pending q' = pending q \<and> (q_reqBufList q' \<noteq> [] \<longrightarrow> q_request_length q' = int MAX_REQ_BUF_SIZE)
    \<and> credit g' + length (concat (q_reqBufList q')) = credit g + length (concat (q_reqBufList q))"
proof (cases "q_reqBufList q = [] \<or> q_request_length q \<ge> q_max_level q")
  case True
  then have "dequeue q g = Some (q, g)" by (auto simp: dequeue_def Let_def)
  moreover have "q_reqBufList q \<noteq> [] \<longrightarrow> q_request_length q = int MAX_REQ_BUF_SIZE"
    using True inv by (auto simp: recv_inv_def rx_shape_def)
  ultimately show ?thesis using inv rx_frame_refl by auto
next
  case False
  define chain where "chain = concat (q_reqBufList q)"
  let ?off = "q_bufOffset q" and ?len = "q_request_length q"
  define n where "n = min (q_max_level q - ?len) (int (length chain) - ?off)"
  define blk where "blk = take (nat n) (drop (nat ?off) chain)"
  from False inv have b: "length (q_http_request_buffer q) = 132" "q_max_level q = 128" "0 \<le> ?len" "?len < 128" "0 \<le> ?off"
    "?off < int (length chain)" "q_reqBufList q \<noteq> []"
    by (auto simp: recv_inv_def rx_shape_def queue_ok_def chain_def)
  have n: "0 < n" "?len + n \<le> 128" "?off + n \<le> int (length chain)" using b by (auto simp: n_def)
  have full: "?off + n < int (length chain) \<Longrightarrow> ?len + n = 128" using b(2) unfolding n_def by linarith
  have blk: "int (length blk) = n" using n b by (simp add: blk_def)
  from append_rx_defined [of q blk] b n blk obtain buf where
    a: "append_rx blk q = Some (q\<lparr>q_http_request_buffer := buf, q_request_length := ?len + n\<rparr>)"
    and buf: "length buf = 132" "take (nat (?len + n)) buf = take (nat ?len) (q_http_request_buffer q) @ blk" by auto
  let ?q = "q\<lparr>q_http_request_buffer := buf, q_request_length := ?len + n\<rparr>"
  obtain pcb where p: "q_pcb q = Some pcb" using pcb by auto
  from release_props [of ?q pcb "?off + n" g] p b n obtain ps off' g' where
    r: "release (?off + n) ?q g = Some (?q\<lparr>q_reqBufList := ps, q_bufOffset := off'\<rparr>, g')"
    and queue: "if ps = [] then off' = 0 else 0 \<le> off' \<and> off' < int (length (concat ps))"
    and more: "ps \<noteq> [] \<longrightarrow> ?off + n < int (length chain)"
    and rest: "drop (nat off') (concat ps) = drop (nat (?off + n)) chain"
    and size': "int (length (concat ps)) - off' = int (length chain) - (?off + n)"
    and credit: "credit g' + length (concat ps) = credit g + length chain"
    by (auto simp: chain_def)
  have step: "dequeue q g = Some (?q\<lparr>q_reqBufList := ps, q_bufOffset := off'\<rparr>, g')"
    unfolding dequeue_def Let_def chain_def [symmetric] n_def [symmetric] blk_def [symmetric]
    using n(1) b(7) a r by simp
  let ?q' = "q\<lparr>q_reqBufList := ps, q_bufOffset := off', q_request_length := ?len + n, q_http_request_buffer := buf\<rparr>"
  have q': "?q\<lparr>q_reqBufList := ps, q_bufOffset := off'\<rparr> = ?q'" by simp
  have "drop (nat (?off + n)) chain = drop (nat n) (drop (nat ?off) chain)"
    using b(5) n(1) by (simp add: nat_add_distrib add.commute)
  then have "drop (nat ?off) chain = blk @ drop (nat (?off + n)) chain"
    unfolding blk_def by (simp only: append_take_drop_id)
  then have "backlog ?q' = backlog q" using buf(2) rest by (simp add: backlog_def queued_def chain_def)
  moreover have "recv_inv ?q'" using b n buf(1) queue by (simp add: recv_inv_def rx_shape_def queue_ok_def)
  moreover have "rx_frame q ?q'" unfolding rx_frame_def by blast
  ultimately show ?thesis unfolding step q' using size' credit more full
    by (intro exI [of _ ?q'] exI [of _ g']) (simp add: pending_def chain_def)
qed

lemma append_rx_pcb: "append_rx blk q = Some q' \<Longrightarrow> q_pcb q' = q_pcb q"
  by (auto simp: append_rx_def Let_def bind_eq_Some_conv)

text \<open>Without a pcb nothing can be taken from the queue, so nothing is.\<close>

lemma dequeue_some:
  assumes inv: "recv_inv q" and d: "dequeue q g = Some (q', g')"
  shows "recv_inv q' \<and> backlog q' = backlog q \<and> rx_frame q q' \<and> pending q' = pending q
    \<and> (q_reqBufList q' \<noteq> [] \<longrightarrow> q_request_length q' = int MAX_REQ_BUF_SIZE)
    \<and> credit g' + length (concat (q_reqBufList q')) = credit g + length (concat (q_reqBufList q))"
proof (cases "q_pcb q = None")
  case True
  let ?n = "min (q_max_level q - q_request_length q) (int (length (concat (q_reqBufList q))) - q_bufOffset q)"
  have r: "release off q1 g = None" if "append_rx blk q = Some q1" for blk q1 off
    using append_rx_pcb [OF that] True by (simp add: release_def Let_def)
  have "q_reqBufList q = [] \<or> \<not> 0 < ?n"
  proof (rule ccontr)
    assume "\<not> ?thesis"
    then have "0 < ?n" and "q_reqBufList q \<noteq> []" by blast+
    with d r show False unfolding dequeue_def Let_def by (auto simp only: if_True if_False bind_eq_Some_conv)
  qed
  moreover from this have "q' = q \<and> g' = g"
    using d unfolding dequeue_def Let_def by (auto simp del: min_less_iff_conj split: if_splits)
  ultimately show ?thesis
    using inv rx_frame_refl [of q] by (auto simp: recv_inv_def rx_shape_def queue_ok_def)
next
  case False
  from dequeue_props [OF inv False, of g] d show ?thesis by auto
qed

lemma receive_pbuf_props:
  assumes inv: "recv_inv q"
  shows "\<exists>q' g'. receive_pbuf pcb p q g = Some (q', g') \<and> recv_inv q' \<and> backlog q' = backlog q @ concat p \<and> q_pcb q' = q_pcb q
    \<and> credit g' + length (concat (q_reqBufList q')) = credit g + length (concat (q_reqBufList q)) + length (concat p)"
proof -
  let ?n = "int (length (concat p))"
  from inv have b: "length (q_http_request_buffer q) = 132" "q_max_level q = 128" "0 \<le> q_request_length q" "q_request_length q \<le> 128" "queue_ok q"
    by (simp_all add: recv_inv_def rx_shape_def)
  show ?thesis
  proof (cases "q_reqBufList q = []")
    case False
    then show ?thesis using inv
      by (auto simp: receive_pbuf_def Let_def recv_inv_def rx_shape_def queue_ok_def backlog_def queued_def)
  next
    case True
    then have off: "q_bufOffset q = 0" using b(5) by (simp add: queue_ok_def)
    show ?thesis
    proof (cases "?n > 128 - q_request_length q")
      case big: True
      then have "concat p \<noteq> []" using b(4) by (intro notI) simp
      moreover from this have "p \<noteq> []" by auto
      ultimately have "p \<noteq> []" "\<exists>x \<in> set p. x \<noteq> []" by auto
      with big True off inv b show ?thesis
        by (auto simp: receive_pbuf_def Let_def recv_inv_def rx_shape_def queue_ok_def backlog_def queued_def)
    next
      case False
      with append_rx_defined [OF b(1,3), of "concat p"] obtain buf where
        a: "append_rx (concat p) q = Some (q\<lparr>q_http_request_buffer := buf, q_request_length := q_request_length q + ?n\<rparr>)"
        "length buf = 132" "take (nat (q_request_length q + ?n)) buf = take (nat (q_request_length q)) (q_http_request_buffer q) @ concat p"
        by auto
      with False True off b show ?thesis
        by (auto simp: receive_pbuf_def Let_def recv_inv_def rx_shape_def queue_ok_def backlog_def queued_def credit_def)
    qed
  qed
qed

section \<open>Properties\<close>

text \<open>
  C8: Received bytes are kept in order and none is lost or duplicated, and the window is given
  back byte for byte. From any well-formed state of the receive side, taking in a chain of
  pbufs appends its bytes to those not dealt with, and the step that moves bytes from the
  queue into the 128-byte buffer changes nothing of them; both always succeed and keep the
  state well formed. At every moment the credit given back to the stack and the bytes in the
  queue add up to what was received.
\<close>

theorem received_in_order:
  assumes "recv_inv q" and "q_pcb q \<noteq> None"
  shows "\<exists>q1 g1 q2 g2. receive_pbuf pcb p q g = Some (q1, g1) \<and> dequeue q1 g1 = Some (q2, g2) \<and> recv_inv q1 \<and> recv_inv q2
    \<and> backlog q1 = backlog q @ concat p \<and> backlog q2 = backlog q1
    \<and> credit g1 + length (concat (q_reqBufList q1)) = credit g + length (concat (q_reqBufList q)) + length (concat p)
    \<and> credit g2 + length (concat (q_reqBufList q2)) = credit g1 + length (concat (q_reqBufList q1))
    \<and> (q_reqBufList q2 = [] \<or> q_request_length q2 = 128)"
proof -
  from receive_pbuf_props [OF assms(1), of pcb p g] obtain q1 g1 where 1: "receive_pbuf pcb p q g = Some (q1, g1)" "recv_inv q1"
    "backlog q1 = backlog q @ concat p" "q_pcb q1 = q_pcb q"
    "credit g1 + length (concat (q_reqBufList q1)) = credit g + length (concat (q_reqBufList q)) + length (concat p)" by blast
  from 1(4) assms(2) have "q_pcb q1 \<noteq> None" by simp
  from dequeue_props [OF 1(2) this, of g1] obtain q2 g2 where 2: "dequeue q1 g1 = Some (q2, g2)" "recv_inv q2" "backlog q2 = backlog q1"
    "q_reqBufList q2 \<noteq> [] \<longrightarrow> q_request_length q2 = int MAX_REQ_BUF_SIZE"
    "credit g2 + length (concat (q_reqBufList q2)) = credit g1 + length (concat (q_reqBufList q1))" by blast
  from 1 2 show ?thesis by auto
qed

theorem received_in_order_witness:
  "\<exists>q1 g1 q2 g2. receive_pbuf 7 [zeros 100, zeros 100] sample_context sample_glob = Some (q1, g1) \<and> dequeue q1 g1 = Some (q2, g2)
    \<and> backlog q2 = zeros 200"
  using received_in_order [of sample_context 7 "[zeros 100, zeros 100]" sample_glob]
  by (auto simp: recv_inv_def rx_shape_def queue_ok_def sample_context_def zero_context_def backlog_def queued_def zeros_def replicate_add [symmetric])

end
