(* ===== verification/Receive_Loop.thy ===== *)
theory Receive_Loop
  imports Receive_Queue
begin

text \<open>
  The request loop of \<^verbatim>\<open>http_core.c\<close> ends. The operations that handle a part of a request
  leave the queue of received data alone, and the handlers of body bytes do not claim more
  than they were given; that is the locale \<open>content_handler\<close>. A turn of the loop that
  asks for another one has then dealt with at least one byte.
\<close>

section \<open>What the parts of a request leave alone\<close>

lemma b64_loop_length:
  "b64_loop d i rc vc cv = Some (d', r) \<Longrightarrow> length d' = length d"
proof (induction d i rc vc cv rule: b64_loop.induct)
  case (1 d i rc vc cv)
  show ?case
  proof (cases "length d \<le> i \<or> d ! i = NUL")
    case True
    with "1.prems" show ?thesis by (subst (asm) b64_loop.simps) (auto split: if_splits)
  next
    case False
    then have i: "\<not> length d \<le> i" "d ! i \<noteq> NUL" by auto
    show ?thesis
    proof (cases "d ! i = CR \<or> d ! i = LF \<or> d ! i = CHR ''=''")
      case True
      with i "1.prems" have "b64_loop d (Suc i) rc vc cv = Some (d', r)" by (subst (asm) b64_loop.simps) simp
      with i True show ?thesis by (rule "1.IH"(1))
    next
      case skip: False
      show ?thesis
      proof (cases "b64_value (d ! i)")
        case None
        with i skip "1.prems" show ?thesis by (subst (asm) b64_loop.simps) simp
      next
        case (Some v)
        let ?cv = "(cv * 64 mod 2 ^ 32 + v) mod 2 ^ 32"
        show ?thesis
        proof (cases "Suc vc mod 4 = 0")
          case True
          let ?d = "d[rc := chr (?cv div 65536 mod 256), rc + 1 := chr (?cv div 256 mod 256), rc + 2 := chr (?cv mod 256)]"
          from True i skip Some "1.prems" have rc: "\<not> length d \<le> rc + 2"
            and e: "b64_loop ?d (Suc i) (rc + 3) (Suc vc) 0 = Some (d', r)"
            by (subst (asm) b64_loop.simps, simp add: Let_def split: if_splits)+
          from "1.IH"(2) [OF i skip Some refl refl True rc e] show ?thesis by simp
        next
          case False
          with i skip Some "1.prems" have "b64_loop d (Suc i) rc (Suc vc) ?cv = Some (d', r)"
            by (subst (asm) b64_loop.simps) (simp add: Let_def)
          from "1.IH"(3) [OF i skip Some refl refl False this] show ?thesis .
        qed
      qed
    qed
  qed
qed

lemma DecodeB64_length: "DecodeB64 d = Some (d', n) \<Longrightarrow> length d' = length d"
  by (auto simp: DecodeB64_def bind_eq_Some_conv poke_eq_Some split: if_splits dest!: b64_loop_length)

lemma Upload_OnHeaderReceived_rx:
  "Upload_OnHeaderReceived line q = Some (line', q', n) \<Longrightarrow> same_rx q q' \<and> length line' = length line \<and> q_state q' = q_state q \<and> q_result q' = q_result q"
  by (auto simp: Upload_OnHeaderReceived_def bind_eq_Some_conv Let_def poke_eq_Some same_rx_def
      split: if_splits dest!: DecodeB64_length)

lemma CGI_HeaderReceived_rx:
  assumes "CGI_HeaderReceived line q = Some (line', q', n)"
  shows "same_rx q q' \<and> length line' = length line \<and> q_state q' = q_state q \<and> q_result q' = q_result q"
proof (cases "q_handler q")
  case (Some h)
  with assms show ?thesis using Upload_OnHeaderReceived_rx by (cases h) (auto simp: CGI_HeaderReceived_def)
qed (use assms in \<open>auto simp: CGI_HeaderReceived_def\<close>)

lemma ParseQueryString_rx: "ParseQueryString q = Some q' \<Longrightarrow> same_rx q q' \<and> q_state q' = q_state q \<and> q_result q' = q_result q"
  by (auto simp: ParseQueryString_def bind_eq_Some_conv same_rx_def split: if_splits)

lemma CGI_SetCgiHandler_rx: "same_rx q (CGI_SetCgiHandler q g) \<and> q_state (CGI_SetCgiHandler q g) = q_state q
    \<and> q_result (CGI_SetCgiHandler q g) = q_result q"
  by (auto simp: CGI_SetCgiHandler_def same_rx_def split: option.splits)

lemma request_line_rx:
  assumes "request_line g l i q = Some (q', stop)"
  shows "same_rx q q' \<and> q_state q' = q_state q"
  using assms CGI_SetCgiHandler_rx
  by (auto simp: request_line_def Let_def bind_eq_Some_conv same_rx_def split: if_splits prod.splits option.splits
      dest!: ParseQueryString_rx)

lemma header_range_line_rx:
  "header_range_line l line q = Some q' \<Longrightarrow> same_rx q q' \<and> q_state q' = q_state q \<and> q_result q' = q_result q"
  by (auto simp: header_range_line_def bind_eq_Some_conv same_rx_def)

lemma header_token_line_rx:
  "header_token_line l i q = Some q' \<Longrightarrow> same_rx q q' \<and> q_state q' = q_state q \<and> q_result q' = q_result q"
  by (auto simp: header_token_line_def Let_def bind_eq_Some_conv same_rx_def)

lemma header_line_rx:
  assumes "header_line l i q = Some q'" and "l \<le> length (q_http_request_buffer q)"
  shows "same_rx q q' \<and> q_state q' = q_state q \<and> q_result q' = q_result q"
proof -
  have other: "same_rx q q' \<and> q_state q' = q_state q \<and> q_result q' = q_result q"
    if "CGI_HeaderReceived (drop l (q_http_request_buffer q)) q = Some (line', q1, n)"
      "q' = q1\<lparr>q_http_request_buffer := take l (q_http_request_buffer q) @ line'\<rparr>" for line' q1 n
    using CGI_HeaderReceived_rx [OF that(1)] that(2) assms(2) by (simp add: same_rx_def)
  from assms(1) show ?thesis
    unfolding header_line_def Let_def bind_eq_Some_conv
    by (elim exE conjE, simp only: split: if_split_asm)
      (auto simp: same_rx_def bind_eq_Some_conv dest: header_range_line_rx header_token_line_rx other)
qed

lemma header_end_rx: "header_end q = Some q' \<Longrightarrow> same_rx q q' \<and> q_state q' = HTTP_STATE_HEADER_DONE"
  by (auto simp: header_end_def bind_eq_Some_conv same_rx_def)

lemma header_loop_first:
  assumes "i + 1 < n" and "\<not> length (q_http_request_buffer q) \<le> i + 1"
    and "\<not> (q_http_request_buffer q ! i \<noteq> CR \<or> q_http_request_buffer q ! (i + 1) \<noteq> LF)" and "i \<noteq> l"
    and q1: "q1 = q\<lparr>q_http_request_buffer := (q_http_request_buffer q)[i := NUL]\<rparr>"
  shows "header_loop g n i l q =
     (if q_requestMethod q1 < 0 then
        (case request_line g l i q1 of None \<Rightarrow> None
         | Some (q, stop) \<Rightarrow> if stop then Some (q, l, False) else header_loop g n (i + 1) (i + 2) q)
      else (case header_line l i q1 of None \<Rightarrow> None | Some q \<Rightarrow> header_loop g n (i + 1) (i + 2) q))"
  using assms(1-4) unfolding q1 by (subst header_loop.simps) (simp add: Let_def)

lemma header_loop_rx:
  assumes "header_loop g n i l q = Some (q', l', done')" and "l \<le> i + 1" and "l \<le> n"
  shows "same_rx q q' \<and> l \<le> l' \<and> l' \<le> n \<and> q_state q' = (if done' then HTTP_STATE_HEADER_DONE else q_state q)
    \<and> (done' \<longrightarrow> 2 \<le> l')"
  using assms
proof (induction g n i l q rule: header_loop.induct)
  case (1 g n i l q)
  let ?buf = "q_http_request_buffer q"
  show ?case
  proof (cases "i + 1 < n \<and> \<not> length ?buf \<le> i + 1")
    case False
    with "1.prems" show ?thesis by (subst (asm) header_loop.simps) (auto simp: Let_def split: if_splits)
  next
    case True
    then have i: "i + 1 < n" "\<not> length ?buf \<le> i + 1" by auto
    show ?thesis
    proof (cases "?buf ! i \<noteq> CR \<or> ?buf ! (i + 1) \<noteq> LF")
      case True
      with i "1.prems" have "header_loop g n (i + 1) l q = Some (q', l', done')"
        by (subst (asm) header_loop.simps) (simp add: Let_def)
      from "1.IH"(1) [OF refl i True this] "1.prems" show ?thesis by auto
    next
      case crlf: False
      show ?thesis
      proof (cases "i = l")
        case True
        with i crlf "1.prems" show ?thesis
          by (subst (asm) header_loop.simps) (auto simp: Let_def split: option.splits dest!: header_end_rx)
      next
        case ne: False
        define q1 where "q1 = q\<lparr>q_http_request_buffer := ?buf[i := NUL]\<rparr>"
        have q1: "same_rx q q1" "q_state q1 = q_state q" by (simp_all add: q1_def same_rx_def)
        have l: "l \<le> length (q_http_request_buffer q1)" using i "1.prems"(2) by (simp add: q1_def)
        show ?thesis
        proof (cases "q_requestMethod q1 < 0")
          case True
          from i crlf ne True "1.prems" obtain q2 stop where r: "request_line g l i q1 = Some (q2, stop)"
            and rest: "if stop then Some (q2, l, False) = Some (q', l', done') else header_loop g n (i + 1) (i + 2) q2 = Some (q', l', done')"
            unfolding header_loop_first [OF i crlf ne q1_def] by (cases "request_line g l i q1") (auto split: if_splits)
          have q2: "same_rx q q2" "q_state q2 = q_state q"
            using request_line_rx [OF r] q1 same_rx_trans by auto
          show ?thesis
          proof (cases stop)
            case True
            with rest q2 "1.prems" show ?thesis by auto
          next
            case False
            then have e: "header_loop g n (i + 1) (i + 2) q2 = Some (q', l', done')" using rest by simp
            have "same_rx q2 q' \<and> i + 2 \<le> l' \<and> l' \<le> n
              \<and> q_state q' = (if done' then HTTP_STATE_HEADER_DONE else q_state q2) \<and> (done' \<longrightarrow> 2 \<le> l')"
              by (rule "1.IH"(2) [OF refl i crlf ne q1_def True r refl False e]) (use i in simp_all)
            then show ?thesis using q2 same_rx_trans [of q q2 q'] "1.prems"(2) by simp
          qed
        next
          case False
          from i crlf ne False "1.prems" obtain q2 where r: "header_line l i q1 = Some q2"
            and e: "header_loop g n (i + 1) (i + 2) q2 = Some (q', l', done')"
            unfolding header_loop_first [OF i crlf ne q1_def] by (cases "header_line l i q1") auto
          have q2: "same_rx q q2" "q_state q2 = q_state q"
            using header_line_rx [OF r l] q1 same_rx_trans by auto
          have "same_rx q2 q' \<and> i + 2 \<le> l' \<and> l' \<le> n
            \<and> q_state q' = (if done' then HTTP_STATE_HEADER_DONE else q_state q2) \<and> (done' \<longrightarrow> 2 \<le> l')"
            by (rule "1.IH"(3) [OF refl i crlf ne q1_def False r e]) (use i in simp_all)
          then show ?thesis using q2 same_rx_trans [of q q2 q'] "1.prems"(2) by simp
        qed
      qed
    qed
  qed
qed

section \<open>The contract of the content handlers\<close>

text \<open>
  A handler of body bytes leaves the queue and the buffer alone and never claims more bytes
  than the \<open>n\<close> it was offered. The loop counts on both when it drops what was claimed.
\<close>

locale content_handler =
  fixes recv :: "bytes \<Rightarrow> int \<Rightarrow> 'q \<Rightarrow> 'g \<Rightarrow> ('q \<times> 'g \<times> int) option"
    and same :: "'q \<Rightarrow> 'q \<Rightarrow> bool"
  assumes recv_same: "recv b n q g = Some (q', g', k) \<Longrightarrow> same q q'"
    and recv_claim: "recv b n q g = Some (q', g', k) \<Longrightarrow> k \<le> max 0 n"
begin

lemma claim_within: "recv b n q g = Some (q', g', k) \<Longrightarrow> 0 < k \<Longrightarrow> k \<le> n"
  using recv_claim by fastforce

lemma claim_keeps_length: "recv b n q g = Some (q', g', k) \<Longrightarrow> n \<le> len \<Longrightarrow> 0 < k \<Longrightarrow> 0 \<le> len - k \<and> len - k < len"
  using claim_within by fastforce

end

lemma Auth_OnPostData_rx: "Auth_OnPostData b n q = Some (q', k) \<Longrightarrow> same_rx q q' \<and> k = n"
  by (auto simp: Auth_OnPostData_def bind_eq_Some_conv Let_def same_rx_def split: if_splits)

lemma IsKilling_rx [simp]: "same_rx q (fst (IsKilling q r))"
  by (simp add: IsKilling_def same_rx_def)

lemma Upload_Received_le: "Upload_Received q d \<le> int (length d)"
  by (simp add: Upload_Received_def)

lemma Upload_OnContentReceived_rx:
  assumes "Upload_OnContentReceived b n q g = Some (q', g', k)"
  shows "same_rx q q' \<and> k \<le> max 0 (min (q_contentLength q - q_contentReceived q) n)"
proof (cases "0 < min (q_contentLength q - q_contentReceived q) n \<and> q_requestMethod q = METHOD_POST")
  case True
  let ?m = "min (q_contentLength q - q_contentReceived q) n"
  have "Upload_Received q (take (nat ?m) b) \<le> ?m" for q
    using Upload_Received_le [of q "take (nat ?m) b"] True by (simp add: min_def split: if_splits)
  then show ?thesis using assms True
    by (auto simp: Upload_OnContentReceived_def Let_def Upload_GetFreeSize_def IsKilling_def same_rx_def split: if_splits)
qed (use assms in \<open>auto simp: Upload_OnContentReceived_def Let_def\<close>)

lemma form_take_rx: "form_take blk n q g = Some (q', g') \<Longrightarrow> same_rx q q' \<and> q_result q' = q_result q \<and> q_state q' = q_state q"
  by (auto simp: form_take_def Let_def bind_eq_Some_conv same_rx_def)

lemma WEB_OnFormReceived_rx:
  assumes "WEB_OnFormReceived b n q g = Some (q', g', k)"
  shows "same_rx q q' \<and> k \<le> max 0 (min (q_contentLength q - q_contentReceived q) n)"
proof -
  let ?m = "min (q_contentLength q - q_contentReceived q) n"
  define q1 where "q1 = fst (IsKilling q 1)"
  have q1: "same_rx q q1" by (simp add: q1_def)
  consider (idle) "\<not> (0 < ?m \<and> q_requestMethod q = METHOD_POST)" | (killed) "0 < ?m" "q_requestMethod q = METHOD_POST" "q_killing q \<noteq> 0"
    | (full) "0 < ?m" "q_requestMethod q = METHOD_POST" "q_killing q = 0" "min ?m (int MAX_SEND_BUF_SIZE - p_bytesLeft (ctxResponse q1) - 32) \<le> 0"
    | (take) "0 < ?m" "q_requestMethod q = METHOD_POST" "q_killing q = 0" "0 < min ?m (int MAX_SEND_BUF_SIZE - p_bytesLeft (ctxResponse q1) - 32)"
    by linarith
  then show ?thesis
  proof cases
    case take
    with assms obtain blk r where f: "form_take blk r q1 g = Some (q', g')" and k: "k = min ?m (int MAX_SEND_BUF_SIZE - p_bytesLeft (ctxResponse q1) - 32)"
      by (auto simp: WEB_OnFormReceived_def Let_def IsKilling_def q1_def bind_eq_Some_conv split: if_splits)
    from form_take_rx [OF f] q1 have "same_rx q q'" using same_rx_trans by blast
    with k show ?thesis by auto
  next
    case full
    with assms have "q' = q1 \<and> k = min ?m (int MAX_SEND_BUF_SIZE - p_bytesLeft (ctxResponse q1) - 32)"
      by (auto simp: WEB_OnFormReceived_def Let_def IsKilling_def q1_def min_le_iff_disj split: if_splits)
    with q1 full(1) show ?thesis by auto
  next
    case killed
    with assms have "q' = q1\<lparr>q_result := - 500\<rparr> \<and> k = 0"
      by (simp add: WEB_OnFormReceived_def Let_def IsKilling_def q1_def)
    with q1 show ?thesis by (simp add: same_rx_def)
  next
    case idle
    with assms have "q' = q \<and> k = ?m" by (auto simp: WEB_OnFormReceived_def Let_def)
    then show ?thesis by simp
  qed
qed

interpretation auth_data: content_handler "\<lambda>b n q g. map_option (\<lambda>(q, k). (q, g, k)) (Auth_OnPostData b n q)" same_rx
  by unfold_locales (auto dest!: Auth_OnPostData_rx)

interpretation form_data: content_handler WEB_OnFormReceived same_rx
  by unfold_locales (auto dest!: WEB_OnFormReceived_rx)

interpretation upload_data: content_handler Upload_OnContentReceived same_rx
  by unfold_locales (auto dest!: Upload_OnContentReceived_rx)

text \<open>The dispatcher meets the contract because every handler does.\<close>

interpretation content: content_handler CGI_ContentReceived same_rx
proof
  show "same_rx q q'" if "CGI_ContentReceived b n q g = Some (q', g', k)" for b n q g q' g' k
  proof (cases "q_handler q")
    case (Some h)
    with that show ?thesis
      by (cases h) (auto simp: CGI_ContentReceived_def dest: Auth_OnPostData_rx form_data.recv_same upload_data.recv_same)
  qed (use that in \<open>simp add: CGI_ContentReceived_def\<close>)
  show "k \<le> max 0 n" if "CGI_ContentReceived b n q g = Some (q', g', k)" for b n q g q' g' k
  proof (cases "q_handler q")
    case (Some h)
    with that show ?thesis
      by (cases h) (auto simp: CGI_ContentReceived_def dest: Auth_OnPostData_rx form_data.recv_claim upload_data.recv_claim)
  qed (use that in \<open>simp add: CGI_ContentReceived_def\<close>)
qed

section \<open>The request loop ends\<close>

lemma shift_buffer_props:
  assumes "shift_buffer n q = Some q'"
  shows "q_request_length q' = q_request_length q - n \<and> q_reqBufList q' = q_reqBufList q \<and> q_bufOffset q' = q_bufOffset q
    \<and> q_max_level q' = q_max_level q \<and> length (q_http_request_buffer q') = length (q_http_request_buffer q)
    \<and> q_state q' = q_state q \<and> q_result q' = q_result q \<and> q_chunked q' = q_chunked q \<and> q_pcb q' = q_pcb q"
  using assms by (auto simp: shift_buffer_def Let_def bind_eq_Some_conv array_simps split: if_splits)

lemma begin_request_rx: "same_rx q (begin_request q g)" "q_state (begin_request q g) \<noteq> HTTP_STATE_IDLE"
  "q_result (begin_request q g) = q_result q"
  by (simp_all add: begin_request_def same_rx_def)

text \<open>Parsing drops what it has dealt with, and half of a full buffer without a line.\<close>

lemma parse_headers_props:
  assumes "parse_headers q g = Some (q', size', done')" and "0 \<le> q_request_length q"
  shows "q_reqBufList q' = q_reqBufList q \<and> q_bufOffset q' = q_bufOffset q \<and> q_max_level q' = q_max_level q
    \<and> length (q_http_request_buffer q') = length (q_http_request_buffer q)
    \<and> 0 \<le> q_request_length q' \<and> q_request_length q' \<le> q_request_length q
    \<and> (done' \<longrightarrow> size' = q_request_length q' \<and> q_state q' = HTTP_STATE_HEADER_DONE)
    \<and> (q_state q \<noteq> HTTP_STATE_HEADER_RECEIVING \<longrightarrow> q' = q \<and> size' = q_request_length q)
    \<and> (\<not> done' \<longrightarrow> q_state q' = q_state q)
    \<and> (q_state q = HTTP_STATE_HEADER_RECEIVING \<and> 2 \<le> q_request_length q \<and> q_max_level q \<le> q_request_length q
         \<longrightarrow> q_request_length q' < q_request_length q)"
proof (cases "q_state q = HTTP_STATE_HEADER_RECEIVING \<and> 2 \<le> q_request_length q")
  case True
  with assms(1) obtain q1 l where h: "header_loop g (nat (q_request_length q)) 0 0 q = Some (q1, l, done')"
    and s: "(if l = 0 then if q_request_length q1 \<ge> q_max_level q1 then shift_buffer (q_request_length q1 div 2) q1 else Some q1
              else shift_buffer (int l) q1) = Some q'" and sz: "size' = q_request_length q - int l"
    by (auto simp: parse_headers_def Let_def bind_eq_Some_conv)
  from header_loop_rx [OF h] have r: "same_rx q q1" "l \<le> nat (q_request_length q)"
    "q_state q1 = (if done' then HTTP_STATE_HEADER_DONE else q_state q)" "done' \<longrightarrow> 2 \<le> l" by auto
  then have l: "int l \<le> q_request_length q" using assms(2) by linarith
  consider (cut) "l = 0" "q_request_length q1 \<ge> q_max_level q1" | (none) "l = 0" "\<not> q_request_length q1 \<ge> q_max_level q1" | (line) "0 < l"
    by auto
  then show ?thesis
  proof cases
    case cut
    then show ?thesis using s sz r True assms(2) shift_buffer_props [of "q_request_length q1 div 2" q1 q']
      by (auto simp: same_rx_def)
  next
    case none
    then show ?thesis using s sz r True assms(2) by (auto simp: same_rx_def)
  next
    case line
    then show ?thesis using s sz r True assms(2) l shift_buffer_props [of "int l" q1 q'] by (auto simp: same_rx_def)
  qed
next
  case False
  with assms show ?thesis by (auto simp: parse_headers_def Let_def)
qed

lemma authorize_rx: "same_rx q (authorize q g)"
  by (auto simp: authorize_def Let_def same_rx_def)

lemma Upload_OnHeadersReceived_rx: "Upload_OnHeadersReceived e q g = Some (q', g') \<Longrightarrow> same_rx q q'"
  by (auto simp: Upload_OnHeadersReceived_def Upload_Start_def Let_def bind_eq_Some_conv same_rx_def split: if_splits prod.splits)

lemma handler_OnHeadersReceived_rx:
  assumes "handler_OnHeadersReceived e h q g = Some (q', g')"
  shows "same_rx q q'"
proof (cases h)
  case g_cgiUpload
  with assms show ?thesis by (simp add: Upload_OnHeadersReceived_rx)
qed (use assms in \<open>auto simp: Auth_OnHeaders_def Form_OnHeadersReceived_def WEB_OnFormHeaders_def same_rx_def\<close>)

lemma CGI_HeadersReceived_rx: "CGI_HeadersReceived e q g = Some (q', g') \<Longrightarrow> same_rx q q'"
  unfolding CGI_HeadersReceived_def
  by (simp only: split: if_split_asm) (auto simp: same_rx_def redirect_https_def dest: handler_OnHeadersReceived_rx)

lemma after_header_rx:
  assumes "after_header e q g = Some (q', g')"
  shows "same_rx q q'"
proof -
  let ?q = "authorize q g"
  define q1 where "q1 = (if q_chunked ?q > 0 then ?q\<lparr>q_state := HTTP_STATE_CHUNK_LEN_RECEIVING\<rparr>
     else if q_contentLength ?q > 0 then ?q\<lparr>q_state := HTTP_STATE_BODY_RECEIVING\<rparr> else body_done ?q g)"
  from assms have "CGI_HeadersReceived e q1 g = Some (q', g')" by (simp add: after_header_def Let_def q1_def)
  then have "same_rx q1 q'" by (rule CGI_HeadersReceived_rx)
  moreover have "same_rx q q1" using authorize_rx [of q g] by (auto simp: q1_def same_rx_def body_done_def)
  ultimately show ?thesis using same_rx_trans by blast
qed

text \<open>The queue and the buffer size stay, and the buffer does not grow.\<close>

definition shrinks :: "REQUEST_CONTEXT \<Rightarrow> REQUEST_CONTEXT \<Rightarrow> bool" where
  "shrinks q q' \<longleftrightarrow> q_reqBufList q' = q_reqBufList q \<and> q_bufOffset q' = q_bufOffset q \<and> q_max_level q' = q_max_level q
     \<and> length (q_http_request_buffer q') = length (q_http_request_buffer q) \<and> q_request_length q' \<le> q_request_length q"

lemma shrinks_refl [simp]: "shrinks q q"
  by (simp add: shrinks_def)

lemma shrinks_trans: "shrinks a b \<Longrightarrow> shrinks b c \<Longrightarrow> shrinks a c"
  by (simp add: shrinks_def)

lemma same_rx_shrinks: "same_rx q q' \<Longrightarrow> shrinks q q'"
  by (simp add: same_rx_def shrinks_def)

lemma shrinks_shape: "shrinks q q' \<Longrightarrow> rx_shape q \<Longrightarrow> rx_shape q'"
  by (simp add: shrinks_def rx_shape_def queue_ok_def)

lemma chunk_line_shrinks:
  assumes "chunk_line q n = Some q'"
  shows "shrinks q q'"
proof (cases "q_state q = HTTP_STATE_CHUNK_LEN_RECEIVING \<and> n > 2 \<and> \<not> int (length (q_http_request_buffer q)) < n")
  case True
  show ?thesis
  proof (cases "List.find (\<lambda>c. q_http_request_buffer q ! c = CR \<or> q_http_request_buffer q ! (c + 1) = LF) [0..<nat n - 1]")
    case (Some c)
    with True assms obtain q1 where "shift_buffer (int c + 2) q1 = Some q'" and "same_rx q q1"
      by (auto simp: chunk_line_def Let_def bind_eq_Some_conv same_rx_def)
    then show ?thesis using shift_buffer_props by (fastforce simp: shrinks_def same_rx_def)
  qed (use assms True in \<open>simp add: chunk_line_def Let_def\<close>)
qed (use assms in \<open>auto simp: chunk_line_def Let_def split: if_splits\<close>)

lemma content_done_rx: "same_rx q (content_done q g)"
  by (auto simp: content_done_def body_done_def same_rx_def Let_def)

lemma receive_body_shrinks:
  assumes "receive_body q g n = Some (q', g', k, v)"
  shows "shrinks q q' \<and> (v = None \<and> 0 < k \<longrightarrow> q_request_length q' = q_request_length q - k \<and> k \<le> n)
    \<and> v \<noteq> Some Go_On"
proof (cases "q_state q = HTTP_STATE_CHUNK_RECEIVING \<or> q_state q = HTTP_STATE_BODY_RECEIVING")
  case True
  with assms obtain q1 where c: "CGI_ContentReceived (q_http_request_buffer q) n q g = Some (q1, g', k)"
    and r: "(if q_result q1 \<le> - 500 then Some (q1, g', k, Some Return_OK)
        else if k \<le> 0 then Some (q1, g', k, Some Leave)
        else do { q \<leftarrow> shift_buffer k (q1\<lparr>q_contentReceived := q_contentReceived q1 + k\<rparr>); Some (content_done q g', g', k, None) })
      = Some (q', g', k, v)"
    by (auto simp: receive_body_def bind_eq_Some_conv split: if_splits)
  have q1: "same_rx q q1" using content.recv_same [OF c] .
  show ?thesis
  proof (cases "q_result q1 \<le> - 500 \<or> k \<le> 0")
    case True
    with r q1 show ?thesis by (auto simp: same_rx_shrinks split: if_splits)
  next
    case False
    with r obtain q2 where s: "shift_buffer k (q1\<lparr>q_contentReceived := q_contentReceived q1 + k\<rparr>) = Some q2"
      and q': "q' = content_done q2 g'" and v: "v = None"
      by (auto simp: bind_eq_Some_conv)
    from shift_buffer_props [OF s] q1 content_done_rx [of q2 g'] content.claim_within [OF c] False
    show ?thesis by (auto simp: shrinks_def same_rx_def q' v)
  qed
next
  case False
  with assms show ?thesis by (simp add: receive_body_def)
qed

lemma finish_turn_go_on:
  assumes "finish_turn e q g n = Some (q', g', Go_On)"
  shows "shrinks q q' \<and> q_request_length q' < q_request_length q \<and> q_reqBufList q' \<noteq> []"
proof -
  from assms obtain q1 q2 g2 k v where c: "chunk_line q n = Some q1" and r: "receive_body q1 g n = Some (q2, g2, k, v)"
    and rest: "(case v of Some v \<Rightarrow> Some (q2, g2, v)
      | None \<Rightarrow>
          if q_state q2 = HTTP_STATE_BODY_DONE then do {
            (q, g) \<leftarrow> CGI_RequestReceived e q2 g2;
            Some (if q_result q = 0 then q\<lparr>q_result := CODE_OK\<rparr> else q, g, Leave) }
          else Some (q2, g2, if q_reqBufList q2 = [] \<or> k \<le> 0 then Leave else Go_On)) = Some (q', g', Go_On)"
    by (auto simp: finish_turn_def bind_eq_Some_conv)
  note r' = receive_body_shrinks [OF r]
  with rest have v: "v = None" by (cases v) auto
  with rest have "q' = q2 \<and> q_reqBufList q2 \<noteq> [] \<and> 0 < k"
    by (auto simp: bind_eq_Some_conv split: if_splits)
  with r' v chunk_line_shrinks [OF c] shrinks_trans [of q q1 q2] show ?thesis by (auto simp: shrinks_def)
qed

lemma dequeue_negative:
  assumes "rx_shape q" and "q_request_length q < 0" and "q_reqBufList q \<noteq> []"
  shows "dequeue q g = None"
proof -
  from assms have "0 < min (q_max_level q - q_request_length q) (int (length (concat (q_reqBufList q))) - q_bufOffset q)"
    by (auto simp: rx_shape_def queue_ok_def)
  moreover have "append_rx blk q = None" for blk
    using assms(2) by (simp add: append_rx_def blit_def in_arr_def)
  ultimately show ?thesis using assms(3) by (simp only: dequeue_def Let_def if_True if_False bind.bind_lzero)
qed

text \<open>
  A turn that asks for another one has dealt with at least one byte: the first kind of such
  a turn leaves a queue behind, so the buffer was full, and a full buffer always shrinks.
\<close>

lemma shrinks_pending: "shrinks q q' \<Longrightarrow> pending q' = pending q - (q_request_length q - q_request_length q')"
  by (simp add: shrinks_def pending_def)

lemma queue_pending: "queue_ok q \<Longrightarrow> q_reqBufList q \<noteq> [] \<Longrightarrow> q_request_length q < pending q"
  by (simp add: queue_ok_def pending_def)

lemma parse_headers_shrinks: "parse_headers q g = Some (q', n, done') \<Longrightarrow> 0 \<le> q_request_length q \<Longrightarrow> shrinks q q'"
  using parse_headers_props [of q g q' n done'] by (simp add: shrinks_def)

lemma request_turn_parts:
  assumes "request_turn e q g = Some (q', g', Go_On)" and d: "dequeue q g = Some (q1, g1)"
  obtains q3 n done' where "q_request_length q1 \<noteq> 0"
      "parse_headers (if q_request_length q1 > 0 then begin_request q1 g1 else q1) g1 = Some (q3, n, done')"
      "q_state q3 < HTTP_STATE_HEADER_DONE" "q_reqBufList q3 \<noteq> []" "q' = q3"
  | q3 n done' q4 g4 where "q_request_length q1 \<noteq> 0"
      "parse_headers (if q_request_length q1 > 0 then begin_request q1 g1 else q1) g1 = Some (q3, n, done')"
      "shrinks q3 q4" "finish_turn e q4 g4 n = Some (q', g', Go_On)"
proof -
  have ne: "q_request_length q1 \<noteq> 0" using assms by (auto simp: request_turn_def bind_eq_Some_conv)
  let ?q2 = "if q_request_length q1 > 0 then begin_request q1 g1 else q1"
  from assms ne obtain q3 n done' where p: "parse_headers ?q2 g1 = Some (q3, n, done')"
    and rest: "(if q_result q3 < 0 then Some (q3, g1, Leave)
       else if q_state q3 = HTTP_STATE_HEADER_RECEIVING \<and> q_request_length q3 \<ge> int MAX_REQ_BUF_SIZE
       then Some (q3\<lparr>q_result := - 500\<rparr>, g1, Leave)
       else if q_state q3 < HTTP_STATE_HEADER_DONE
       then Some (q3, g1, if q_reqBufList q3 \<noteq> [] then Go_On else Leave)
       else do {
         (q, g) \<leftarrow> (if done' then after_header e q3 g1 else Some (q3, g1));
         if q_result q < 0 then Some (q\<lparr>q_state := HTTP_STATE_SENDING_HEADER\<rparr>, g, Leave)
         else finish_turn e q g n }) = Some (q', g', Go_On)"
    by (auto simp: request_turn_def Let_def bind_eq_Some_conv simp del: http_state_order)
  show ?thesis
  proof (cases "q_state q3 < HTTP_STATE_HEADER_DONE")
    case True
    with rest have "q_reqBufList q3 \<noteq> [] \<and> q' = q3" by (auto split: if_splits simp del: http_state_order)
    with that(1) ne p True show ?thesis by blast
  next
    case False
    with rest obtain q4 g4 where q4: "(if done' then after_header e q3 g1 else Some (q3, g1)) = Some (q4, g4)"
      and f: "finish_turn e q4 g4 n = Some (q', g', Go_On)"
      by (auto simp: bind_eq_Some_conv split: if_splits simp del: http_state_order)
    have "shrinks q3 q4" using q4 after_header_rx [of e q3 g1 q4 g4] by (auto simp: same_rx_shrinks split: if_splits)
    with that(2) ne p f show ?thesis by blast
  qed
qed

lemma request_turn_go_on:
  assumes shape: "rx_shape q" and turn: "request_turn e q g = Some (q', g', Go_On)"
  shows "rx_shape q' \<and> pending q' < pending q \<and> 0 < pending q \<and> q_reqBufList q' \<noteq> []"
proof -
  from turn obtain q1 g1 where d: "dequeue q g = Some (q1, g1)" by (auto simp: request_turn_def bind_eq_Some_conv)
  have inv: "recv_inv q" if "q_reqBufList q' \<noteq> []" "q_reqBufList q' = q_reqBufList q1"
  proof -
    have "q_reqBufList q \<noteq> []" using that d by (auto simp: dequeue_def)
    then have "\<not> q_request_length q < 0" using d dequeue_negative [OF shape] by auto
    with shape show ?thesis by (simp add: recv_inv_def)
  qed
  have shrink: ?thesis if s: "shrinks q1 q'" and less: "q_request_length q1 = 128 \<Longrightarrow> q_request_length q' < q_request_length q1" and ne: "q_reqBufList q' \<noteq> []"
  proof -
    have same: "q_reqBufList q' = q_reqBufList q1" using s by (simp add: shrinks_def)
    from dequeue_some [OF inv [OF ne same] d] have q1: "recv_inv q1" "pending q1 = pending q"
      "q_reqBufList q1 \<noteq> [] \<longrightarrow> q_request_length q1 = 128" by auto
    with same ne have full: "q_request_length q1 = 128" by simp
    have "0 < pending q1" using q1(1) full ne same queue_pending [of q1] by (auto simp: recv_inv_def rx_shape_def)
    with q1 less [OF full] shrinks_pending [OF s] shrinks_shape [OF s] ne show ?thesis by (auto simp: recv_inv_def)
  qed
  let ?q2 = "if q_request_length q1 > 0 then begin_request q1 g1 else q1"
  have q2: "same_rx q1 ?q2" "0 < q_request_length q1 \<longrightarrow> q_state ?q2 \<noteq> HTTP_STATE_IDLE" using begin_request_rx by auto
  have neg: "q3 = ?q2" if "parse_headers ?q2 g1 = Some (q3, n, done')" "\<not> 0 \<le> q_request_length q1" for q3 n done'
    using that by (auto simp: parse_headers_def Let_def)
  from turn d show ?thesis
  proof (cases rule: request_turn_parts)
    case (1 q3 n done')
    show ?thesis
    proof (cases "0 \<le> q_request_length q1")
      case True
      with 1 have pos: "0 < q_request_length q1" by simp
      then have nn: "0 \<le> q_request_length ?q2" "q_request_length ?q2 = q_request_length q1" using q2(1) by (auto simp: same_rx_def)
      note pp = parse_headers_props [OF 1(2) nn(1)]
      have "shrinks q1 q3" using parse_headers_shrinks [OF 1(2) nn(1)] same_rx_shrinks [OF q2(1)] shrinks_trans by blast
      moreover have "q_request_length q3 < q_request_length q1" if full: "q_request_length q1 = 128"
      proof -
        have "q_state ?q2 = HTTP_STATE_HEADER_RECEIVING"
        proof (rule ccontr)
          assume n: "q_state ?q2 \<noteq> HTTP_STATE_HEADER_RECEIVING"
          with pp have "q3 = ?q2" by blast
          with 1(3) n q2(2) pos show False by (cases "q_state ?q2") auto
        qed
        moreover have "q_max_level ?q2 = 128" using q2(1) inv 1 pp d shape
          by (cases "recv_inv q") (use dequeue_some [OF _ d] in \<open>auto simp: same_rx_def recv_inv_def rx_shape_def\<close>)
        ultimately show ?thesis using pp nn full by auto
      qed
      ultimately show ?thesis using shrink 1 by blast
    next
      case False
      with neg 1(2) have "q3 = ?q2" by blast
      then have "shrinks q1 q'" using 1 same_rx_shrinks [OF q2(1)] by simp
      moreover have "recv_inv q1" using inv 1 calculation dequeue_some [OF _ d] by (auto simp: shrinks_def)
      ultimately show ?thesis using False by (simp add: recv_inv_def)
    qed
  next
    case (2 q3 n done' q4 g4)
    have q3: "shrinks q1 q3"
    proof (cases "0 \<le> q_request_length q1")
      case True
      then have "0 \<le> q_request_length ?q2" using q2(1) by (auto simp: same_rx_def)
      from parse_headers_shrinks [OF 2(2) this] same_rx_shrinks [OF q2(1)] shrinks_trans show ?thesis by blast
    next
      case False
      with neg 2(2) have "q3 = ?q2" by blast
      then show ?thesis using same_rx_shrinks [OF q2(1)] by simp
    qed
    from finish_turn_go_on [OF 2(4)] have f: "shrinks q4 q'" "q_request_length q' < q_request_length q4" "q_reqBufList q' \<noteq> []" by auto
    have s: "shrinks q1 q'" using q3 2(3) f(1) shrinks_trans by blast
    have "q_request_length q4 \<le> q_request_length q1" using q3 2(3) by (auto simp: shrinks_def)
    with shrink [OF s _ f(3)] f(2) show ?thesis by linarith
  qed
qed

lemma request_loop_fuel:
  "rx_shape q \<Longrightarrow> nat (pending q) < n \<Longrightarrow> request_loop n e q g \<noteq> No_Fuel"
proof (induction n arbitrary: q g)
  case (Suc n)
  show ?case
  proof (cases "request_turn e q g")
    case (Some r)
    obtain q' g' v where r: "r = (q', g', v)" by (cases r)
    show ?thesis
    proof (cases v)
      case Go_On
      with Some r request_turn_go_on [OF Suc.prems(1), of e g q' g'] have "rx_shape q'" "nat (pending q') < nat (pending q)" by auto
      with Suc.IH [of q' g'] Suc.prems(2) have "request_loop n e q' g' \<noteq> No_Fuel" by linarith
      with Some r Go_On show ?thesis by simp
    qed (use Some r in simp_all)
  qed simp
qed simp

text \<open>
  C4: The request loop of \<^verbatim>\<open>HttpRequestProc\<close> ends. From any state of the receive side whose
  buffer holds at most 128 bytes, each turn that asks for another turn has dealt with at
  least one byte of the buffer or of the queue, so the number of bytes not dealt with bounds
  the turns: the loop, run with the fuel the model gives it, does not run out of it.
\<close>

theorem request_loop_ends:
  assumes "rx_shape q"
  shows "request_loop (loop_fuel q) e q g \<noteq> No_Fuel"
  by (rule request_loop_fuel [OF assms]) (simp add: loop_fuel_def)

theorem request_loop_ends_witness:
  "request_loop (loop_fuel sample_context) sample_env sample_context sample_glob \<noteq> No_Fuel"
  by (rule request_loop_ends) (simp add: rx_shape_def queue_ok_def sample_context_def zero_context_def)

end
