(* ===== verification/Requests.thy ===== *)
theory Requests
  imports Decoders Receive_Loop Samples
begin

text \<open>
  What the parsing of a request finds: the path, the query and the extension of the request
  line against their plain definitions, and the values of header lines.
\<close>

section \<open>The extension of a path\<close>

text \<open>
  The characters behind the last dot of the last segment, without hash signs; nothing when
  that segment has no dot.
\<close>

definition last_segment :: "string \<Rightarrow> string" where
  "last_segment p = rev (takeWhile (\<lambda>c. c \<noteq> CHR ''/'') (rev p))"

definition extension :: "string \<Rightarrow> string" where
  "extension p =
     (if CHR ''.'' \<in> set (last_segment p)
      then filter (\<lambda>c. c \<noteq> CHR ''#'') (rev (takeWhile (\<lambda>c. c \<noteq> CHR ''.'') (rev (last_segment p)))) else [])"

text \<open>At no place in the path does the extension so far have more than seven characters.\<close>

definition short_extensions :: "string \<Rightarrow> bool" where
  "short_extensions p = list_all (\<lambda>k. length (extension (take k p)) \<le> 7) [0..<Suc (length p)]"

lemma last_segment_snoc: "last_segment (p @ [c]) = (if c = CHR ''/'' then [] else last_segment p @ [c])"
  by (simp add: last_segment_def)

lemma extension_snoc:
  "extension (p @ [c]) =
     (if c = CHR ''/'' \<or> c = CHR ''.'' \<or> CHR ''.'' \<notin> set (last_segment p) then []
      else if c = CHR ''#'' then extension p else extension p @ [c])"
  by (auto simp: extension_def last_segment_snoc)

lemma extension_Nil [simp]: "extension [] = []" "last_segment [] = []"
  by (simp_all add: extension_def last_segment_def)

lemma short_extensions_snoc: "short_extensions (p @ [c]) \<Longrightarrow> short_extensions p \<and> length (extension (p @ [c])) \<le> 7"
  by (auto simp: short_extensions_def list_all_iff less_Suc_eq_le dest: bspec [of _ _ "_ :: nat"])

section \<open>The query string\<close>

lemma query_loop_append:
  "query_loop (s @ t) i st = (case query_loop s i st of None \<Rightarrow> None | Some st' \<Rightarrow> query_loop t (i + int (length s)) st')"
  by (induction s arbitrary: i st) (auto simp: algebra_simps split: option.splits)

lemma query_loop_behind: "0 \<le> iQuestion \<Longrightarrow> query_loop s i (iDot, iQuestion, len, ext) = Some (iDot, iQuestion, len, ext)"
  by (induction s arbitrary: i) (auto simp: query_step_def)

text \<open>The state of the scan after a path without a question mark.\<close>

definition scanned :: "string \<Rightarrow> int \<times> int \<times> int \<times> bytes \<Rightarrow> bool" where
  "scanned p = (\<lambda>(iDot, iQuestion, len, ext). iQuestion = - 1 \<and> len = int (length (extension p)) \<and> length ext = 8
     \<and> (0 \<le> iDot \<longleftrightarrow> CHR ''.'' \<in> set (last_segment p))
     \<and> take (length (extension p)) ext = extension p \<and> ext ! length (extension p) = NUL)"

lemma query_step_scanned:
  assumes "scanned p st" and "c \<noteq> CHR ''?''" and "length (extension (p @ [c])) \<le> 7" and "0 \<le> i"
  shows "\<exists>st'. query_step c i st = Some st' \<and> scanned (p @ [c]) st'"
proof -
  obtain iDot ext where st: "st = (iDot, - 1, int (length (extension p)), ext)" and ext: "length ext = 8"
    "0 \<le> iDot \<longleftrightarrow> CHR ''.'' \<in> set (last_segment p)" "take (length (extension p)) ext = extension p" "ext ! length (extension p) = NUL"
    using assms(1) by (cases st) (auto simp: scanned_def)
  show ?thesis
  proof (cases "c = CHR ''/'' \<or> c = CHR ''.'' \<or> c = CHR ''#'' \<or> CHR ''.'' \<notin> set (last_segment p)")
    case True
    then show ?thesis
      using assms(2-) ext unfolding st
      by (auto simp: query_step_def scanned_def extension_snoc last_segment_snoc in_arr_def) (auto simp: extension_def)
  next
    case False
    then have e: "extension (p @ [c]) = extension p @ [c]" by (simp add: extension_snoc)
    let ?k = "length (extension p)"
    have k: "?k \<le> 6" using assms(3) e by simp
    have "take (Suc ?k) ((ext[?k := c])[Suc ?k := NUL]) = extension p @ [c]"
      using k ext(1,3) by (simp add: take_Suc_conv_app_nth)
    with False e k ext assms(2) show ?thesis
      unfolding st by (simp add: query_step_def scanned_def last_segment_snoc in_arr_def nat_add_distrib)
  qed
qed

lemma query_loop_scanned:
  "CHR ''?'' \<notin> set p \<Longrightarrow> short_extensions p \<Longrightarrow> \<exists>st. query_loop p 0 (- 1, - 1, 0, zeros 8) = Some st \<and> scanned p st"
proof (induction p rule: rev_induct)
  case Nil
  show ?case by (simp add: scanned_def zeros_def)
next
  case (snoc c p)
  from short_extensions_snoc [OF snoc.prems(2)] snoc obtain st where "query_loop p 0 (- 1, - 1, 0, zeros 8) = Some st" "scanned p st" by auto
  with query_step_scanned [OF this(2), of c "int (length p)"] short_extensions_snoc [OF snoc.prems(2)] snoc.prems(1) show ?case
    by (auto simp: query_loop_append)
qed

text \<open>Splitting off the query.\<close>

definition path_part :: "string \<Rightarrow> string" where
  "path_part s = takeWhile (\<lambda>c. c \<noteq> CHR ''?'') s"

lemma path_part_id: "CHR ''?'' \<notin> set s \<Longrightarrow> path_part s = s"
  unfolding path_part_def by (induction s) auto

lemma path_part_split: "s = path_part s @ (if CHR ''?'' \<in> set s then CHR ''?'' # drop (Suc (length (path_part s))) s else [])"
proof (cases "CHR ''?'' \<in> set s")
  case True
  then show ?thesis
    unfolding path_part_def by (induction s) auto
qed (simp add: path_part_id)

lemma path_part_no_query: "CHR ''?'' \<notin> set (path_part s)"
  unfolding path_part_def by (auto dest: set_takeWhileD)

lemma nul_free_extension: "nul_free p \<Longrightarrow> nul_free (extension p)"
  by (auto simp: nul_free_def extension_def last_segment_def dest!: set_takeWhileD)

lemma cstr_prefix: "take n a = s \<Longrightarrow> length s = n \<Longrightarrow> n < length a \<Longrightarrow> a ! n = NUL \<Longrightarrow> nul_free s \<Longrightarrow> cstr a = s"
  by (metis cstr_append_NUL id_take_nth_drop)

lemma query_loop_splits:
  assumes "short_extensions (path_part s)" and "nul_free s"
  shows "\<exists>iDot ext. query_loop s 0 (- 1, - 1, 0, zeros 8)
      = Some (iDot, if CHR ''?'' \<in> set s then int (length (path_part s)) else - 1, int (length (extension (path_part s))), ext)
    \<and> cstr ext = extension (path_part s)"
proof -
  let ?p = "path_part s"
  obtain iDot ext where p: "query_loop ?p 0 (- 1, - 1, 0, zeros 8) = Some (iDot, - 1, int (length (extension ?p)), ext)" and ext: "length ext = 8"
    "take (length (extension ?p)) ext = extension ?p" "ext ! length (extension ?p) = NUL"
    using query_loop_scanned [OF path_part_no_query assms(1)] by (auto simp: scanned_def)
  have "length (extension ?p) \<le> 7" using assms(1) by (simp add: short_extensions_def)
  moreover have "nul_free ?p" using assms(2) by (auto simp: nul_free_def path_part_def dest: set_takeWhileD)
  ultimately have c: "cstr ext = extension ?p" using ext by (intro cstr_prefix [of "length (extension ?p)"]) (auto intro: nul_free_extension)
  have "query_loop s 0 (- 1, - 1, 0, zeros 8) = Some (iDot, if CHR ''?'' \<in> set s then int (length ?p) else - 1, int (length (extension ?p)), ext)"
    by (subst path_part_split [of s]) (simp add: query_loop_append p query_step_def query_loop_behind)
  with c show ?thesis by blast
qed

section \<open>The request line\<close>

text \<open>The request target up to the version, which no space in the target can hide.\<close>

lemma path_loop_target:
  assumes "drop j buf = t @ '' HTTP/1.'' @ v # NUL # post" and "CHR '' '' \<notin> set t" and "j + length t < i" and "length path + length t \<le> 126"
    and "v \<noteq> NUL"
  shows "path_loop buf j i path = (path @ t, Some [CHR ''1'', CHR ''.'', v])"
  using assms
proof (induction t arbitrary: j path)
  case Nil
  then have "take 8 (drop j buf) = '' HTTP/1.''" "take 3 (drop (j + 6) buf) = [CHR ''1'', CHR ''.'', v]"
    by (simp_all add: drop_drop [symmetric] add.commute [of j])
  with Nil show ?case by (subst path_loop.simps) simp
next
  case (Cons c t)
  then have c: "take 8 (drop j buf) \<noteq> '' HTTP/1.''" "buf ! j = c" "c \<noteq> CHR '' ''" "length path < 126" "j < i"
    by (auto simp: nth_via_drop)
  have "drop (j + 1) buf = t @ '' HTTP/1.'' @ v # NUL # post" using Cons.prems(1) by (simp add: drop_Suc drop_tl)
  with Cons.IH [of "j + 1" "path @ [c]"] Cons.prems c show ?case by (subst path_loop.simps) simp
qed

lemma cstr_cut: "cstr (s @ NUL # r) = cstr s"
  by (induction s) auto

text \<open>Storing the target in the array of the path, decoding it there and ending it.\<close>

lemma decode_in_place:
  assumes "length t \<le> 126" and "nul_free t" and "length rp = 128"
  obtains rp1 rp2 n rp3 where "blit rp 0 t = Some rp1" "poke rp1 (int (length t)) NUL = Some rp2" "URLDecode rp2 = Some (rp3, n)"
    "poke rp3 (int n) NUL = Some (rp3[n := NUL])" "cstr (rp3[n := NUL]) = cstr (pct_decode t)" "length rp3 = 128"
proof -
  let ?rp1 = "t @ drop (length t) rp"
  let ?rp2 = "?rp1[length t := NUL]"
  have rp2: "?rp2 = t @ NUL # drop (Suc (length t)) rp"
    using assms(1,3) by (simp add: list_update_append Cons_nth_drop_Suc [symmetric])
  then have "cstr ?rp2 = t" using assms(2) by (simp add: cstr_append_NUL)
  with URLDecode_pct [of ?rp2] obtain u where u: "URLDecode ?rp2 = Some (u, length (pct_decode t))" "take (length (pct_decode t)) u = pct_decode t"
    "length u = 128" using assms(1,3) by auto
  let ?n = "length (pct_decode t)"
  have n: "?n \<le> 126" using length_pct_decode [of t] assms(1) by simp
  have "u[?n := NUL] = pct_decode t @ NUL # drop (Suc ?n) u"
    using n u(2,3) by (simp add: upd_conv_take_nth_drop)
  then have "cstr (u[?n := NUL]) = cstr (pct_decode t)" by (simp add: cstr_cut)
  with u n assms show ?thesis
    by (intro that [of ?rp1 ?rp2 u ?n]) (simp_all add: blit_eq_Some poke_eq_Some in_arr_def)
qed

lemma ParseQueryString_splits:
  assumes "cstr (q_requestPath q) = s" and "length s < length (q_requestPath q)" and "short_extensions (path_part s)"
  shows "\<exists>ext rp. ParseQueryString q = Some (q\<lparr>q_extension := ext,
        q_posQuestion := if CHR ''?'' \<in> set s then int (length (path_part s)) else - 1, q_requestPath := rp\<rparr>)
    \<and> cstr ext = extension (path_part s) \<and> cstr rp = path_part s \<and> length rp = length (q_requestPath q)
    \<and> (CHR ''?'' \<in> set s \<longrightarrow> cstr (drop (Suc (length (path_part s))) rp) = drop (Suc (length (path_part s))) s)"
proof -
  let ?rp = "q_requestPath q" and ?k = "length (path_part s)"
  have s: "nul_free s" using assms(1) nul_free_cstr by metis
  have "NUL \<in> set ?rp" using assms(1,2) cstr_less_NUL [of ?rp] by (metis nth_mem)
  then have at: "cstr_at ?rp 0 = Some s" using assms(1) by (simp add: cstr_at_def)
  obtain iDot ext where loop: "query_loop s 0 (- 1, - 1, 0, zeros 8)
      = Some (iDot, if CHR ''?'' \<in> set s then int ?k else - 1, int (length (extension (path_part s))), ext)" and ext: "cstr ext = extension (path_part s)"
    using query_loop_splits [OF assms(3) s] by blast
  show ?thesis
  proof (cases "CHR ''?'' \<in> set s")
    case False
    with loop ext at assms(1) show ?thesis
      by (intro exI [of _ ext] exI [of _ ?rp]) (auto simp: ParseQueryString_def path_part_id)
  next
    case True
    have split: "s = path_part s @ CHR ''?'' # drop (Suc ?k) s" using path_part_split [of s] True by simp
    from arg_cong [OF this, of length] have k: "?k < length s" by simp
    let ?q = "drop (Suc ?k) s"
    obtain r where rp: "?rp = s @ NUL # r"
      using id_take_nth_drop [OF assms(2)] assms cstr_less_NUL [of ?rp] take_cstr [of ?rp] by simp
    then have rp': "?rp = path_part s @ CHR ''?'' # ?q @ NUL # r" using arg_cong [OF split, of "\<lambda>x. x @ NUL # r"] by simp
    then have "?rp[?k := NUL] = path_part s @ NUL # ?q @ NUL # r" using list_update_length [of "path_part s"] by simp
    moreover have "nul_free (path_part s)" "nul_free ?q" using s arg_cong [OF split, of nul_free] by simp_all
    ultimately have "cstr (?rp[?k := NUL]) = path_part s" "cstr (drop (Suc ?k) (?rp[?k := NUL])) = ?q"
      by (simp_all add: cstr_append_NUL)
    with loop ext at True k assms(2) show ?thesis
      by (intro exI [of _ ext] exI [of _ "?rp[?k := NUL]"]) (auto simp: ParseQueryString_def poke_eq_Some in_arr_def)
  qed
qed

section \<open>Numbers and names in header lines\<close>

lemma digits_value_Cons: "digits_value (c # ds) = (int (ord c) - 48) * 10 ^ length ds + digits_value ds"
proof (induction ds rule: rev_induct)
  case (snoc x ds)
  then show ?case using digits_value_snoc [of "c # ds" x] by (simp add: digits_value_snoc algebra_simps)
qed (simp add: digits_value_def)

lemma digits_value_nonneg: "\<forall>c \<in> set ds. is_digit c \<Longrightarrow> 0 \<le> digits_value ds"
  by (induction ds) (simp add: digits_value_def, simp add: digits_value_Cons is_digit_def)

lemma atol_digits:
  assumes "\<forall>c \<in> set ds. is_digit c" and "ds \<noteq> []" and "digits_value ds \<le> 2147483647" and "r = [] \<or> \<not> is_digit (hd r)"
  shows "atol (ds @ r) = digits_value ds"
proof -
  obtain d ds' where ds: "ds = d # ds'" using assms(2) by (cases ds) auto
  with assms(1) have d: "\<not> is_space d" "d \<noteq> CHR ''-''" "d \<noteq> CHR ''+''" by (auto simp: is_digit_def is_space_def ord_def)
  have "takeWhile is_digit r = []" using assms(4) by (cases r) auto
  then have "takeWhile is_digit (ds @ r) = ds" using assms(1) by (auto simp: takeWhile_append)
  with d assms(3) digits_value_nonneg [OF assms(1)] show ?thesis by (simp add: atol_def ds)
qed

lemma strstr_char: "c \<notin> set s \<Longrightarrow> strstr (s @ c # r) [c] = Some (length s)"
  by (induction s) (auto simp: strstr_Cons)

text \<open>No other header name starts like a range line.\<close>

lemma range_name:
  "Strnicmp (''Range:'' @ s) ''Content-Length:'' 15 \<noteq> 0" "Strnicmp (''Range:'' @ s) ''Connection:'' 11 \<noteq> 0"
  "Strnicmp (''Range:'' @ s) ''Transfer-Encoding:'' 18 \<noteq> 0" "Strnicmp (''Range:'' @ s) ''Expect:'' 7 \<noteq> 0"
  "Strnicmp (''Range:'' @ s) ''If-Modified-Since:'' 18 \<noteq> 0" "Strnicmp (''Range:'' @ s) ''Range:'' 6 = 0"
proof -
  have "toUpper CHR ''R'' \<noteq> toUpper CHR ''C''" "toUpper CHR ''R'' \<noteq> toUpper CHR ''T''" "toUpper CHR ''R'' \<noteq> toUpper CHR ''E''"
    "toUpper CHR ''R'' \<noteq> toUpper CHR ''I''" by code_simp+
  then show "Strnicmp (''Range:'' @ s) ''Content-Length:'' 15 \<noteq> 0" "Strnicmp (''Range:'' @ s) ''Connection:'' 11 \<noteq> 0"
    "Strnicmp (''Range:'' @ s) ''Transfer-Encoding:'' 18 \<noteq> 0" "Strnicmp (''Range:'' @ s) ''Expect:'' 7 \<noteq> 0"
    "Strnicmp (''Range:'' @ s) ''If-Modified-Since:'' 18 \<noteq> 0" "Strnicmp (''Range:'' @ s) ''Range:'' 6 = 0"
    by (simp_all add: Strnicmp_eq_0_iff)
qed

section \<open>Properties\<close>

text \<open>
  C23: The request line is understood. For a line with the method GET or POST, a target without
  spaces of at most 126 bytes and a version HTTP/1.x, the context has the method and the
  version; the percent-decoded target up to its first question mark is the path, what follows
  is kept behind it as the query, the extension is that of the last segment of the path, and
  the handler is the first one of the table that the path matches.
\<close>

theorem request_line_parsed:
  assumes "q_http_request_buffer q = pre @ m @ '' '' @ t @ '' HTTP/1.'' @ v # NUL # post" and "m \<in> {''GET'', ''POST''}"
    and "i = length pre + length m + length t + 10" and "CHR '' '' \<notin> set t" and "nul_free t" and "length t \<le> 126" and "v \<noteq> NUL"
    and "length (q_requestPath q) = 128" and "s = cstr (pct_decode t)" and "short_extensions (path_part s)"
  shows "\<exists>q'. request_line g (length pre) i q = Some (q', False)
    \<and> q_requestMethod q' = (if m = ''GET'' then METHOD_GET else METHOD_POST) \<and> q_ver q' = [CHR ''1'', CHR ''.'', v]
    \<and> cstr (q_requestPath q') = path_part s \<and> q_responsePath q' = path_part s \<and> cstr (q_extension q') = extension (path_part s)
    \<and> (if CHR ''?'' \<in> set s
        then q_posQuestion q' = int (length (path_part s)) \<and> cstr (drop (Suc (length (path_part s))) (q_requestPath q')) = drop (Suc (length (path_part s))) s
        else q_posQuestion q' = - 1)
    \<and> q_handler q' = map_option m_id (List.find (mapping_matches (path_part s)) (g_cgiMapping g))"
proof -
  let ?buf = "q_http_request_buffer q" and ?skip = "if take 4 (drop (length pre) (q_http_request_buffer q)) = ''GET '' then 4 else 5"
  have verb: "take 4 (drop (length pre) ?buf) = ''GET '' \<longleftrightarrow> m = ''GET''" "take 5 (drop (length pre) ?buf) = ''POST '' \<longleftrightarrow> m = ''POST''"
    using assms(2) by (auto simp: assms(1))
  have "path_loop ?buf (length pre + ?skip) i [] = ([] @ t, Some [CHR ''1'', CHR ''.'', v])"
  proof (rule path_loop_target [OF _ assms(4) _ _ assms(7)])
    show "drop (length pre + ?skip) ?buf = t @ '' HTTP/1.'' @ v # NUL # post" using assms(2) by (auto simp: assms(1))
    show "length pre + ?skip + length t < i" using assms(2) verb by (auto simp: assms(3))
  qed (use assms(6) in simp)
  then have path: "path_loop ?buf (length pre + ?skip) i [] = (t, Some [CHR ''1'', CHR ''.'', v])" by simp
  obtain rp1 rp2 n rp3 where rp: "blit (q_requestPath q) 0 t = Some rp1" "poke rp1 (int (length t)) NUL = Some rp2" "URLDecode rp2 = Some (rp3, n)"
    "poke rp3 (int n) NUL = Some (rp3[n := NUL])" "cstr (rp3[n := NUL]) = s" "length rp3 = 128"
    using decode_in_place [OF assms(6,5,8)] assms(9) by metis
  have "length s \<le> 126" 
    unfolding assms(9) by (rule order_trans [OF length_cstr_le order_trans [OF length_pct_decode assms(6)]])
  let ?M = "if m = ''GET'' then METHOD_GET else METHOD_POST"
  let ?q1 = "upd_resp (\<lambda>r. r\<lparr>p_appContext := App_Raw []\<rparr>) (q\<lparr>q_requestMethod := ?M, q_ver := [CHR ''1'', CHR ''.'', v],
    q_checkAlive := 0, q_posQuestion := - 1, q_requestPath := rp3[n := NUL]\<rparr>)"
  obtain ext rp4 where parse: "ParseQueryString ?q1 = Some (?q1\<lparr>q_extension := ext,
      q_posQuestion := if CHR ''?'' \<in> set s then int (length (path_part s)) else - 1, q_requestPath := rp4\<rparr>)"
    and rp4: "cstr ext = extension (path_part s)" "cstr rp4 = path_part s" "length rp4 = 128"
      "CHR ''?'' \<in> set s \<longrightarrow> cstr (drop (Suc (length (path_part s))) rp4) = drop (Suc (length (path_part s))) s"
    using ParseQueryString_splits [of ?q1 s] rp(5,6) \<open>length s \<le> 126\<close> assms(10) by (auto simp: upd_resp_def)
  have short: "length (path_part s) \<le> 126" 
    unfolding path_part_def by (rule order_trans [OF length_takeWhile_le \<open>length s \<le> 126\<close>])
  then have "NUL \<in> set rp4" using rp4(2,3) cstr_less_NUL [of rp4] nth_mem [of "length (path_part s)" rp4] by simp
  then have at: "cstr_at rp4 0 = Some (path_part s)" using rp4(2) by (simp add: cstr_at_def)
  let ?q2 = "?q1\<lparr>q_extension := ext, q_posQuestion := if CHR ''?'' \<in> set s then int (length (path_part s)) else - 1,
    q_requestPath := rp4, q_responsePath := path_part s\<rparr>"
  have "request_line g (length pre) i q
    = Some (CGI_SetCgiHandler (?q2\<lparr>q_checkAlive := if path_is ?q2 WEB_SESSION_CHECK then 1 else 0\<rparr>) g, False)"
  proof (cases "m = ''GET''")
    case True
    then have "take 4 (drop (length pre) ?buf) = ''GET ''" using verb by simp
    with path parse [unfolded upd_resp_def] at short True show ?thesis
      by (simp add: request_line_def rp(1-4) Let_def fit_def path_is_def upd_resp_def)
  next
    case False
    then have "take 4 (drop (length pre) ?buf) \<noteq> ''GET ''" "take 5 (drop (length pre) ?buf) = ''POST ''" using verb assms(2) by auto
    with path parse [unfolded upd_resp_def] at short False show ?thesis
      by (simp add: request_line_def rp(1-4) Let_def fit_def path_is_def upd_resp_def)
  qed
  then show ?thesis
    using rp4 by (auto simp: CGI_SetCgiHandler_def upd_resp_def split: option.split)
qed

theorem request_line_parsed_witness:
  "\<exists>q'. request_line sample_glob 0 29 (zero_context\<lparr>q_http_request_buffer := ''GET /a.b/x.cgi?n=%31 HTTP/1.1'' @ NUL # LF # zeros 100\<rparr>) = Some (q', False)
    \<and> q_requestMethod q' = METHOD_GET \<and> cstr (q_requestPath q') = ''/a.b/x.cgi'' \<and> cstr (q_extension q') = ''cgi''"
proof -
  let ?q = "zero_context\<lparr>q_http_request_buffer := ''GET /a.b/x.cgi?n=%31 HTTP/1.1'' @ NUL # LF # zeros 100\<rparr>"
  have line: "q_http_request_buffer ?q = [] @ ''GET'' @ '' '' @ ''/a.b/x.cgi?n=%31'' @ '' HTTP/1.'' @ CHR ''1'' # NUL # LF # zeros 100"
    and path: "length (q_requestPath ?q) = 128" by (simp_all add: zero_context_def)
  have parts: "''/a.b/x.cgi?n=1'' = cstr (pct_decode ''/a.b/x.cgi?n=%31'')" "path_part ''/a.b/x.cgi?n=1'' = ''/a.b/x.cgi''"
    "short_extensions ''/a.b/x.cgi''" "extension ''/a.b/x.cgi'' = ''cgi''" by code_simp+
  have short: "short_extensions (path_part ''/a.b/x.cgi?n=1'')" using parts(2,3) by simp
  from request_line_parsed [OF line _ _ _ _ _ _ path parts(1) short, of 29 sample_glob] parts(2,4) show ?thesis by auto
qed

text \<open>
  The first digit of a range is lost. For a header line \<^verbatim>\<open>Range: bytes=a-b\<close> the start that
  the request gets is not \<open>a\<close> but what is left of it without its first digit, and when \<open>a\<close>
  has a single digit the minus sign of the range makes it the negative of \<open>b\<close>; the end is
  right. A range that is empty with this start is dropped.
\<close>

theorem range_start_misread:
  assumes "q_http_request_buffer q = pre @ ''Range: bytes='' @ fmt_u a @ ''-'' @ fmt_u b @ NUL # post" and "a \<le> 2147483647" and "b < 2147483647"
    and "fmt_u a = d # ds" and "from = (if ds = [] then - int b else digits_value ds)"
  shows "header_line (length pre) i q = Some (if int b + 1 > from then q\<lparr>q_rangeFrom := from, q_rangeTo := int b + 1\<rparr>
    else q\<lparr>q_rangeFrom := 0, q_rangeTo := 0\<rparr>)"
proof -
  let ?buf = "q_http_request_buffer q" and ?line = "''Range: bytes='' @ fmt_u a @ ''-'' @ fmt_u b"
  have ds: "\<forall>c \<in> set (d # ds). is_digit c" using assms(4) fmt_u_digits by metis
  have "digits_value (d # ds) = int a" using assms(4) by (metis digits_value_fmt_u)
  moreover have "0 \<le> (int (ord d) - 48) * 10 ^ length ds" using ds by (simp add: is_digit_def)
  ultimately have a: "digits_value ds \<le> 2147483647" using assms(2) by (simp add: digits_value_Cons)
  have line: "cstr_at ?buf (int (length pre)) = Some ?line"
    using cstr_append_NUL [of ?line post] by (simp add: cstr_at_def assms(1))
  have tail: "cstr_at ?buf (14 + int (length pre)) = Some (ds @ ''-'' @ fmt_u b)"
  proof -
    have "drop (length pre + 14) ?buf = (ds @ ''-'' @ fmt_u b) @ NUL # post" by (simp add: assms(1,4))
    moreover have "nul_free (ds @ ''-'' @ fmt_u b)" using nul_free_fmt(1) [of a] assms(4) by simp
    moreover have "nat (14 + int (length pre)) = length pre + 14" by simp
    ultimately show ?thesis unfolding cstr_at_def by (simp only: cstr_append_NUL) simp
  qed
  have start: "atol (ds @ ''-'' @ fmt_u b) = from"
  proof (cases "ds = []")
    case True
    have digits: "takeWhile is_digit (fmt_u b) = fmt_u b" using takeWhile_digits [of "[]" b] by simp
    from True show ?thesis using assms(3,5) by (simp add: atol_def is_space_def ord_def digits)
  next
    case False
    then show ?thesis using atol_digits [of ds "''-'' @ fmt_u b"] ds a assms(5) by (simp add: is_digit_def ord_def)
  qed
  have "CHR ''-'' \<notin> set ds" using ds by (auto simp: is_digit_def ord_def)
  from strstr_char [OF this] have "strstr (ds @ ''-'' @ fmt_u b) ''-'' = Some (length ds)" by simp
  moreover obtain e es where b: "fmt_u b = e # es" "is_digit e" using fmt_u_digits [of _ b] by (cases "fmt_u b") auto
  moreover have "atol (fmt_u b) = int b" using atol_fmt_u [of b "[]"] assms(3) by simp
  ultimately have range: "range_values ?buf (7 + int (length pre)) = Some (from, int b + 1)"
    using assms(3) tail start by (auto simp: range_values_def cur_def is_digit_def)
  have "strstr ('' bytes='' @ fmt_u a @ ''-'' @ fmt_u b) ''bytes='' = Some 1" by (simp add: strstr_Cons)
  with range have "header_range_line (length pre) ?line q = Some (if int b + 1 > from then q\<lparr>q_rangeFrom := from, q_rangeTo := int b + 1\<rparr>
    else q\<lparr>q_rangeFrom := 0, q_rangeTo := 0\<rparr>)"
    by (simp add: header_range_line_def)
  with line range_name [of "'' bytes='' @ fmt_u a @ ''-'' @ fmt_u b"] show ?thesis
    by (simp add: header_line_def Let_def)
qed

theorem range_start_misread_witness:
  "header_line 0 7 (zero_context\<lparr>q_http_request_buffer := ''Range: bytes=100-199'' @ NUL # zeros 111\<rparr>)
    = Some (zero_context\<lparr>q_http_request_buffer := ''Range: bytes=100-199'' @ NUL # zeros 111, q_rangeFrom := 0, q_rangeTo := 200\<rparr>)"
proof -
  have "fmt_u 100 = ''100''" "fmt_u 199 = ''199''" "digits_value ''00'' = 0" by code_simp+
  then show ?thesis
    using range_start_misread [of "zero_context\<lparr>q_http_request_buffer := ''Range: bytes=100-199'' @ NUL # zeros 111\<rparr>" "[]" 100 199 "zeros 111" "CHR ''1''" "''00''" 0]
    by simp
qed

text \<open>
  The length of a chunk is read in the wrong base. A chunk line of decimal digits \<open>ds\<close>
  counts as the decimal number, though its digits are hexadecimal, so a chunk of sixteen
  bytes is taken for one of ten; the line leaves the buffer.
\<close>

theorem chunk_length_misread:
  assumes "q_http_request_buffer q = ds @ CRLF @ rest" and "ds \<noteq> []" and "\<forall>c \<in> set ds. is_digit c" and "digits_value ds < 2147483640"
    and "q_state q = HTTP_STATE_CHUNK_LEN_RECEIVING" and "q_request_length q = size'" and "size' = int (length ds + 2 + k)"
    and "k \<le> length rest"
  shows "\<exists>q'. chunk_line q size' = Some q' \<and> q_contentLength q' = digits_value ds + 2 \<and> q_state q' = HTTP_STATE_CHUNK_RECEIVING
    \<and> q_request_length q' = int k \<and> take k (q_http_request_buffer q') = take k rest"
proof -
  let ?buf = "q_http_request_buffer q" and ?n = "length ds"
  have digit: "ds ! j \<noteq> CR \<and> ds ! j \<noteq> LF" if "j < ?n" for j
    using assms(3) nth_mem [OF that] by (auto simp: is_digit_def ord_def)
  have at: "?buf ! j = (if j < ?n then ds ! j else (CRLF @ rest) ! (j - ?n))" for j by (simp add: assms(1) nth_append)
  have skip: "nat (int ?n + 2) - ?n = 2" by simp
  have "List.find (\<lambda>c. ?buf ! c = CR \<or> ?buf ! (c + 1) = LF) [0..<nat size' - 1] = Some ?n"
    unfolding find_index_Some
  proof (intro conjI allI impI)
    show "?n < nat size' - 1" using assms(7) by simp
    show "?buf ! ?n = CR \<or> ?buf ! (?n + 1) = LF" by (simp add: at CRLF_def)
    show "\<not> (?buf ! j = CR \<or> ?buf ! (j + 1) = LF)" if "j < ?n" for j
      using that digit [of j] digit [of "j + 1"] by (auto simp: at CRLF_def)
  qed
  moreover have "?buf[?n := NUL] = ds @ NUL # LF # rest" by (simp add: assms(1) CRLF_def)
  moreover have "nul_free ds" using assms(3) by (auto simp: nul_free_def is_digit_def ord_def)
  then have "cstr_at (ds @ NUL # LF # rest) 0 = Some ds" by (simp add: cstr_at_def cstr_append_NUL)
  moreover have "atol ds = digits_value ds" using atol_digits [of ds "[]"] assms(2-4) by simp
  moreover have "0 \<le> digits_value ds" using assms(3) by (rule digits_value_nonneg)
  moreover have "int (length ?buf) \<ge> size'" "size' > 2" using assms(1,2,7,8) by (auto simp: CRLF_def length_greater_0_conv [symmetric] simp del: length_greater_0_conv)
  ultimately show ?thesis
    using assms(4-8) skip memmove_down [of "int ?n + 2" "int k" "ds @ NUL # LF # rest"]
    by (auto simp: chunk_line_def Let_def shift_buffer_def)
qed

theorem chunk_length_misread_witness:
  "\<exists>q'. chunk_line (zero_context\<lparr>q_http_request_buffer := ''10'' @ CRLF @ zeros 128, q_state := HTTP_STATE_CHUNK_LEN_RECEIVING, q_request_length := 20\<rparr>) 20
     = Some q' \<and> q_contentLength q' = 12"
proof -
  let ?q = "zero_context\<lparr>q_http_request_buffer := ''10'' @ CRLF @ zeros 128, q_state := HTTP_STATE_CHUNK_LEN_RECEIVING, q_request_length := 20\<rparr>"
  have ten: "digits_value ''10'' = 10" "\<forall>c \<in> set ''10''. is_digit c" by code_simp+
  have "q_http_request_buffer ?q = ''10'' @ CRLF @ zeros 128" "q_state ?q = HTTP_STATE_CHUNK_LEN_RECEIVING" "q_request_length ?q = 20" by simp_all
  from chunk_length_misread [OF this(1) _ ten(2) _ this(2,3), of 16] ten(1) show ?thesis by auto
qed

end
