(* ===== verification/Ssdp.thy ===== *)
theory Ssdp
  imports Device Samples
begin

text \<open>
  \<^verbatim>\<open>httpd/ssdp.c\<close>: the service that announces the device on the local network and answers
  searches. Its static variables are a record of their own; the UDP and IGMP calls it makes
  are recorded in order. Addresses are the host-order words that \<^verbatim>\<open>PP_HTONL\<close> turns into the
  stack's form and \<^verbatim>\<open>inet_ntoa\<close> back. Locks are empty in this build.
\<close>

section \<open>State and calls\<close>

datatype SSDP_TYPES = ADVERTISE_UP | ADVERTISE_DOWN | MSEARCH_REPLY

datatype udp_call =
    Igmp_joingroup u32 u32
  | Igmp_leavegroup u32 u32
  | Udp_bind nat nat
  | Udp_recv nat
  | Udp_sendto "nat option" string u32 nat
  | Udp_remove "nat option"
  | Udp_pbuf_free bytes

text \<open>The answers of the stack: a new pcb or none, and whether a pbuf can be had.\<close>

record udp_env =
  ue_new :: "udp_call list \<Rightarrow> nat option"
  ue_pbuf :: "udp_call list \<Rightarrow> bool"

record ssdp =
  g_ssdpGroupIP :: u32
  g_ssdpLocalIP :: u32
  g_ssdpPcb :: "nat option"
  g_nLastAdvertise :: int
  g_nAdvertisePeriod :: int
  u_calls :: "udp_call list"

definition udp_do :: "udp_call \<Rightarrow> ssdp \<Rightarrow> ssdp" where
  "udp_do c s = s\<lparr>u_calls := u_calls s @ [c]\<rparr>"

abbreviation UPNP_GROUP :: u32 where "UPNP_GROUP \<equiv> 0xEFFFFFFA"
abbreviation UPNP_MULTICAST_PORT :: nat where "UPNP_MULTICAST_PORT \<equiv> 1900"

definition GetLocalhost :: "glob \<Rightarrow> ssdp \<Rightarrow> ssdp" where
  "GetLocalhost g s = s\<lparr>g_ssdpLocalIP := GetMyIP g\<rparr>"

section \<open>Messages\<close>

definition ssdp_head :: "SSDP_TYPES \<Rightarrow> string" where
  "ssdp_head type =
     (if type = MSEARCH_REPLY
      then ''HTTP/1.1 200 OK'' @ CRLF @ ''CACHE-CONTROL: max-age='' @ fmt_d 1800 @ CRLF
        @ ''EXT: webport='' @ fmt_d 80 @ CRLF @ ''SN: '' @ GetDeviceSN @ CRLF
      else ''NOTIFY * HTTP/1.1'' @ CRLF @ ''HOST: 239.255.255.250:'' @ fmt_d 1900 @ CRLF
        @ ''CACHE-CONTROL: max-age='' @ fmt_d 1800 @ CRLF
        @ ''NTS: '' @ (if type = ADVERTISE_UP then ''ssdp:alive'' else ''ssdp:byebye'') @ CRLF)"

definition ssdp_message :: "SSDP_TYPES \<Rightarrow> glob \<Rightarrow> string" where
  "ssdp_message type g = ssdp_head type
     @ (if type \<noteq> ADVERTISE_DOWN then ''LOCATION: http://'' @ dotted (GetMyIP g) @ ''/upnp_device.xml'' @ CRLF else [])
     @ ''SERVER: '' @ GetDeviceName @ '', UPnP/1.0'' @ CRLF
     @ (if type = MSEARCH_REPLY then ''ST'' else ''NT'') @ '': upnp:rootdevice'' @ CRLF
     @ ''USN: uuid:'' @ GetDeviceUUID @ ''::upnp:rootdevice'' @ CRLF @ CRLF"

definition ssdp_send_to :: "udp_env \<Rightarrow> SSDP_TYPES \<Rightarrow> u32 \<Rightarrow> nat \<Rightarrow> glob \<Rightarrow> ssdp \<Rightarrow> ssdp option" where
  "ssdp_send_to e type ipDest portDest g s = do {
     _ \<leftarrow> fit 128 GetDeviceUUID;
     msg \<leftarrow> fit 768 (ssdp_message type g);
     let (ip, port) = (if type = MSEARCH_REPLY then (ipDest, portDest) else (UPNP_GROUP, UPNP_MULTICAST_PORT));
     let s = (if type \<noteq> ADVERTISE_DOWN then GetLocalhost g s else s);
     Some (if ue_pbuf e (u_calls s) then udp_do (Udp_sendto (g_ssdpPcb s) msg ip port) s else s) }"

section \<open>Start, stop and the periodic announcement\<close>

definition ssdpInit :: "udp_env \<Rightarrow> glob \<Rightarrow> ssdp \<Rightarrow> ssdp" where
  "ssdpInit e g s =
     (let s = GetLocalhost g (s\<lparr>g_ssdpGroupIP := UPNP_GROUP\<rparr>);
          s = udp_do (Igmp_joingroup (g_ssdpLocalIP s) (g_ssdpGroupIP s)) s;
          s = s\<lparr>g_ssdpPcb := ue_new e (u_calls s)\<rparr>;
          s = (case g_ssdpPcb s of None \<Rightarrow> s
               | Some pcb \<Rightarrow> udp_do (Udp_recv pcb) (udp_do (Udp_bind pcb UPNP_MULTICAST_PORT) s))
      in s\<lparr>g_nLastAdvertise := uint (g_now g), g_nAdvertisePeriod := 500\<rparr>)"

definition ssdpDown :: "udp_env \<Rightarrow> glob \<Rightarrow> ssdp \<Rightarrow> ssdp option" where
  "ssdpDown e g s = do {
     s \<leftarrow> ssdp_send_to e ADVERTISE_DOWN 0 0 g s;
     let s = (udp_do (Udp_remove (g_ssdpPcb s)) s)\<lparr>g_ssdpPcb := None\<rparr>;
     let s = GetLocalhost g s;
     Some (udp_do (Igmp_leavegroup (g_ssdpLocalIP s) UPNP_GROUP) s) }"

definition ssdp_advertise :: "udp_env \<Rightarrow> SSDP_TYPES \<Rightarrow> glob \<Rightarrow> ssdp \<Rightarrow> ssdp option" where
  "ssdp_advertise e arg g s = ssdp_send_to e arg 0 0 g s"

definition ssdpCheckTimeout :: "udp_env \<Rightarrow> int \<Rightarrow> glob \<Rightarrow> ssdp \<Rightarrow> ssdp option" where
  "ssdpCheckTimeout e tick g s =
     (if g_nAdvertisePeriod s > 0 \<and> s32 (tick - g_nLastAdvertise s) > g_nAdvertisePeriod s
      then ssdp_advertise e ADVERTISE_UP g (s\<lparr>g_nLastAdvertise := tick, g_nAdvertisePeriod := 60 * 1000\<rparr>)
      else Some s)"

section \<open>Searches\<close>

text \<open>What the listener has seen of a search: the local variables of its loop.\<close>

record msearch =
  ms_line :: nat
  ms_begin :: nat
  ms_host :: bool
  ms_st :: bool
  ms_man :: bool
  ms_mx :: bool
  ms_mx_min :: int

definition no_search :: msearch where
  "no_search = \<lparr>ms_line = 0, ms_begin = 0, ms_host = False, ms_st = False, ms_man = False, ms_mx = False, ms_mx_min = 0\<rparr>"

definition quoted_discover :: string where
  "quoted_discover = [DQ] @ ''ssdp:discover'' @ [DQ]"

text \<open>One line; \<open>None\<close> when the first line is not that of a search.\<close>

definition ssdp_line :: "string \<Rightarrow> msearch \<Rightarrow> msearch option" where
  "ssdp_line l m =
     (if ms_line m = 0 then (if Strnicmp l ''M-SEARCH'' 8 \<noteq> 0 then None else Some m)
      else Some (
        if Strnicmp l ''Host:'' 5 = 0 then m\<lparr>ms_host := True\<rparr>
        else if Strnicmp l ''ST:'' 3 = 0 then
          (if strstr (drop 3 l) ''ssdp:all'' \<noteq> None then m\<lparr>ms_st := True\<rparr>
           else if strstr (drop 3 l) ''upnp:rootdevice'' \<noteq> None then m\<lparr>ms_st := True\<rparr> else m)
        else if Strnicmp l ''Man:'' 4 = 0 then
          (if strstr (drop 4 l) quoted_discover \<noteq> None then m\<lparr>ms_man := True\<rparr> else m)
        else if Strnicmp l ''MX:'' 3 = 0 then m\<lparr>ms_mx_min := atol (drop 3 l), ms_mx := True\<rparr>
        else m))"

text \<open>
  The scan for line ends. \<open>lim\<close> is the unsigned \<^verbatim>\<open>len - 1\<close>; a read past the buffer is
  undefined; the inner \<open>None\<close> is the early return.
\<close>

function ssdp_scan :: "nat \<Rightarrow> nat \<Rightarrow> bytes \<Rightarrow> msearch \<Rightarrow> msearch option option" where
  "ssdp_scan lim i buff m =
     (if \<not> i < lim then Some (Some m)
      else if length buff \<le> i then None
      else if buff ! i \<noteq> CR then ssdp_scan lim (i + 1) buff m
      else if length buff \<le> i + 1 then None
      else if buff ! (i + 1) \<noteq> LF then ssdp_scan lim (i + 1) buff m
      else
        (case cstr_at (buff[i := NUL]) (int (ms_begin m)) of
           None \<Rightarrow> None
         | Some l \<Rightarrow>
             (case ssdp_line l m of
                None \<Rightarrow> Some None
              | Some m \<Rightarrow> ssdp_scan lim (i + 2) (buff[i := NUL]) (m\<lparr>ms_line := ms_line m + 1, ms_begin := i + 2\<rparr>))))"
  by pat_completeness auto
termination
  by (relation "measure (\<lambda>(lim, i, buff, m). length buff - i)") auto

declare ssdp_scan.simps [simp del]

definition ssdp_listener :: "udp_env \<Rightarrow> bytes \<Rightarrow> u32 \<Rightarrow> nat \<Rightarrow> glob \<Rightarrow> ssdp \<Rightarrow> ssdp option" where
  "ssdp_listener e p addr port g s =
     (let szBuffer = take 252 p @ zeros (256 - length (take 252 p));
          len = word_of_nat (length (take 252 p)) :: u32;
          s = udp_do (Udp_pbuf_free p) s
      in if strstr (cstr szBuffer) ''NOTIFY '' \<noteq> None then Some s
         else do {
           found \<leftarrow> ssdp_scan (unat (len - 1)) 0 szBuffer no_search;
           (case found of None \<Rightarrow> Some s
            | Some m \<Rightarrow>
                if ms_host m \<and> ms_st m \<and> ms_man m \<and> ms_mx m \<and> ms_mx_min m > 0
                then ssdp_send_to e MSEARCH_REPLY addr port g s else Some s) })"

section \<open>Messages and the announcement\<close>

lemma ssdp_message_short: "length (ssdp_message type g) < 400"
  using length_dotted [of "GetMyIP g"]
  by (cases type) (simp_all add: ssdp_message_def ssdp_head_def CRLF_def GetDeviceName_def GetDeviceSN_def GetDeviceUUID_def
      fmt_d_def fmt_u_def base_digits.simps [of 10])

definition ssdp_dest :: "SSDP_TYPES \<Rightarrow> u32 \<Rightarrow> nat \<Rightarrow> u32 \<times> nat" where
  "ssdp_dest type ip port = (if type = MSEARCH_REPLY then (ip, port) else (UPNP_GROUP, UPNP_MULTICAST_PORT))"

lemma ssdp_send_to_eq:
  "ssdp_send_to e type ip port g s =
     (let s = (if type \<noteq> ADVERTISE_DOWN then GetLocalhost g s else s) in
      Some (if ue_pbuf e (u_calls s) then udp_do (Udp_sendto (g_ssdpPcb s) (ssdp_message type g)
              (fst (ssdp_dest type ip port)) (snd (ssdp_dest type ip port))) s else s))"
  using ssdp_message_short [of type g]
  by (simp add: ssdp_send_to_def ssdp_dest_def Let_def fit_def GetDeviceUUID_def)

text \<open>Polling the service at a list of ticks; the ticks at which it announced itself.\<close>

fun ssdp_polls :: "udp_env \<Rightarrow> int list \<Rightarrow> glob \<Rightarrow> ssdp \<Rightarrow> (ssdp \<times> int list) option" where
  "ssdp_polls e [] g s = Some (s, [])"
| "ssdp_polls e (t # ts) g s = do {
     s' \<leftarrow> ssdpCheckTimeout e t g s;
     (s'', as) \<leftarrow> ssdp_polls e ts g s';
     Some (s'', if g_nLastAdvertise s' = t \<and> g_nLastAdvertise s \<noteq> t then t # as else as) }"

lemma ssdp_send_to_frame:
  assumes "ssdp_send_to e type ip port g s = Some s'"
  shows "g_nLastAdvertise s' = g_nLastAdvertise s" "g_nAdvertisePeriod s' = g_nAdvertisePeriod s" "g_ssdpPcb s' = g_ssdpPcb s"
    "g_ssdpGroupIP s' = g_ssdpGroupIP s"
  using assms by (auto simp: ssdp_send_to_eq Let_def GetLocalhost_def udp_do_def split: if_splits)

text \<open>One poll, for a tick that is not before the last announcement.\<close>

lemma ssdpCheckTimeout_step:
  assumes "0 < g_nAdvertisePeriod s" and "g_nLastAdvertise s \<le> t" and "t - g_nLastAdvertise s < 2147483648"
  shows "\<exists>s'. ssdpCheckTimeout e t g s = Some s'
    \<and> (if t - g_nLastAdvertise s > g_nAdvertisePeriod s
       then g_nLastAdvertise s' = t \<and> g_nAdvertisePeriod s' = 60000
         \<and> s' = (if ue_pbuf e (u_calls s)
                then udp_do (Udp_sendto (g_ssdpPcb s) (ssdp_message ADVERTISE_UP g) UPNP_GROUP UPNP_MULTICAST_PORT) else id)
              (s\<lparr>g_nLastAdvertise := t, g_nAdvertisePeriod := 60000, g_ssdpLocalIP := GetMyIP g\<rparr>)
       else s' = s)"
  using assms by (auto simp: ssdpCheckTimeout_def ssdp_advertise_def ssdp_send_to_eq ssdp_dest_def Let_def GetLocalhost_def udp_do_def)

lemma ssdp_polls_spaced:
  assumes "0 < g_nAdvertisePeriod s" and "sorted (g_nLastAdvertise s # ts)" and "\<forall>t \<in> set ts. t - g_nLastAdvertise s < 2147483648"
  shows "\<exists>s' as. ssdp_polls e ts g s = Some (s', as) \<and> set as \<subseteq> set ts \<and> (\<forall>a \<in> set as. a - g_nLastAdvertise s > g_nAdvertisePeriod s)
    \<and> sorted_wrt (\<lambda>a b. b - a > 60000) as"
  using assms
proof (induction ts arbitrary: s)
  case (Cons t ts)
  from Cons.prems ssdpCheckTimeout_step [of s t e g] obtain s1 where
    step: "ssdpCheckTimeout e t g s = Some s1"
    and s1: "if t - g_nLastAdvertise s > g_nAdvertisePeriod s then g_nLastAdvertise s1 = t \<and> g_nAdvertisePeriod s1 = 60000 else s1 = s"
    by (auto split: if_splits)
  show ?case
  proof (cases "t - g_nLastAdvertise s > g_nAdvertisePeriod s")
    case True
    with s1 Cons.prems Cons.IH [of s1] obtain s' as where "ssdp_polls e ts g s1 = Some (s', as)" "set as \<subseteq> set ts"
      "\<forall>a \<in> set as. a - t > 60000" "sorted_wrt (\<lambda>a b. b - a > 60000) as" by fastforce
    with True s1 step Cons.prems show ?thesis by auto
  next
    case False
    with s1 Cons.prems Cons.IH [of s1] obtain s' as where "ssdp_polls e ts g s = Some (s', as)" "set as \<subseteq> set ts"
      "\<forall>a \<in> set as. a - g_nLastAdvertise s > g_nAdvertisePeriod s" "sorted_wrt (\<lambda>a b. b - a > 60000) as" by auto
    with False s1 step show ?thesis by auto
  qed
qed simp

section \<open>The scan of a search\<close>

text \<open>What the lines of a search, each taken as a whole, leave in the variables of the loop.\<close>

fun lines_seen :: "string list \<Rightarrow> msearch \<Rightarrow> msearch option" where
  "lines_seen [] m = Some m"
| "lines_seen (l # ls) m =
     (case ssdp_line l m of None \<Rightarrow> None
      | Some m \<Rightarrow> lines_seen ls (m\<lparr>ms_line := ms_line m + 1, ms_begin := ms_begin m + length l + 2\<rparr>))"

lemma ssdp_line_begin: "ssdp_line l m = Some m' \<Longrightarrow> ms_begin m' = ms_begin m \<and> ms_line m' = ms_line m"
  by (auto simp: ssdp_line_def split: if_splits)

lemma CR_not_NUL [simp]: "CR \<noteq> NUL" "NUL \<noteq> CR" "LF \<noteq> CR" "CR \<noteq> LF"
  by simp_all

lemma ssdp_scan_to_line_end:
  assumes "CR \<notin> set l" and "length pre + length l < lim"
  shows "ssdp_scan lim (length pre) (pre @ l @ CR # LF # rest) m = ssdp_scan lim (length pre + length l) (pre @ l @ CR # LF # rest) m"
  using assms
proof (induction l arbitrary: pre)
  case (Cons c l)
  have "ssdp_scan lim (length pre) (pre @ (c # l) @ CR # LF # rest) m = ssdp_scan lim (length (pre @ [c])) ((pre @ [c]) @ l @ CR # LF # rest) m"
    using Cons.prems by (subst ssdp_scan.simps) (auto simp: nth_append)
  also have "\<dots> = ssdp_scan lim (length (pre @ [c]) + length l) ((pre @ [c]) @ l @ CR # LF # rest) m"
    using Cons.prems by (intro Cons.IH) auto
  finally show ?case by simp
qed simp

lemma ssdp_scan_line:
  assumes "CR \<notin> set l" and "nul_free l" and "length pre + length l < lim" and "ms_begin m = length pre"
  shows "ssdp_scan lim (length pre) (pre @ l @ CR # LF # rest) m =
    (case ssdp_line l m of None \<Rightarrow> Some None
     | Some m \<Rightarrow> ssdp_scan lim (length (pre @ l @ [NUL, LF])) ((pre @ l @ [NUL, LF]) @ rest)
         (m\<lparr>ms_line := ms_line m + 1, ms_begin := length (pre @ l @ [NUL, LF])\<rparr>))"
proof -
  let ?b = "pre @ l @ CR # LF # rest"
  have upd: "?b[length pre + length l := NUL] = pre @ l @ NUL # LF # rest"
    using list_update_length [of "pre @ l" CR "LF # rest" NUL] by simp
  have str: "cstr_at (?b[length pre + length l := NUL]) (int (ms_begin m)) = Some l"
    using assms(2,4) by (simp add: upd cstr_at_def cstr_append_NUL)
  have "?b ! (length pre + length l) = CR" "?b ! (length pre + length l + 1) = LF"
    using nth_append_length [of "pre @ l" CR "LF # rest"] nth_append_length [of "pre @ l @ [CR]" LF rest] by simp_all
  then show ?thesis
    unfolding ssdp_scan_to_line_end [OF assms(1,3)]
    using assms(3) str upd by (subst ssdp_scan.simps) (simp add: add.assoc split: option.splits)
qed

definition crlf_lines :: "string list \<Rightarrow> string" where
  "crlf_lines ls = concat (map (\<lambda>l. l @ CRLF) ls)"

lemma ssdp_scan_lines:
  assumes "\<forall>l \<in> set ls. CR \<notin> set l \<and> nul_free l" and "lim + 1 = length pre + length (crlf_lines ls)" and "ms_begin m = length pre"
  shows "ssdp_scan lim (length pre) (pre @ crlf_lines ls @ rest) m = Some (lines_seen ls m)"
  using assms
proof (induction ls arbitrary: pre m)
  case (Cons l ls)
  let ?pre = "pre @ l @ [NUL, LF]"
  have "ssdp_scan lim (length pre) (pre @ crlf_lines (l # ls) @ rest) m = ssdp_scan lim (length pre) (pre @ l @ CR # LF # crlf_lines ls @ rest) m"
    by (simp add: crlf_lines_def CRLF_def)
  also have "\<dots> = (case ssdp_line l m of None \<Rightarrow> Some None
     | Some m \<Rightarrow> ssdp_scan lim (length ?pre) (?pre @ crlf_lines ls @ rest) (m\<lparr>ms_line := ms_line m + 1, ms_begin := length ?pre\<rparr>))"
    using Cons.prems by (intro ssdp_scan_line) (simp_all add: crlf_lines_def CRLF_def)
  also have "\<dots> = Some (lines_seen (l # ls) m)"
  proof (cases "ssdp_line l m")
    case (Some m')
    have "lim + 1 = length ?pre + length (crlf_lines ls)" using Cons.prems(2) by (simp add: crlf_lines_def CRLF_def)
    from Cons.IH [OF _ this, of "m'\<lparr>ms_line := ms_line m' + 1, ms_begin := length ?pre\<rparr>"] Cons.prems
    have "ssdp_scan lim (length ?pre) (?pre @ crlf_lines ls @ rest) (m'\<lparr>ms_line := ms_line m' + 1, ms_begin := length ?pre\<rparr>)
      = Some (lines_seen ls (m'\<lparr>ms_line := ms_line m' + 1, ms_begin := length ?pre\<rparr>))" by simp
    with Some ssdp_line_begin [OF Some] Cons.prems(3) show ?thesis by (simp add: add.assoc)
  qed simp
  finally show ?case .
qed (subst ssdp_scan.simps, simp add: crlf_lines_def)

text \<open>A header of a search by its name, and the wanted lines of a search.\<close>

definition starts_ci :: "string \<Rightarrow> string \<Rightarrow> bool" where
  "starts_ci p l \<longleftrightarrow> map toUpper (take (length p) l) = map toUpper p"

definition st_line :: "string \<Rightarrow> bool" where
  "st_line l \<longleftrightarrow> starts_ci ''ST:'' l \<and> (sublist ''ssdp:all'' (drop 3 l) \<or> sublist ''upnp:rootdevice'' (drop 3 l))"

definition man_line :: "string \<Rightarrow> bool" where
  "man_line l \<longleftrightarrow> starts_ci ''Man:'' l \<and> sublist quoted_discover (drop 4 l)"

text \<open>The value of the last \<^verbatim>\<open>MX\<close> line counts.\<close>

fun mx_after :: "string list \<Rightarrow> int \<Rightarrow> int" where
  "mx_after [] x = x"
| "mx_after (l # ls) x = mx_after ls (if starts_ci ''MX:'' l then atol (drop 3 l) else x)"

definition is_search :: "string \<Rightarrow> string list \<Rightarrow> bool" where
  "is_search l0 ls \<longleftrightarrow> starts_ci ''M-SEARCH'' l0 \<and> (\<exists>l \<in> set ls. starts_ci ''Host:'' l) \<and> (\<exists>l \<in> set ls. st_line l)
     \<and> (\<exists>l \<in> set ls. man_line l) \<and> mx_after ls 0 > 0"

lemma Strnicmp_starts: "n = length p \<Longrightarrow> Strnicmp l p n = 0 \<longleftrightarrow> starts_ci p l"
  by (simp add: Strnicmp_eq_0_iff starts_ci_def)

lemma starts_ci_cases:
  "starts_ci ''Host:'' l \<Longrightarrow> \<not> starts_ci ''ST:'' l \<and> \<not> starts_ci ''Man:'' l \<and> \<not> starts_ci ''MX:'' l"
  "starts_ci ''ST:'' l \<Longrightarrow> \<not> starts_ci ''Man:'' l \<and> \<not> starts_ci ''MX:'' l"
  "starts_ci ''Man:'' l \<Longrightarrow> \<not> starts_ci ''MX:'' l"
proof -
  have neq: "toUpper (CHR ''H'') \<noteq> toUpper (CHR ''S'')" "toUpper (CHR ''H'') \<noteq> toUpper (CHR ''M'')"
    "toUpper (CHR ''S'') \<noteq> toUpper (CHR ''M'')" "toUpper (CHR ''a'') \<noteq> toUpper (CHR ''X'')"
    by code_simp+
  show "starts_ci ''Host:'' l \<Longrightarrow> \<not> starts_ci ''ST:'' l \<and> \<not> starts_ci ''Man:'' l \<and> \<not> starts_ci ''MX:'' l"
    "starts_ci ''ST:'' l \<Longrightarrow> \<not> starts_ci ''Man:'' l \<and> \<not> starts_ci ''MX:'' l"
    using neq by (cases l; auto simp: starts_ci_def)+
  show "starts_ci ''Man:'' l \<Longrightarrow> \<not> starts_ci ''MX:'' l"
    using neq by (cases l; cases "tl l"; auto simp: starts_ci_def)
qed

lemma ssdp_line_eq:
  "ms_line m \<noteq> 0 \<Longrightarrow> \<exists>m'. ssdp_line l m = Some m' \<and> ms_host m' = (ms_host m \<or> starts_ci ''Host:'' l) \<and> ms_st m' = (ms_st m \<or> st_line l)
     \<and> ms_man m' = (ms_man m \<or> man_line l) \<and> ms_mx m' = (ms_mx m \<or> starts_ci ''MX:'' l)
     \<and> ms_mx_min m' = (if starts_ci ''MX:'' l then atol (drop 3 l) else ms_mx_min m)"
  using starts_ci_cases [of l]
  by (auto simp: ssdp_line_def Strnicmp_starts st_line_def man_line_def strstr_None_iff)

lemma lines_seen_eq:
  assumes "ms_line m \<noteq> 0"
  shows "\<exists>m'. lines_seen ls m = Some m' \<and> ms_host m' = (ms_host m \<or> (\<exists>l \<in> set ls. starts_ci ''Host:'' l))
     \<and> ms_st m' = (ms_st m \<or> (\<exists>l \<in> set ls. st_line l)) \<and> ms_man m' = (ms_man m \<or> (\<exists>l \<in> set ls. man_line l))
     \<and> ms_mx m' = (ms_mx m \<or> (\<exists>l \<in> set ls. starts_ci ''MX:'' l)) \<and> ms_mx_min m' = mx_after ls (ms_mx_min m)"
  using assms
proof (induction ls arbitrary: m)
  case (Cons l ls)
  from ssdp_line_eq [OF Cons.prems, of l] obtain m1 where m1: "ssdp_line l m = Some m1"
    "ms_host m1 = (ms_host m \<or> starts_ci ''Host:'' l)" "ms_st m1 = (ms_st m \<or> st_line l)"
    "ms_man m1 = (ms_man m \<or> man_line l)" "ms_mx m1 = (ms_mx m \<or> starts_ci ''MX:'' l)"
    "ms_mx_min m1 = (if starts_ci ''MX:'' l then atol (drop 3 l) else ms_mx_min m)" by blast
  from Cons.IH [of "m1\<lparr>ms_line := ms_line m1 + 1, ms_begin := ms_begin m1 + length l + 2\<rparr>"] m1 show ?case by auto
qed simp

lemma mx_after_none: "\<forall>l \<in> set ls. \<not> starts_ci ''MX:'' l \<Longrightarrow> mx_after ls x = x"
  by (induction ls) auto

lemma search_seen:
  "(case lines_seen (l0 # ls) no_search of None \<Rightarrow> False
    | Some m \<Rightarrow> ms_host m \<and> ms_st m \<and> ms_man m \<and> ms_mx m \<and> ms_mx_min m > 0) \<longleftrightarrow> is_search l0 ls"
proof (cases "starts_ci ''M-SEARCH'' l0")
  case True
  let ?m = "no_search\<lparr>ms_line := 1, ms_begin := length l0 + 2\<rparr>"
  have first: "lines_seen (l0 # ls) no_search = lines_seen ls ?m"
    using True by (simp add: ssdp_line_def Strnicmp_starts no_search_def)
  from lines_seen_eq [of ?m ls] obtain m' where "lines_seen ls ?m = Some m'"
    "ms_host m' = (\<exists>l \<in> set ls. starts_ci ''Host:'' l)" "ms_st m' = (\<exists>l \<in> set ls. st_line l)"
    "ms_man m' = (\<exists>l \<in> set ls. man_line l)" "ms_mx m' = (\<exists>l \<in> set ls. starts_ci ''MX:'' l)" "ms_mx_min m' = mx_after ls 0"
    by (auto simp: no_search_def)
  with True first mx_after_none [of ls 0] show ?thesis by (auto simp: is_search_def)
qed (simp add: is_search_def ssdp_line_def Strnicmp_starts no_search_def)

section \<open>Properties\<close>

text \<open>A stack that has a pcb and pbufs, and the statics at the start, for the witnesses.\<close>

definition sample_udp :: udp_env where
  "sample_udp = \<lparr>ue_new = \<lambda>_. Some 1, ue_pbuf = \<lambda>_. True\<rparr>"

definition sample_ssdp :: ssdp where
  "sample_ssdp = \<lparr>g_ssdpGroupIP = 0, g_ssdpLocalIP = 0, g_ssdpPcb = None, g_nLastAdvertise = 0, g_nAdvertisePeriod = 0, u_calls = []\<rparr>"

text \<open>
  C26: A search is answered exactly when it asks for this device. For a datagram of lines that
  end with CR LF, at most 252 bytes long, that does not contain the word of an announcement,
  the listener replies to the sender if and only if the first line is that of a search and
  among the others are a host line, a search target of all devices or of root devices, the
  quoted discover command, and a last MX line with a positive number; otherwise it does
  nothing but free the datagram.
\<close>

theorem msearch_answered:
  assumes "p = concat (map (\<lambda>l. l @ CRLF) (l0 # ls))" and "length p \<le> 252"
    and "\<forall>l \<in> set (l0 # ls). CR \<notin> set l \<and> nul_free l" and "\<not> sublist ''NOTIFY '' p"
  shows "ssdp_listener e p addr port g s =
    (if is_search l0 ls then ssdp_send_to e MSEARCH_REPLY addr port g (udp_do (Udp_pbuf_free p) s)
     else Some (udp_do (Udp_pbuf_free p) s))"
proof -
  let ?buf = "p @ zeros (256 - length p)"
  have take: "take 252 p = p" using assms(2) by simp
  have "nul_free p" using assms(1,3) by (auto simp: nul_free_def CRLF_def)
  then have "cstr ?buf = p"
    using assms(2) by (cases "256 - length p") (simp_all add: zeros_def cstr_append_NUL)
  then have quiet: "strstr (cstr ?buf) ''NOTIFY '' = None" using assms(4) by (simp add: strstr_None_iff)
  have "1 \<le> length p" using assms(1) by (simp add: CRLF_def)
  then have lim: "unat (word_of_nat (length p) - 1 :: u32) = length p - 1"
    using assms(2) by (simp add: unat_sub_if' unat_of_nat)
  have "ssdp_scan (length p - 1) (length ([] :: bytes)) ([] @ crlf_lines (l0 # ls) @ zeros (256 - length p)) no_search = Some (lines_seen (l0 # ls) no_search)"
    using assms(1,3) \<open>1 \<le> length p\<close> by (intro ssdp_scan_lines) (auto simp: crlf_lines_def no_search_def)
  then have scan: "ssdp_scan (length p - 1) 0 ?buf no_search = Some (lines_seen (l0 # ls) no_search)"
    using assms(1) by (simp add: crlf_lines_def)
  show ?thesis
    unfolding ssdp_listener_def take Let_def lim scan quiet search_seen [symmetric]
    by (simp split: option.splits del: lines_seen.simps)
qed

theorem msearch_answered_witness:
  "\<exists>s'. ssdp_listener sample_udp (concat (map (\<lambda>l. l @ CRLF) [''M-SEARCH * HTTP/1.1'',
      ''HOST: 239.255.255.250:1900'', ''MAN: '' @ quoted_discover, ''MX: 2'', ''ST: ssdp:all'', []])) 7 5000 sample_glob sample_ssdp = Some s'
    \<and> u_calls s' = u_calls sample_ssdp @ [Udp_pbuf_free (concat (map (\<lambda>l. l @ CRLF) [''M-SEARCH * HTTP/1.1'',
      ''HOST: 239.255.255.250:1900'', ''MAN: '' @ quoted_discover, ''MX: 2'', ''ST: ssdp:all'', []])),
      Udp_sendto (g_ssdpPcb sample_ssdp) (ssdp_message MSEARCH_REPLY sample_glob) 7 5000]"
proof -
  let ?ls = "[''HOST: 239.255.255.250:1900'', ''MAN: '' @ quoted_discover, ''MX: 2'', ''ST: ssdp:all'', []]"
  have free: "\<forall>l \<in> set (''M-SEARCH * HTTP/1.1'' # ?ls). CR \<notin> set l \<and> nul_free l" by (simp add: quoted_discover_def nul_free_def)
  have "strstr (concat (map (\<lambda>l. l @ CRLF) (''M-SEARCH * HTTP/1.1'' # ?ls))) ''NOTIFY '' = None" by code_simp
  then have "\<not> sublist ''NOTIFY '' (concat (map (\<lambda>l. l @ CRLF) (''M-SEARCH * HTTP/1.1'' # ?ls)))" by (simp only: strstr_None_iff) simp
  moreover have "is_search ''M-SEARCH * HTTP/1.1'' ?ls" by code_simp
  moreover have "length (concat (map (\<lambda>l. l @ CRLF) (''M-SEARCH * HTTP/1.1'' # ?ls))) \<le> 252" by (simp add: CRLF_def quoted_discover_def)
  ultimately show ?thesis
    using msearch_answered [OF refl _ free, of "sample_udp" 7 5000 sample_glob sample_ssdp]
    by (simp add: ssdp_send_to_eq ssdp_dest_def GetLocalhost_def udp_do_def sample_udp_def)
qed

text \<open>
  An empty datagram makes the listener run off its buffer. The loop bound is the unsigned
  length less one, which wraps, so the scan reads on behind the 256 bytes of the buffer.
\<close>

theorem empty_datagram_overruns:
  "ssdp_listener e [] addr port g s = None"
proof -
  have "ssdp_scan 0xFFFFFFFF (256 - k) (zeros 256) m = None" if "k \<le> 256" for k m
    using that
  proof (induction k)
    case (Suc k)
    have "zeros 256 ! (256 - Suc k) \<noteq> CR" using Suc.prems by (simp add: zeros_def nth_replicate)
    moreover have "256 - Suc k + 1 = 256 - k" using Suc.prems by simp
    ultimately show ?case using Suc by (subst ssdp_scan.simps) simp
  qed (subst ssdp_scan.simps, simp)
  from this [of 256] have scan: "ssdp_scan 0xFFFFFFFF 0 (zeros 256) m = None" for m by simp
  have lim: "unat (word_of_nat (length (take 252 ([] :: bytes))) - 1 :: u32) = 0xFFFFFFFF"
    by (simp add: unsigned_minus_1_eq_mask mask_eq_exp_minus_1)
  show ?thesis unfolding ssdp_listener_def Let_def lim by (simp add: scan strstr_Nil)
qed

text \<open>
  Every message of the service fits its buffer of 768 bytes and the identifier its 128
  bytes, whatever the address; sending never fails. A message leaves, when a pbuf can be had,
  as one datagram: announcements go to the multicast group, a reply to the address and port
  of the search; it ends with an empty line.
\<close>

theorem ssdp_message_sent:
  "\<exists>s'. ssdp_send_to e type ip port g s = Some s' \<and> length (ssdp_message type g) < 768 \<and> g_ssdpPcb s' = g_ssdpPcb s
    \<and> suffix (CRLF @ CRLF) (ssdp_message type g)
    \<and> u_calls s' = u_calls s @ (if ue_pbuf e (u_calls s) then
        [Udp_sendto (g_ssdpPcb s) (ssdp_message type g) (if type = MSEARCH_REPLY then ip else 0xEFFFFFFA) (if type = MSEARCH_REPLY then port else 1900)] else [])"
proof -
  have "suffix (CRLF @ CRLF) (ssdp_message type g)"
    unfolding ssdp_message_def by (simp only: suffix_appendI suffix_order.refl)
  then show ?thesis using ssdp_message_short [of type g]
    by (simp add: ssdp_send_to_eq ssdp_dest_def Let_def GetLocalhost_def udp_do_def)
qed



end
