(* ===== verification/Access.thy ===== *)
theory Access
  imports Receive_Queue
begin

text \<open>
  Who gets to the protected pages: the gate behind the request header, the way from a login
  to the requests it lets through, and a request that passes the gate although it should not.
\<close>

section \<open>The gate\<close>

text \<open>A request that needs a login and comes without a session of its client.\<close>

definition foreign :: "REQUEST_CONTEXT \<Rightarrow> glob \<Rightarrow> bool" where
  "foreign q g = (case GetSession (g_httpSessions g) (p_token (ctxResponse q)) of
     None \<Rightarrow> True | Some i \<Rightarrow> q_ipRemote q \<noteq> s_nLoginIP (g_httpSessions g ! i))"

definition needs_login :: "REQUEST_CONTEXT \<Rightarrow> bool" where
  "needs_login q \<longleftrightarrow> q_handler q \<noteq> None \<and> q_options q AND CGI_OPT_AUTH_REQUIRED \<noteq> 0 \<and> SessionTypes (cstr (q_extension q)) > 0"

lemma authorize_foreign:
  assumes "foreign q g" and "needs_login q"
  shows "authorize q g = upd_resp (\<lambda>r. r\<lparr>p_authorized := CODE_REDIRECT\<rparr>)
    (q\<lparr>q_session := GetSession (g_httpSessions g) (p_token (ctxResponse q)), q_result := CODE_REDIRECT, q_responsePath := WEB_DEFAULT_PAGE\<rparr>)"
  using assms by (cases "GetSession (g_httpSessions g) (p_token (ctxResponse q))")
    (simp_all add: authorize_def foreign_def needs_login_def Let_def upd_resp_def)

lemma authorize_own:
  assumes "\<not> foreign q g"
  shows "authorize q g = upd_resp (\<lambda>r. r\<lparr>p_authorized := CODE_OK\<rparr>) (q\<lparr>q_session := GetSession (g_httpSessions g) (p_token (ctxResponse q))\<rparr>)"
  using assms by (cases "GetSession (g_httpSessions g) (p_token (ctxResponse q))")
    (simp_all add: authorize_def foreign_def Let_def upd_resp_def)

text \<open>Everything of the request but where it stands, its session, its result and its answer.\<close>

lemma after_header_foreign:
  assumes "foreign q g" and "needs_login q"
  shows "\<exists>q'. after_header e q g = Some (q', g) \<and> q_result q' = CODE_REDIRECT \<and> q_responsePath q' = WEB_DEFAULT_PAGE
    \<and> p_authorized (ctxResponse q') = CODE_REDIRECT \<and> q_fileHandle q' = q_fileHandle q
    \<and> p_appContext (ctxResponse q') = p_appContext (ctxResponse q) \<and> q_handler q' = q_handler q"
proof -
  from assms(2) have "q_handler q \<noteq> None" "q_options q AND CGI_OPT_AUTH_REQUIRED \<noteq> 0" by (simp_all add: needs_login_def)
  then show ?thesis
    by (auto simp: after_header_def authorize_foreign [OF assms] Let_def CGI_HeadersReceived_def body_done_def upd_resp_def)
qed

text \<open>A request for the settings page whose header line is the empty one.\<close>

definition sample_header :: REQUEST_CONTEXT where
  "sample_header = sample_context\<lparr>q_state := HTTP_STATE_HEADER_RECEIVING, q_requestMethod := METHOD_GET, q_handler := Some g_cgiForm,
     q_options := 0x40C00000, q_request_length := 2, q_http_request_buffer := CR # LF # zeros 130\<rparr>"

definition sample_header_done :: REQUEST_CONTEXT where
  "sample_header_done = sample_header\<lparr>q_state := HTTP_STATE_HEADER_DONE, q_request_length := 0\<rparr>"

lemma zeros_update [simp]: "(zeros n)[0 := NUL] = zeros n"
  by (cases n) (simp_all add: zeros_def)

lemma sample_header_steps:
  "dequeue sample_header g = Some (sample_header, g)" "begin_request sample_header g = sample_header"
  "parse_headers sample_header g = Some (sample_header_done, 0, True)"
  by (simp_all add: dequeue_def begin_request_def sample_header_def sample_context_def zero_context_def zero_response_def
      parse_headers_def header_loop.simps header_end_def shift_buffer_def sample_header_done_def upd_resp_def in_arr_def)

lemma sample_foreign: "foreign sample_header_done sample_glob" "needs_login sample_header_done"
  by (simp_all add: foreign_def needs_login_def sample_header_done_def sample_header_def sample_context_def zero_context_def zero_response_def
      GetSession_def SessionTypes_def)

section \<open>The file list behind a redirection\<close>

lemma first_file_json:
  "fake_name (fst (fakeFiles ! 0)) = ''@@FakeFile001MB.dat''" "fst (fakeFiles ! 0) = 1048576" "snd (fakeFiles ! 0) = 1605130877"
  by (simp_all add: fakeFiles_def fake_name_def pad0_def fmt_u_def base_digits.simps [of 10] digit_char_def) code_simp

lemma first_item_long: "int (length (files_head @ file_json ''@@FakeFile001MB.dat'' 1048576 1605130877)) = 95"
  by (simp add: files_head_def file_json_def fmt_d_def fmt_u_def base_digits.simps [of 10])

text \<open>The first call of the reader for the file list: one item fills the block.\<close>

lemma first_file_read:
  assumes "p_appContext (ctxResponse q) = App_Raw []" and "p_dwOperStage (ctxResponse q) = 0" and "p_dwTotal (ctxResponse q) = 0"
    and "q_requestMethod q = METHOD_GET" and "WEB_firstdir 128 (g_FileOpened g) = (fs, Some i, en)"
    and "out = files_head @ file_json ''@@FakeFile001MB.dat'' 1048576 1605130877"
  shows "\<exists>q' g'. Files_ReadOneFileInfo q g 244 = Some (q', g', out @ [NUL], 95)
    \<and> p_dwOperStage (ctxResponse q') = 1 \<and> p_sendBuffer (ctxResponse q') = p_sendBuffer (ctxResponse q)
    \<and> p_bytesLeft (ctxResponse q') = p_bytesLeft (ctxResponse q) \<and> q_result q' = q_result q"
proof -
  have en: "en = (''@@FakeFile001MB.dat'', 1048576, 1605130877)"
    using assms(5) first_file_json by (auto simp: WEB_firstdir_def dir_entry_def Let_def split: prod.splits)
  have item: "files_item 0 zero_ssi (g_FileOpened g) = Some (zero_ssi\<lparr>ssi_fp := Some i\<rparr>, fs, Inl en)"
    by (simp add: files_item_def assms(5))
  have len: "int (length out) = 95" using first_item_long assms(6) by simp
  have "files_loop 244 path 0 0 zero_ssi (g_FileOpened g) [] = Some (1, 1, zero_ssi\<lparr>ssi_fp := Some i\<rparr>, fs, out)" for path
    using len by (subst files_loop.simps) (simp add: item en skip_name_def files_loop.simps [of _ _ 1] assms(6) del: length_append)
  moreover have "out \<noteq> []" using len by auto
  ultimately show ?thesis
    using assms(1-4) len by (simp add: Files_ReadOneFileInfo_def set_ssi_def upd_resp_def)
qed

section \<open>Properties\<close>



text \<open>
  C19: A login opens the protected pages to the address it came from and to no other. After a
  session was created for an address, with a cookie no other live session has, a request that
  presents the cookie is authorised when it comes from that address; when it comes from
  another one and needs a login, it is sent to the login page.
\<close>

theorem login_grants_own_address:
  assumes "session_inv (g_httpSessions g)" and "SessionCreate tick ip (g_httpSessions g) = (ss, c, Some i)"
    and "\<forall>j \<in> live (g_httpSessions g). s_token (g_httpSessions g ! j) \<noteq> c"
    and "g_httpSessions g' = ss" and "p_token (ctxResponse q) = c"
  shows "if q_ipRemote q = ip
    then p_authorized (ctxResponse (authorize q g')) = CODE_OK \<and> q_result (authorize q g') = q_result q \<and> q_session (authorize q g') = Some i
    else needs_login q \<longrightarrow> q_result (authorize q g') = CODE_REDIRECT \<and> q_responsePath (authorize q g') = WEB_DEFAULT_PAGE"
proof -
  have "\<forall>j \<in> live (g_httpSessions g). session_token (g_httpSessions g) j \<noteq> c"
    using assms(3) by (auto simp: session_token_def live_def)
  from tbl.login_get_fresh [OF assms(1,2) this] have get: "GetSession (g_httpSessions g') (p_token (ctxResponse q)) = Some i"
    using assms(4,5) by simp
  have own: "s_nLoginIP (g_httpSessions g' ! i) = ip"
    using SessionCreate_Some [OF assms(2)] assms(4) by auto
  show ?thesis
  proof (cases "q_ipRemote q = ip")
    case True
    then have "\<not> foreign q g'" by (simp add: foreign_def get own)
    with True get show ?thesis by (simp add: authorize_own upd_resp_def)
  next
    case False
    then have "foreign q g'" by (simp add: foreign_def get own)
    with False show ?thesis by (auto simp: authorize_foreign upd_resp_def)
  qed
qed

theorem login_grants_own_address_witness:
  "p_authorized (ctxResponse (authorize (upd_resp (\<lambda>r. r\<lparr>p_token := session_cookie 5000\<rparr>) (sample_context\<lparr>q_ipRemote := 7\<rparr>))
     (sample_glob\<lparr>g_httpSessions := fst (SessionCreate 5000 7 SetupSession)\<rparr>))) = CODE_OK"
proof -
  let ?r = "SessionCreate 5000 7 SetupSession"
  have ss: "g_httpSessions sample_glob = SetupSession" by (simp add: sample_glob_def SetupSession_def)
  have "?r = (fst ?r, session_cookie 5000, Some 0)" by (simp add: SessionCreate_def SetupSession_def upt_rec)
  then have "SessionCreate 5000 7 (g_httpSessions sample_glob) = (fst ?r, session_cookie 5000, Some 0)" by (simp only: ss)
  from login_grants_own_address [OF _ this, of "sample_glob\<lparr>g_httpSessions := fst ?r\<rparr>"
      "upd_resp (\<lambda>r. r\<lparr>p_token := session_cookie 5000\<rparr>) (sample_context\<lparr>q_ipRemote := 7\<rparr>)"]
  moreover have "live SetupSession = {}" by (auto simp: live_def SetupSession_def)
  ultimately show ?thesis using session_inv_setup by (simp add: ss upd_resp_def)
qed


text \<open>A request for the list that was sent to the login page.\<close>

definition sample_listing :: REQUEST_CONTEXT where
  "sample_listing = upd_resp (\<lambda>r. r\<lparr>p_appContext := App_Raw [], p_dwOperStage := 0, p_dwOperIndex := 0, p_dwTotal := 0, p_bytesLeft := 0,
       p_sendMaxBlock := 256, p_sendBuffer := zeros 256\<rparr>)
     (sample_context\<lparr>q_result := CODE_REDIRECT, q_handler := Some g_cgiFiles, q_requestMethod := METHOD_GET, q_options := 0x40808000\<rparr>)"


end
