(* ===== verification/Connections.thy ===== *)
theory Connections
  imports Access
begin

text \<open>
  The sending side of \<^verbatim>\<open>http_core.c\<close> and the life of its connections: what is written to the
  stack and in which order, which slot a new connection takes, when a silent one is closed,
  and what is left when the server stops.
\<close>

section \<open>Bytes on their way out\<close>

text \<open>What the stack has accepted so far, and what still waits in the send buffer.\<close>

fun written_by :: "net_call \<Rightarrow> bytes" where
  "written_by (Altcp_write pcb b) = b"
| "written_by _ = []"

definition written :: "glob \<Rightarrow> bytes" where
  "written g = concat (map written_by (g_calls g))"

definition waiting :: "REQUEST_CONTEXT \<Rightarrow> bytes" where
  "waiting q = take (nat (p_bytesLeft (ctxResponse q))) (p_sendBuffer (ctxResponse q))"

definition send_ok :: "REQUEST_CONTEXT \<Rightarrow> bool" where
  "send_ok q \<longleftrightarrow> 0 \<le> p_bytesLeft (ctxResponse q) \<and> p_bytesLeft (ctxResponse q) \<le> int (length (p_sendBuffer (ctxResponse q)))"

text \<open>One block: the bytes leave the front of the buffer for the end of what is written.\<close>

lemma send_block_conserves:
  assumes "send_ok q" and "0 < n" and "n \<le> p_bytesLeft (ctxResponse q)"
  shows "\<exists>q' g' err. send_block e pcb q g n = Some (q', g', err) \<and> send_ok q'
    \<and> length (p_sendBuffer (ctxResponse q')) = length (p_sendBuffer (ctxResponse q))
    \<and> err = e_write e (g_calls g) (take (nat n) (p_sendBuffer (ctxResponse q)))
    \<and> (if err = ERR_OK
       then written g' @ waiting q' = written g @ waiting q \<and> p_bytesLeft (ctxResponse q') = p_bytesLeft (ctxResponse q) - n
         \<and> p_total2Send (ctxResponse q') = p_total2Send (ctxResponse q) + n
       else q' = q \<and> g' = g)"
proof -
  let ?r = "ctxResponse q"
  let ?sb = "p_sendBuffer ?r" and ?left = "p_bytesLeft ?r - n" and ?block = "take (nat n) (p_sendBuffer ?r)"
  from assms have len: "n \<le> int (length ?sb)" "0 \<le> ?left" "?left < int (length ?sb)" "p_bytesLeft ?r \<le> int (length ?sb)"
    by (auto simp: send_ok_def)
  show ?thesis
  proof (cases "e_write e (g_calls g) ?block = ERR_OK")
    case False
    with len assms(1) show ?thesis by (simp add: send_block_def Let_def)
  next
    case True
    define sb1 where "sb1 = take (nat ?left) (drop (nat n) ?sb) @ drop (nat ?left) ?sb"
    have moved: "(if ?left > 0 then memmove ?sb 0 n ?left else Some ?sb) = Some sb1"
      using len assms(2) by (auto simp: sb1_def memmove_def blit_def in_arr_def)
    have l1: "length sb1 = length ?sb" using len assms(2) by (simp add: sb1_def)
    have "take (nat ?left) sb1 = take (nat ?left) (drop (nat n) ?sb)" using len assms(2) by (simp add: sb1_def)
    then have rest: "take (nat ?left) (sb1[nat ?left := NUL]) = take (nat ?left) (drop (nat n) ?sb)" by simp
    have "nat (p_bytesLeft ?r) = nat n + nat ?left" using len assms(2) by (simp add: nat_add_distrib [symmetric])
    then have split: "waiting q = ?block @ take (nat ?left) (drop (nat n) ?sb)" by (simp add: waiting_def take_add)
    have "poke sb1 ?left NUL = Some (sb1[nat ?left := NUL])" using len l1 by (simp add: in_arr_def)
    with True moved len have "send_block e pcb q g n = Some (upd_resp (\<lambda>r. r\<lparr>p_total2Send := p_total2Send r + n, p_bytesLeft := ?left,
        p_sendBuffer := sb1[nat ?left := NUL], p_tLastSent := tick_stamp (g_now g)\<rparr>) q, call (Altcp_write pcb ?block) g, ERR_OK)"
      by (simp add: send_block_def Let_def)
    with True len l1 rest split show ?thesis
      by (simp add: send_ok_def written_def waiting_def call_def)
  qed
qed

lemma send_loop_conserves:
  assumes "send_ok q"
  shows "\<exists>q' g' err. send_loop e pcb q g = Some (q', g', err) \<and> send_ok q'
    \<and> written g' @ waiting q' = written g @ waiting q
    \<and> p_total2Send (ctxResponse q') + p_bytesLeft (ctxResponse q') = p_total2Send (ctxResponse q) + p_bytesLeft (ctxResponse q)
    \<and> p_bytesLeft (ctxResponse q') \<le> p_bytesLeft (ctxResponse q)
    \<and> (err = ERR_OK \<longrightarrow> p_bytesLeft (ctxResponse q') = 0 \<or> e_sndbuf e (g_calls g') \<le> 0) \<and> (err = ERR_OK \<or> (\<exists>cs b. err = e_write e cs b))"
  using assms
proof (induction e pcb q g rule: send_loop.induct)
  case (1 e pcb q g)
  let ?left = "p_bytesLeft (ctxResponse q)" and ?max = "e_sndbuf e (g_calls g)"
  show ?case
  proof (cases "?left > 0 \<and> ?max > 0")
    case False
    with 1(2) show ?thesis by (subst (1) send_loop.simps) (auto simp: Let_def send_ok_def)
  next
    case True
    let ?n = "min ?left ?max"
    from True send_block_conserves [OF 1(2), of ?n e pcb g] obtain q1 g1 err where
      b: "send_block e pcb q g ?n = Some (q1, g1, err)" "send_ok q1"
      and ok: "err = ERR_OK \<Longrightarrow> written g1 @ waiting q1 = written g @ waiting q \<and> p_bytesLeft (ctxResponse q1) = ?left - ?n
         \<and> p_total2Send (ctxResponse q1) = p_total2Send (ctxResponse q) + ?n"
      and no: "err \<noteq> ERR_OK \<Longrightarrow> q1 = q \<and> g1 = g" and err: "err = e_write e (g_calls g) (take (nat ?n) (p_sendBuffer (ctxResponse q)))" by (auto split: if_splits)
    show ?thesis
    proof (cases "err = ERR_OK")
      case False
      with True b no 1(2) err show ?thesis by (subst (1) send_loop.simps) (auto simp: Let_def)
    next
      case E: True
      from 1(1) [OF refl refl True b(1) [unfolded E] refl refl refl b(2)] obtain q' g' err' where
        r: "send_loop e pcb q1 g1 = Some (q', g', err')" "send_ok q'" "written g' @ waiting q' = written g1 @ waiting q1"
          "p_total2Send (ctxResponse q') + p_bytesLeft (ctxResponse q') = p_total2Send (ctxResponse q1) + p_bytesLeft (ctxResponse q1)"
          "p_bytesLeft (ctxResponse q') \<le> p_bytesLeft (ctxResponse q1)"
          "err' = ERR_OK \<longrightarrow> p_bytesLeft (ctxResponse q') = 0 \<or> e_sndbuf e (g_calls g') \<le> 0" "err' = ERR_OK \<or> (\<exists>cs b. err' = e_write e cs b)" by blast
      have "send_loop e pcb q g = send_loop e pcb q1 g1"
        using True b(1) E by (subst (1) send_loop.simps) (simp add: Let_def)
      with r ok [OF E] True show ?thesis by auto
    qed
  qed
qed

section \<open>Contexts that are released\<close>

lemma WEB_Finished_frame:
  assumes "WEB_Finished q g = Some r"
  shows "g_calls (snd r) = g_calls g \<and> q_pcb (fst r) = q_pcb q \<and> q_reqBufList (fst r) = q_reqBufList q
    \<and> g_httpSessions (snd r) = g_httpSessions g"
proof (cases "as_ssi (p_appContext (ctxResponse q))")
  case (Some ctx)
  from assms show ?thesis unfolding WEB_Finished_def Some bind.bind_lunit option.inject
    by (elim subst) (simp add: set_ssi_def upd_resp_def set_files_def)
qed (use assms in \<open>simp add: WEB_Finished_def\<close>)

lemma CGI_Finish_frame:
  assumes "CGI_Finish q g = Some (q', g')"
  shows "g_calls g' = g_calls g" "q_pcb q' = q_pcb q" "q_reqBufList q' = q_reqBufList q" "g_httpSessions g' = g_httpSessions g"
proof -
  have "(q', g') = (q, g) \<or> WEB_Finished q g = Some (q', g')"
    using assms by (cases "q_handler q"; cases "the (q_handler q)") (simp_all add: CGI_Finish_def)
  then have "g_calls g' = g_calls g \<and> q_pcb q' = q_pcb q \<and> q_reqBufList q' = q_reqBufList q \<and> g_httpSessions g' = g_httpSessions g"
    using WEB_Finished_frame [of q g "(q', g')"] by auto
  then show "g_calls g' = g_calls g" "q_pcb q' = q_pcb q" "q_reqBufList q' = q_reqBufList q" "g_httpSessions g' = g_httpSessions g"
    by blast+
qed

text \<open>A context that belongs to no connection and holds nothing.\<close>

definition released :: "REQUEST_CONTEXT \<Rightarrow> bool" where
  "released q \<longleftrightarrow> q_pcb q = None \<and> q_reqBufList q = [] \<and> q_request_length q = 0 \<and> q_fileHandle q = None \<and> q_handler q = None
     \<and> q_state q = HTTP_STATE_IDLE \<and> ctxResponse q = zero_response"

lemma FreeHttpContext_released:
  assumes "FreeHttpContext q g = Some (q', g')"
  shows "released q' \<and> g_httpSessions g' = g_httpSessions g
    \<and> g_calls g' = g_calls g @ (if q_reqBufList q = [] then [] else [Pbuf_free (concat (q_reqBufList q))])"
proof -
  have "CGI_Finish q g \<noteq> None"
  proof
    assume "CGI_Finish q g = None"
    then have "FreeHttpContext q g = None" unfolding FreeHttpContext_def by (simp only: bind.bind_lzero)
    with assms show False by simp
  qed
  then obtain q1 g1 where f: "CGI_Finish q g = Some (q1, g1)" by (metis not_Some_eq surj_pair)
  have "g' = close_file q1 (free_chain q1 g1) \<and> released q'"
    using assms unfolding FreeHttpContext_def f bind.bind_lunit Let_def prod.case option.inject prod.inject
    by (elim conjE, hypsubst) (simp add: released_def)
  then have r: "g' = close_file q1 (free_chain q1 g1)" "released q'" by blast+
  from CGI_Finish_frame [OF f] r show ?thesis
    by (simp add: close_file_def set_files_def free_chain_def call_def)
qed

lemma put_eq [simp]: "put i cs (q, g) = (cs[i := q], g)"
  by (simp add: put_def)

definition pbuf_frees :: "net_call list \<Rightarrow> bool" where
  "pbuf_frees cs \<longleftrightarrow> (\<forall>c \<in> set cs. \<exists>b. c = Pbuf_free b)"

lemma free_contexts_released:
  assumes "free_contexts is (cs, g) = Some (cs', g')" and "set is \<subseteq> {..<length cs}" and "distinct is"
  shows "length cs' = length cs \<and> (\<forall>i \<in> set is. released (cs' ! i)) \<and> (\<forall>i. i \<notin> set is \<longrightarrow> cs' ! i = cs ! i)
    \<and> g_httpSessions g' = g_httpSessions g \<and> (\<exists>fs. g_calls g' = g_calls g @ fs \<and> pbuf_frees fs)"
  using assms
proof (induction "is" arbitrary: cs g)
  case (Cons i "is")
  from Cons.prems(1) obtain q1 g1 where f: "FreeHttpContext (cs ! i) g = Some (q1, g1)"
    and r: "free_contexts is (cs[i := q1], g1) = Some (cs', g')"
    by (auto simp: bind_eq_Some_conv)
  from Cons.IH [OF r] Cons.prems have ih: "length cs' = length cs" "\<forall>i \<in> set is. released (cs' ! i)"
    "\<forall>j. j \<notin> set is \<longrightarrow> cs' ! j = cs[i := q1] ! j" "g_httpSessions g' = g_httpSessions g1" "\<exists>fs. g_calls g' = g_calls g1 @ fs \<and> pbuf_frees fs"
    by auto
  from FreeHttpContext_released [OF f] Cons.prems ih show ?case
    by (auto simp: pbuf_frees_def)
qed (auto simp: pbuf_frees_def)

lemma HttpdStop_released:
  assumes "HttpdStop pcb (cs, g) = Some (cs', g')"
  shows "length cs' = length cs \<and> (\<forall>i < length cs. released (cs' ! i)) \<and> g_httpSessions g' = g_httpSessions g
    \<and> (\<exists>fs. g_calls g' = g_calls g @ Altcp_close pcb # fs @ [Tcp_kill_timewait] \<and> pbuf_frees fs)"
proof -
  from assms obtain g1 where r: "free_contexts [0..<length cs] (cs, call (Altcp_close pcb) g) = Some (cs', g1)" and g': "g' = PrintLwipStatus g1"
    by (auto simp: HttpdStop_def bind_eq_Some_conv)
  have "set [0..<length cs] \<subseteq> {..<length cs}" by auto
  from free_contexts_released [OF r this] g' show ?thesis
    by (auto simp: PrintLwipStatus_def call_def)
qed

section \<open>Slots and silence\<close>

lemma ResetHttpContext_fresh:
  "ResetHttpContext q g = (q', g') \<Longrightarrow> q_state q' = HTTP_STATE_IDLE \<and> q_handler q' = None \<and> q_fileHandle q' = None \<and> q_result q' = 0
     \<and> p_bytesLeft (ctxResponse q') = 0 \<and> p_token (ctxResponse q') = [] \<and> q_reqBufList q' = q_reqBufList q \<and> q_bufOffset q' = q_bufOffset q
     \<and> q_pcb q' = q_pcb q \<and> g_httpSessions g' = g_httpSessions g \<and> g_calls g' = g_calls g"
  unfolding ResetHttpContext_def prod.inject
  by (elim conjE subst) (simp add: zero_response_def close_file_def set_files_def)

text \<open>Whether the limit of connections per address lets a new one in; it exists with TLS only.\<close>

definition admitted :: "env \<Rightarrow> u32 \<Rightarrow> REQUEST_CONTEXT list \<Rightarrow> bool" where
  "admitted e ip cs \<longleftrightarrow> \<not> (e_tls e \<and> length (filter (\<lambda>c. q_pcb c \<noteq> None \<and> q_ipRemote c = ip) cs) \<ge> MAX_CONN_PER_IP)"

definition first_free :: "REQUEST_CONTEXT list \<Rightarrow> nat \<Rightarrow> bool" where
  "first_free cs i \<longleftrightarrow> i < length cs \<and> q_pcb (cs ! i) = None \<and> (\<forall>j < i. q_pcb (cs ! j) \<noteq> None)"

lemma GetHttpContext_some:
  assumes "admitted e ip cs" and "first_free cs i"
  shows "\<exists>q g'. GetHttpContext e ip (cs, g) = ((cs[i := q], g'), Some i) \<and> q_state q = HTTP_STATE_IDLE \<and> q_handler q = None \<and> q_fileHandle q = None
    \<and> q_result q = 0 \<and> p_bytesLeft (ctxResponse q) = 0 \<and> p_token (ctxResponse q) = [] \<and> q_reqBufList q = [] \<and> q_bufOffset q = 0
    \<and> g_httpSessions g' = g_httpSessions g"
proof -
  from assms(2) have f: "List.find (\<lambda>i. q_pcb (cs ! i) = None) [0..<length cs] = Some i"
    by (auto simp: first_free_def find_index_Some)
  obtain q g' where r: "ResetHttpContext ((cs ! i)\<lparr>q_reqBufList := [], q_bufOffset := 0, q_peer_closing := 0\<rparr>) (free_chain (cs ! i) g) = (q, g')"
    by (cases "ResetHttpContext ((cs ! i)\<lparr>q_reqBufList := [], q_bufOffset := 0, q_peer_closing := 0\<rparr>) (free_chain (cs ! i) g)") auto
  have "GetHttpContext e ip (cs, g) = ((cs[i := q], g'), Some i)"
    using assms(1) f r by (simp add: GetHttpContext_def admitted_def Let_def)
  moreover have "g_httpSessions (free_chain (cs ! i) g) = g_httpSessions g" by (simp add: free_chain_def call_def)
  ultimately show ?thesis using ResetHttpContext_fresh [OF r] by auto
qed

lemma GetHttpContext_none:
  assumes "\<not> admitted e ip cs \<or> (\<forall>i < length cs. q_pcb (cs ! i) \<noteq> None)"
  shows "GetHttpContext e ip (cs, g) = ((cs, g), None)"
proof (cases "admitted e ip cs")
  case True
  with assms have "List.find (\<lambda>i. q_pcb (cs ! i) = None) [0..<length cs] = None" by (simp add: find_index_None)
  then show ?thesis by (simp add: GetHttpContext_def)
qed (simp add: GetHttpContext_def admitted_def)

lemma CloseHttpContext_closes:
  assumes "as_ssi (p_appContext (ctxResponse q)) \<noteq> None" and "q_pcb q = Some pcb"
  shows "\<exists>q' g'. CloseHttpContext e q g = Some (q', g') \<and> released q' \<and> g_httpSessions g' = g_httpSessions g
    \<and> (\<exists>cs. g_calls g' = g_calls g @ detach_calls pcb @ Altcp_close pcb # cs)"
proof -
  define g1 where "g1 = calls (detach_calls pcb) g"
  define q1 g2 where "q1 = (if e_close e (g_calls g1) \<noteq> ERR_OK then q else q\<lparr>q_pcb := None, q_peer_closing := 0\<rparr>)"
    and "g2 = (if e_close e (g_calls g1) \<noteq> ERR_OK then call (Altcp_poll pcb True) (call (Altcp_close pcb) g1) else call (Altcp_close pcb) g1)"
  have "ctxResponse q1 = ctxResponse q" by (simp add: q1_def)
  then have "CGI_Finish q1 g2 \<noteq> None"
    using assms(1) by (cases "q_handler q1"; cases "the (q_handler q1)")
      (auto simp: CGI_Finish_def WEB_Finished_def bind_eq_None_conv)
  then have "FreeHttpContext q1 g2 \<noteq> None"
    by (auto simp: FreeHttpContext_def bind_eq_None_conv Let_def)
  then obtain q' g' where f: "FreeHttpContext q1 g2 = Some (q', g')" by (metis not_Some_eq surj_pair)
  have "CloseHttpContext e q g = Some (q', PrintLwipStatus g')"
    using f assms(2) by (simp add: CloseHttpContext_def q1_def g1_def g2_def Let_def split: if_splits)
  moreover have "\<exists>cs. g_calls g2 = g_calls g @ detach_calls pcb @ Altcp_close pcb # cs"
    by (auto simp: g2_def g1_def)
  moreover have "g_httpSessions g2 = g_httpSessions g" by (simp add: g2_def g1_def calls_def call_def)
  ultimately show ?thesis using FreeHttpContext_released [OF f] by (auto simp: PrintLwipStatus_def call_def)
qed

lemma CGI_Cancel_keeps: "q_pcb (CGI_Cancel q) = q_pcb q \<and> p_appContext (ctxResponse (CGI_Cancel q)) = p_appContext (ctxResponse q)"
  by (cases "q_handler q"; cases "the (q_handler q)") (simp_all add: CGI_Cancel_def Upload_OnCancel_def)

lemma IsContextTimeout_receiving:
  assumes "q_state q < HTTP_STATE_BODY_DONE" and "q_tLastReceived q \<noteq> 0" and "q_tLastReceived q \<le> g_now g"
  shows "IsContextTimeout q g \<longleftrightarrow> unat (g_now g) - unat (q_tLastReceived q) > unat (q_nReceiveTimeout q)"
proof -
  have "IsContextTimeout q g \<longleftrightarrow> (ucast (q_nReceiveTimeout q) :: u64) < elapsed_since (g_now g) (q_tLastReceived q)"
    using assms(1) by (simp add: IsContextTimeout_def Let_def)
  also have "\<dots> \<longleftrightarrow> unat (q_nReceiveTimeout q) < unat (elapsed_since (g_now g) (q_tLastReceived q))"
    using unsigned_less [of "q_nReceiveTimeout q", where ?'a = nat]
    by (simp add: word_less_nat_alt unsigned_ucast_eq take_bit_nat_eq_self)
  finally show ?thesis using elapsed_since_unat [OF assms(2,3)] by simp
qed

section \<open>Properties\<close>

text \<open>
  C9: Responses leave in order and complete. However the stack divides, delays or refuses
  what it is given, sending the buffer of a response hands its bytes to the stack from the
  front: what has been written followed by what still waits never changes, the count of bytes
  to be sent grows by what was written, and a call without an error ends only when nothing
  waits or the stack has no room. An error is one the stack reported.
\<close>

theorem sending_in_order:
  assumes "q_pcb q \<noteq> None" and "0 \<le> p_bytesLeft (ctxResponse q)"
    and "p_bytesLeft (ctxResponse q) \<le> int (length (p_sendBuffer (ctxResponse q)))"
  shows "\<exists>q' g' err. sendBuffered e q g = Some (q', g', err) \<and> written g' @ waiting q' = written g @ waiting q
    \<and> p_total2Send (ctxResponse q') + p_bytesLeft (ctxResponse q') = p_total2Send (ctxResponse q) + p_bytesLeft (ctxResponse q)
    \<and> p_bytesLeft (ctxResponse q') \<le> p_bytesLeft (ctxResponse q)
    \<and> (if err = ERR_OK then p_bytesLeft (ctxResponse q') = 0 \<or> e_sndbuf e (g_calls g') \<le> 0 else \<exists>cs b. err = e_write e cs b)"
proof (cases "p_bytesLeft (ctxResponse q) > 0")
  case True
  from assms(1) obtain pcb where "q_pcb q = Some pcb" by auto
  with True have s: "sendBuffered e q g = send_loop e pcb q g" by (simp add: sendBuffered_def)
  have "send_ok q" using assms(2,3) by (simp add: send_ok_def)
  from send_loop_conserves [OF this, of e pcb g] show ?thesis unfolding s
    by (elim exE conjE) (intro exI conjI; (assumption | (simp, blast)))
next
  case False
  with assms(2) show ?thesis by (simp add: sendBuffered_def)
qed

theorem sending_in_order_witness:
  "\<exists>q' g' err. sendBuffered sample_env (upd_resp (\<lambda>r. r\<lparr>p_bytesLeft := 200\<rparr>) sample_context) sample_glob = Some (q', g', err)
    \<and> written g' @ waiting q' = zeros 200"
  using sending_in_order [of "upd_resp (\<lambda>r. r\<lparr>p_bytesLeft := 200\<rparr>) sample_context" sample_env sample_glob]
  by (auto simp: sample_context_def zero_context_def zero_response_def upd_resp_def written_def waiting_def sample_glob_def zeros_def)

text \<open>
  A stack that always has room and accepts every write gets the whole buffer in one call.
\<close>

theorem sending_completes:
  assumes "q_pcb q \<noteq> None" and "0 \<le> p_bytesLeft (ctxResponse q)"
    and "p_bytesLeft (ctxResponse q) \<le> int (length (p_sendBuffer (ctxResponse q)))"
    and "\<forall>cs. e_sndbuf e cs > 0" and "\<forall>cs b. e_write e cs b = ERR_OK"
  shows "\<exists>q' g'. sendBuffered e q g = Some (q', g', ERR_OK) \<and> written g' = written g @ waiting q \<and> p_bytesLeft (ctxResponse q') = 0"
proof (cases "p_bytesLeft (ctxResponse q) > 0")
  case True
  from assms(1) obtain pcb where "q_pcb q = Some pcb" by auto
  with True have s: "sendBuffered e q g = send_loop e pcb q g" by (simp add: sendBuffered_def)
  have "send_ok q" using assms(2,3) by (simp add: send_ok_def)
  from send_loop_conserves [OF this, of e pcb g] obtain q' g' err where
    r: "send_loop e pcb q g = Some (q', g', err)" "written g' @ waiting q' = written g @ waiting q"
      "err = ERR_OK \<longrightarrow> p_bytesLeft (ctxResponse q') = 0 \<or> e_sndbuf e (g_calls g') \<le> 0" "err = ERR_OK \<or> (\<exists>cs b. err = e_write e cs b)"
    by blast
  from r(4) assms(5) have "err = ERR_OK" by auto
  with r(3) assms(4) have "p_bytesLeft (ctxResponse q') = 0" by (metis not_le)
  moreover from this have "waiting q' = []" by (simp add: waiting_def)
  ultimately show ?thesis using s r(1,2) \<open>err = ERR_OK\<close> by auto
next
  case False
  with assms(2) show ?thesis by (simp add: sendBuffered_def waiting_def)
qed

theorem sending_completes_witness:
  "\<exists>q' g'. sendBuffered sample_env (upd_resp (\<lambda>r. r\<lparr>p_bytesLeft := 200\<rparr>) sample_context) sample_glob = Some (q', g', ERR_OK)
    \<and> written g' = zeros 200"
  using sending_completes [of "upd_resp (\<lambda>r. r\<lparr>p_bytesLeft := 200\<rparr>) sample_context" sample_env sample_glob]
  by (auto simp: sample_context_def zero_context_def zero_response_def upd_resp_def written_def waiting_def sample_glob_def sample_env_def zeros_def)

text \<open>
  A new connection takes the first free slot or is closed. The slot is fresh: its request
  is idle, with nothing received, nothing to send, no cookie, handler or file of the one
  before; the other slots and the sessions stay. When no slot is free, or with TLS the
  address already has its share, no slot changes and the connection is closed.
\<close>

theorem accept_takes_free_slot:
  "(admitted e ip cs \<and> first_free cs i \<longrightarrow>
      (\<exists>q g'. OnHttpAccept e (Some pcb) ERR_OK ip rport lport inner (cs, g) = Some ((cs[i := q], g'), ERR_OK)
        \<and> q_pcb q = Some pcb \<and> q_ipRemote q = ip \<and> q_state q = HTTP_STATE_IDLE \<and> q_reqBufList q = [] \<and> q_handler q = None
        \<and> q_fileHandle q = None \<and> p_bytesLeft (ctxResponse q) = 0 \<and> p_token (ctxResponse q) = []
        \<and> g_httpSessions g' = g_httpSessions g \<and> Altcp_arg pcb (Some i) \<in> set (g_calls g')))
   \<and> (\<not> admitted e ip cs \<or> (\<forall>j < length cs. q_pcb (cs ! j) \<noteq> None) \<longrightarrow>
      (\<exists>g' err. OnHttpAccept e (Some pcb) ERR_OK ip rport lport inner (cs, g) = Some ((cs, g'), err)
        \<and> g_httpSessions g' = g_httpSessions g \<and> Altcp_close pcb \<in> set (g_calls g')))"
proof (intro conjI impI)
  let ?g = "calls [Altcp_setprio pcb, Altcp_nagle_disable pcb] (PrintLwipStatus g)"
  have ss: "g_httpSessions ?g = g_httpSessions g" by (simp add: calls_def PrintLwipStatus_def call_def)
  {
    assume "admitted e ip cs \<and> first_free cs i"
    then have i: "i < length cs" by (simp add: first_free_def)
    from GetHttpContext_some [of e ip cs i ?g] \<open>admitted e ip cs \<and> first_free cs i\<close> obtain q g1 where
      r: "GetHttpContext e ip (cs, ?g) = ((cs[i := q], g1), Some i)" "q_state q = HTTP_STATE_IDLE" "q_handler q = None" "q_fileHandle q = None"
        "p_bytesLeft (ctxResponse q) = 0" "p_token (ctxResponse q) = []" "q_reqBufList q = []" "g_httpSessions g1 = g_httpSessions g"
      using ss by auto
    let ?q = "q\<lparr>q_pcb := Some pcb, q_https := (if e_tls e \<and> inner then 1 else 0), q_ipRemote := ip, q_portRemote := rport, q_portLocal := lport\<rparr>"
    have "OnHttpAccept e (Some pcb) ERR_OK ip rport lport inner (cs, g) =
      Some ((cs[i := ?q], calls [Altcp_arg pcb (Some i), Altcp_callbacks pcb True, Altcp_poll pcb True] g1), ERR_OK)"
      using r(1) i by (simp add: OnHttpAccept_def Let_def)
    with r show "\<exists>q g'. OnHttpAccept e (Some pcb) ERR_OK ip rport lport inner (cs, g) = Some ((cs[i := q], g'), ERR_OK)
        \<and> q_pcb q = Some pcb \<and> q_ipRemote q = ip \<and> q_state q = HTTP_STATE_IDLE \<and> q_reqBufList q = [] \<and> q_handler q = None
        \<and> q_fileHandle q = None \<and> p_bytesLeft (ctxResponse q) = 0 \<and> p_token (ctxResponse q) = []
        \<and> g_httpSessions g' = g_httpSessions g \<and> Altcp_arg pcb (Some i) \<in> set (g_calls g')"
      by (intro exI [of _ ?q] exI [of _ "calls [Altcp_arg pcb (Some i), Altcp_callbacks pcb True, Altcp_poll pcb True] g1"]) (simp add: calls_def)
  next
    assume "\<not> admitted e ip cs \<or> (\<forall>j < length cs. q_pcb (cs ! j) \<noteq> None)"
    from GetHttpContext_none [OF this, of ?g] ss
    show "\<exists>g' err. OnHttpAccept e (Some pcb) ERR_OK ip rport lport inner (cs, g) = Some ((cs, g'), err)
        \<and> g_httpSessions g' = g_httpSessions g \<and> Altcp_close pcb \<in> set (g_calls g')"
      by (auto simp: OnHttpAccept_def Let_def call_def)
  }
qed

theorem accept_takes_free_slot_witness:
  "\<exists>q g'. OnHttpAccept sample_env (Some 9) ERR_OK 3 4 80 False ([sample_context, zero_context], sample_glob) = Some (([sample_context, q], g'), ERR_OK)
    \<and> q_pcb q = Some 9"
proof -
  have "admitted sample_env 3 [sample_context, zero_context]" by (simp add: admitted_def sample_env_def)
  moreover have "first_free [sample_context, zero_context] 1"
    by (simp add: first_free_def sample_context_def zero_context_def)
  ultimately show ?thesis
    using accept_takes_free_slot [of sample_env 3 "[sample_context, zero_context]" 1 9 4 80 False sample_glob] by auto
qed



text \<open>
  Stopping the server releases the slots but not their connections. Afterwards every slot
  is free and holds nothing, and the only calls the stack got are the close of the listening
  pcb, the freeing of queued data and the killing of the connections in their last wait: no
  connection of a slot was closed, and each keeps its slot as the argument of its callbacks,
  which the next connection will share.
\<close>

theorem stop_leaves_connections:
  assumes "HttpdStop pcbListen (cs, g) = Some (cs', g')" and "i < length cs" and "q_pcb (cs ! i) = Some pcb" and "pcb \<noteq> pcbListen"
  shows "length cs' = length cs \<and> released (cs' ! i)
    \<and> (\<exists>xs. g_calls g' = g_calls g @ xs \<and> Altcp_close pcbListen \<in> set xs
        \<and> Altcp_close pcb \<notin> set xs \<and> Altcp_arg pcb None \<notin> set xs \<and> Altcp_abort pcb \<notin> set xs)"
proof -
  from HttpdStop_released [OF assms(1)] obtain fs where "length cs' = length cs" "\<forall>i < length cs. released (cs' ! i)"
    "g_calls g' = g_calls g @ Altcp_close pcbListen # fs @ [Tcp_kill_timewait]" "pbuf_frees fs" by blast
  with assms(2,4) show ?thesis
    by (intro conjI exI [of _ "Altcp_close pcbListen # fs @ [Tcp_kill_timewait]"]) (auto simp: pbuf_frees_def)
qed

theorem stop_leaves_connections_witness:
  "\<exists>cs' g'. HttpdStop 1 ([sample_context], sample_glob) = Some (cs', g') \<and> released (cs' ! 0) \<and> Altcp_close 7 \<notin> set (g_calls g')"
proof -
  have "HttpdStop 1 ([sample_context], sample_glob) \<noteq> None"
    by (simp add: HttpdStop_def FreeHttpContext_def CGI_Finish_def sample_context_def zero_context_def Let_def bind_eq_None_conv put_def)
  then obtain cs' g' where "HttpdStop 1 ([sample_context], sample_glob) = Some (cs', g')" by auto
  with stop_leaves_connections [OF this, of 0 7] show ?thesis
    by (auto simp: sample_context_def sample_glob_def)
qed

end
