(* ===== verification/Global_State.thy ===== *)
theory Global_State
  imports Connections
begin

text \<open>
  What the events of the connections can do to the global variables: the tables of sessions
  and of open files and both configurations stay well formed, the routing table and the
  listening state stay as they are, calls into the stack are only added, and the readiness of
  the network can only be taken away.
\<close>

named_theorems confined_intros \<open>operations that are confined\<close>

definition frozen :: "glob \<Rightarrow> CGI_Mapping list \<times> bytes \<times> int \<times> nat option \<times> u64" where
  "frozen g = (g_cgiMapping g, g_byMyMAC g, g_httpsListening g, g_pcbListen443 g, g_now g)"

definition tables_ok :: "env \<Rightarrow> glob \<Rightarrow> bool" where
  "tables_ok e g \<longleftrightarrow> session_inv (g_httpSessions g) \<and> files_inv e (g_FileOpened g)
     \<and> config_wf (g_WorkConfig g) \<and> config_wf (g_TempConfig g)"

definition confined :: "env \<Rightarrow> glob \<Rightarrow> glob \<Rightarrow> bool" where
  "confined e g g' \<longleftrightarrow> frozen g' = frozen g \<and> (g_ipIsReady g' = g_ipIsReady g \<or> g_ipIsReady g' = 0)
     \<and> (\<exists>cs. g_calls g' = g_calls g @ cs) \<and> (tables_ok e g \<longrightarrow> tables_ok e g')"

lemma confined_refl [simp, confined_intros]: "confined e g g"
  by (simp add: confined_def)

lemma confined_trans: "confined e a b \<Longrightarrow> confined e b c \<Longrightarrow> confined e a c"
  unfolding confined_def by (metis append.assoc)

text \<open>
  A property of the result of a step, if it has one. The rules follow the constructs of the
  definitions, so that a proof goes through a definition as the code does.
\<close>

definition result_all :: "('a \<Rightarrow> bool) \<Rightarrow> 'a option \<Rightarrow> bool" where
  "result_all P m \<longleftrightarrow> (\<forall>x. m = Some x \<longrightarrow> P x)"

lemma result_allI: "(\<And>x. m = Some x \<Longrightarrow> P x) \<Longrightarrow> result_all P m"
  by (simp add: result_all_def)

lemma result_allD: "result_all P m \<Longrightarrow> m = Some x \<Longrightarrow> P x"
  by (simp add: result_all_def)

lemma result_Some: "P x \<Longrightarrow> result_all P (Some x)"
  by (simp add: result_all_def)

lemma result_None: "result_all P None"
  by (simp add: result_all_def)

lemma result_if: "(c \<Longrightarrow> result_all P a) \<Longrightarrow> (\<not> c \<Longrightarrow> result_all P b) \<Longrightarrow> result_all P (if c then a else b)"
  by simp

lemma result_bind: "(\<And>x. m = Some x \<Longrightarrow> result_all P (k x)) \<Longrightarrow> result_all P (m \<bind> k)"
  by (cases m) (auto simp: result_all_def)

lemma result_then: "result_all Q m \<Longrightarrow> (\<And>x. m = Some x \<Longrightarrow> Q x \<Longrightarrow> result_all P (k x)) \<Longrightarrow> result_all P (m \<bind> k)"
  by (cases m) (auto simp: result_all_def)

lemma result_prod: "(\<And>a b. x = (a, b) \<Longrightarrow> result_all P (k a b)) \<Longrightarrow> result_all P (case x of (a, b) \<Rightarrow> k a b)"
  by (cases x) simp

lemma result_option: "(x = None \<Longrightarrow> result_all P a) \<Longrightarrow> (\<And>y. x = Some y \<Longrightarrow> result_all P (b y)) \<Longrightarrow> result_all P (case x of None \<Rightarrow> a | Some y \<Rightarrow> b y)"
  by (cases x) simp_all

lemma result_let: "(\<And>x. x = v \<Longrightarrow> result_all P (k x)) \<Longrightarrow> result_all P (let x = v in k x)"
  by simp

lemmas result_intros = result_None result_let result_if result_prod result_option result_bind result_Some

abbreviation keeps :: "env \<Rightarrow> glob \<Rightarrow> ('a \<Rightarrow> glob) \<Rightarrow> 'a option \<Rightarrow> bool" where
  "keeps e g f \<equiv> result_all (\<lambda>x. confined e g (f x))"

text \<open>One step after the other.\<close>

lemma keeps_seq2: "keeps e g snd m \<Longrightarrow> (\<And>q1 g1. keeps e g1 f (k q1 g1)) \<Longrightarrow> keeps e g f (m \<bind> (\<lambda>(q, g). k q g))"
  by (cases m) (auto simp: result_all_def intro: confined_trans)

lemma keeps_seq3: "keeps e g (\<lambda>x. fst (snd x)) m \<Longrightarrow> (\<And>q1 g1 c. keeps e g1 f (k q1 g1 c)) \<Longrightarrow> keeps e g f (m \<bind> (\<lambda>(q, g, c). k q g c))"
  by (cases m) (auto simp: result_all_def intro: confined_trans)

lemma keeps_after: "confined e g g1 \<Longrightarrow> keeps e g1 f m \<Longrightarrow> keeps e g f m"
  by (auto simp: result_all_def intro: confined_trans)

section \<open>The elementary steps\<close>

lemma confined_calls [confined_intros]: "confined e g (calls cs g)" "confined e g (call c g)"
  by (auto simp: confined_def frozen_def tables_ok_def calls_def call_def)

lemma confined_call_after: "confined e g h \<Longrightarrow> confined e g (call c h)" "confined e g h \<Longrightarrow> confined e g (calls cs h)"
  by (blast intro: confined_trans confined_calls)+

lemma confined_files: "(files_inv e (g_FileOpened g) \<Longrightarrow> files_inv e fs) \<Longrightarrow> confined e g (set_files fs g)"
  by (auto simp: confined_def frozen_def tables_ok_def set_files_def)

lemma confined_sessions: "(session_inv (g_httpSessions g) \<Longrightarrow> session_inv ss) \<Longrightarrow> confined e g (g\<lparr>g_httpSessions := ss\<rparr>)"
  by (auto simp: confined_def frozen_def tables_ok_def)

lemma files_inv_read: "WEB_fread e h n fs = Some (fs', bs, err) \<Longrightarrow> files_inv e fs \<Longrightarrow> files_inv e fs'"
  by (auto simp: WEB_fread_def Let_def bind_eq_Some_conv intro!: files_inv_same_ref split: option.splits)

lemma files_inv_seek: "files_inv e fs \<Longrightarrow> files_inv e (fst (WEB_fseek h off fs))"
  by (auto simp: WEB_fseek_def intro!: files_inv_same_ref split: option.splits)

lemma files_inv_firstdir: "WEB_firstdir m fs = (fs', h, en) \<Longrightarrow> files_inv e fs \<Longrightarrow> files_inv e fs'"
  using files_inv_take [of e fs "Fake_File 0" fs' h] by (auto simp: WEB_firstdir_def ref_ok_def fakeFiles_def split: prod.splits)

lemma files_inv_readdir: "WEB_readdir h m fs = Some (fs', en) \<Longrightarrow> files_inv e fs \<Longrightarrow> files_inv e fs'"
  by (auto simp: WEB_readdir_def Let_def ref_ok_def not_le intro!: files_inv_update split: option.splits if_splits)

lemma files_inv_closedir: "files_inv e fs \<Longrightarrow> files_inv e (WEB_closedir h fs)"
  by (auto simp: WEB_closedir_def zero_handle_def intro: files_inv_update split: option.splits)

lemma confined_fclose [confined_intros]: "confined e g (set_files (WEB_fclose h (g_FileOpened g)) g)"
  by (rule confined_files) (rule files_inv_close)

lemma confined_closedir [confined_intros]: "confined e g (set_files (WEB_closedir h (g_FileOpened g)) g)"
  by (rule confined_files) (rule files_inv_closedir)

lemma confined_fopen [confined_intros]: "WEB_fopen e n m (g_FileOpened g) = (fs, h) \<Longrightarrow> confined e g (set_files fs g)"
  by (rule confined_files) (rule files_inv_open)

lemma confined_setter [confined_intros]: "confined e g (TAG_Setter nm v g)"
proof -
  obtain f where "TAG_Setter nm v g = edit_temp f g" using TAG_Setter_temp by blast
  then have "frozen (TAG_Setter nm v g) = frozen g" by (simp add: frozen_def edit_temp_def)
  then show ?thesis by (simp add: confined_def tables_ok_def frame_simps TAG_Setter_wf)
qed

lemma confined_load [confined_intros]: "confined e g (LoadConfig4Edit g)"
  by (simp add: confined_def frozen_def tables_ok_def LoadConfig4Edit_def)

lemma confined_apply [confined_intros]: "confined e g (AppyConfig g)"
  by (simp add: confined_def frozen_def tables_ok_def AppyConfig_def Let_def)

lemma session_inv_touch:
  "session_inv ss \<Longrightarrow> session_inv (SessionReceived t r ss)" "session_inv ss \<Longrightarrow> session_inv (SessionSent t r ss)"
proof -
  have "SessionReceived t (Some i) ss = ss" "SessionSent t (Some i) ss = ss" if "\<not> i < length ss" for i
    using that by (simp_all add: SessionReceived_def SessionSent_def list_update_beyond)
  then show "session_inv ss \<Longrightarrow> session_inv (SessionReceived t r ss)" "session_inv ss \<Longrightarrow> session_inv (SessionSent t r ss)"
    using session_inv_received session_inv_sent
    by (cases r; metis option.inject option.discI)+
qed

section \<open>The handlers\<close>

text \<open>A form does nothing but set tags.\<close>

lemma extract_loop_step:
  assumes "extract_loop a p ne n g = Some r"
  shows "snd (snd (snd r)) = g \<or> (\<exists>a1 k ne1 nm vl. int p < n \<and> extract_loop a1 (p + k + 1) ne1 n (TAG_Setter nm vl g) = Some r)"
  using assms by (subst (asm) extract_loop.simps) (auto split: if_splits option.splits)

lemma extract_loop_sets: "extract_loop a p ne n g = Some r \<Longrightarrow> \<exists>ps. snd (snd (snd r)) = set_all ps g"
proof (induction "nat (n - int p)" arbitrary: a p ne g rule: less_induct)
  case less
  from extract_loop_step [OF less.prems] show ?case
  proof
    assume "snd (snd (snd r)) = g"
    then show ?thesis by (intro exI [of _ "[]"]) simp
  next
    assume "\<exists>a1 k ne1 nm vl. int p < n \<and> extract_loop a1 (p + k + 1) ne1 n (TAG_Setter nm vl g) = Some r"
    then obtain a1 k ne1 nm vl where "int p < n" and r: "extract_loop a1 (p + k + 1) ne1 n (TAG_Setter nm vl g) = Some r" by blast
    then have "nat (n - int (p + k + 1)) < nat (n - int p)" by auto
    from less.hyps [OF this r] obtain ps where "snd (snd (snd r)) = set_all ps (TAG_Setter nm vl g)" by blast
    then show ?thesis by (intro exI [of _ "(nm, vl) # ps"]) simp
  qed
qed

lemma ExtractFormData_sets:
  assumes "ExtractFormData a n r g = Some (a', g', k)"
  shows "\<exists>ps. g' = set_all ps g"
proof -
  from assms obtain a1 p ne g1 where l: "extract_loop a 0 None n g = Some (a1, p, ne, g1)"
    by (cases "extract_loop a 0 None n g") (auto simp: ExtractFormData_def)
  with assms have g': "g' = g1 \<or> (\<exists>nm vl. g' = TAG_Setter nm vl g1)"
    by (auto simp: ExtractFormData_def bind_eq_Some_conv split: if_splits option.splits)
  from extract_loop_sets [OF l] obtain ps where "g1 = set_all ps g" by auto
  with g' show ?thesis by (metis set_all_simps)
qed

lemma confined_set_all: "confined e g (set_all ps g)"
proof (induction ps arbitrary: g)
  case (Cons p ps)
  show ?case by (cases p) (simp add: confined_trans [OF confined_setter Cons.IH])
qed simp

lemma ExtractFormData_confined: "ExtractFormData a n r g = Some (a', g', k) \<Longrightarrow> confined e g g'"
  using ExtractFormData_sets confined_set_all by blast

lemma form_take_keeps: "keeps e g snd (form_take b n q g)"
  unfolding form_take_def by (intro result_intros; clarsimp; auto intro: ExtractFormData_confined)

lemma WEB_OnFormReceived_keeps: "keeps e g (\<lambda>x. fst (snd x)) (WEB_OnFormReceived b n q g)"
  unfolding WEB_OnFormReceived_def
  by (intro result_intros; clarsimp) (auto dest: result_allD [OF form_take_keeps])

lemma WEB_AllSent_keeps: "keeps e g snd (WEB_AllSent q g)"
  unfolding WEB_AllSent_def by (intro result_intros; clarsimp; auto intro: confined_intros)

lemma WEB_Finished_keeps: "keeps e g snd (WEB_Finished q g)"
  unfolding WEB_Finished_def by (intro result_intros; clarsimp; auto intro: confined_intros)

lemma confined_seek: "confined e g (set_files (fst (WEB_fseek h off (g_FileOpened g))) g)"
  by (rule confined_files) (rule files_inv_seek)

lemma WEB_AppendHeaders_keeps: "keeps e g snd (WEB_AppendHeaders e' code q g)"
  unfolding WEB_AppendHeaders_def Let_def
  apply (rule result_bind, rule result_bind, rule result_then [where Q = "\<lambda>x. confined e g (fst (snd x))"])
   apply (intro result_intros; simp add: confined_seek)
  apply (intro result_intros; simp)
  done

lemma ssi_read_files:
  "ssi_read e g m w ctx fs idx out = Some r \<Longrightarrow> files_inv e fs \<longrightarrow> files_inv e (fst (snd r))"
proof (induct rule: ssi_read.raw_induct [rotated 1, consumes 1, case_names step])
  case (step rec e g m w ctx fs idx out r)
  have rec: "result_all (\<lambda>r. files_inv e fs \<longrightarrow> files_inv e (fst (snd r))) (rec e g m w ctx fs idx out)" for ctx fs idx out
    unfolding result_all_def using step(1) by blast
  have "result_all (\<lambda>r. files_inv e fs \<longrightarrow> files_inv e (fst (snd r)))
    (if idx < w then if ssi_fp ctx = None then None else WEB_fread e (ssi_fp ctx) (min (w - idx) (int MAX_TAG_LEN - ssi_cacheOffset ctx)) fs \<bind> k
     else Some (ctx, fs, idx, out, True))"
    if "\<And>fs1 bs err. files_inv e fs \<longrightarrow> files_inv e fs1 \<Longrightarrow> result_all (\<lambda>r. files_inv e fs \<longrightarrow> files_inv e (fst (snd r))) (k (fs1, bs, err))" for k
    using that files_inv_read by (intro result_intros) (auto simp: split_paired_all)
  then show ?case
    apply (rule result_allD [OF _ step(2)])
    apply (unfold prod.case)
    apply (rule result_if, rule result_Some, simp)
    apply (intro result_bind result_prod result_if result_Some; (simp; fail)?)
    apply (rule result_allI)
    apply (drule result_allD [OF rec])
    apply simp
    done
qed

lemma WEB_ReadContent_keeps: "keeps e g (\<lambda>x. fst (snd x)) (WEB_ReadContent e q g n)"
  unfolding WEB_ReadContent_def
  by (intro result_intros; clarsimp; auto intro!: confined_files dest: files_inv_read ssi_read_files)

lemma WEB_RequestReceived_keeps: "keeps e g snd (WEB_RequestReceived e q g)"
proof -
  have main: "keeps e g snd (case fp of None \<Rightarrow> Some (q0, set_files fs g) | Some _ \<Rightarrow> do { (fs, flag, err) \<leftarrow> WEB_fread e fp 3 fs; K fs flag err })"
    if "files_inv e (g_FileOpened g) \<Longrightarrow> files_inv e fs"
      "\<And>fs flag err. (files_inv e (g_FileOpened g) \<Longrightarrow> files_inv e fs) \<Longrightarrow> keeps e g snd (K fs flag err)" for q0 fp fs K
    using that files_inv_read [of e fp 3 fs] by (intro result_intros) (auto intro: confined_files)
  show ?thesis
    unfolding WEB_RequestReceived_def
    apply (intro result_bind result_let result_prod)
    apply (rule main)
     apply (metis files_inv_open)
    apply (rule result_then [where Q = "\<lambda>x. files_inv e (g_FileOpened g) \<longrightarrow> files_inv e (snd x)"])
     apply (intro result_intros; simp add: files_inv_seek)
    apply (intro result_intros; simp add: confined_files)
    done
qed

lemma AuthCheck_keeps: "keeps e g (\<lambda>x. fst (snd x)) (AuthCheck q g)"
  unfolding AuthCheck_def
  by (intro result_intros; clarsimp) (auto intro!: confined_sessions dest: session_inv_create [OF _ sym])

lemma Auth_OnRequestReceived_keeps: "keeps e g snd (Auth_OnRequestReceived e q g)"
proof -
  have "confined e g (g\<lparr>g_httpSessions := SessionKill r (g_httpSessions g)\<rparr>)" for r
    by (rule confined_sessions) (rule session_inv_kill)
  then show ?thesis unfolding Auth_OnRequestReceived_def
    by (intro result_if WEB_RequestReceived_keeps result_Some result_then [OF AuthCheck_keeps] result_let result_prod) simp_all
qed

lemma Auth_SetResponseHeaders_keeps: "keeps e g snd (Auth_SetResponseHeaders e code q g)"
  unfolding Auth_SetResponseHeaders_def by (intro result_let result_bind WEB_AppendHeaders_keeps)

lemma Form_keeps:
  "confined e g (snd (Form_OnHeadersReceived q g))" "keeps e g snd (Form_OnRequestReceived e q g)"
  "keeps e g snd (Form_SetResponseHeaders e code q g)" "keeps e g snd (Form_AllSent q g)"
proof -
  have "confined e g g1 \<Longrightarrow> confined e g (AppyConfig g1)" for g1
    by (rule confined_trans [OF _ confined_apply])
  then show "keeps e g snd (Form_OnRequestReceived e q g)"
    unfolding Form_OnRequestReceived_def
    by (intro result_then [OF WEB_RequestReceived_keeps] result_prod result_let result_Some) auto
qed (simp_all add: Form_OnHeadersReceived_def confined_load Form_SetResponseHeaders_def Form_AllSent_def WEB_AppendHeaders_keeps WEB_AllSent_keeps)

lemma files_item_files: "result_all (\<lambda>x. files_inv e fs \<longrightarrow> files_inv e (fst (snd x))) (files_item st ctx fs)"
  unfolding files_item_def
  by (intro result_intros; clarsimp) (auto dest: files_inv_firstdir files_inv_readdir intro: files_inv_closedir split: option.splits)

lemma files_loop_files:
  "files_loop m path st w ctx fs out = Some r \<Longrightarrow> files_inv e fs \<longrightarrow> files_inv e (fst (snd (snd (snd r))))"
proof (induct rule: files_loop.raw_induct [rotated 1, consumes 1, case_names step])
  case (step rec m path st w ctx fs out r)
  have rec: "result_all (\<lambda>r. files_inv e fs \<longrightarrow> files_inv e (fst (snd (snd (snd r))))) (rec m path st w ctx fs out)" for st w ctx fs out
    unfolding result_all_def using step(1) by blast
  have rec': "result_all (\<lambda>r. files_inv e fs \<longrightarrow> files_inv e (fst (snd (snd (snd r))))) (rec m path st w ctx fs1 out)"
    if "files_inv e fs \<longrightarrow> files_inv e fs1" for st w ctx fs1 out
    using rec [of fs1] that by (auto simp: result_all_def)
  show ?case
    apply (rule result_allD [OF _ step(2)])
    apply (intro result_if result_then [OF files_item_files] result_prod result_Some)
     apply (auto intro!: result_Some result_if rec' split: sum.splits)
    done
qed

lemma Files_OnRequestReceived_keeps: "keeps e g snd (Files_OnRequestReceived q g)"
  unfolding Files_OnRequestReceived_def
  by (intro result_intros; clarsimp) (auto intro!: confined_files files_inv_closedir dest: files_inv_firstdir [OF sym])

lemma Files_ReadOneFileInfo_keeps: "keeps e g (\<lambda>x. fst (snd x)) (Files_ReadOneFileInfo q g n)"
  unfolding Files_ReadOneFileInfo_def
  by (intro result_intros; clarsimp; auto intro!: confined_files files_inv_closedir dest: files_loop_files)

lemma Upload_keeps:
  "keeps e g snd (Upload_OnHeadersReceived e q g)" "keeps e g (\<lambda>x. fst (snd x)) (Upload_OnContentReceived b n q g)"
  "confined e g (snd (Upload_AllReceived q g))"
proof -
  have start: "keeps e g (\<lambda>x. fst (snd x)) (Upload_Start e q g)"
    unfolding Upload_Start_def by (intro result_intros; clarsimp) (auto intro: confined_fopen [OF sym])
  show "keeps e g snd (Upload_OnHeadersReceived e q g)"
    unfolding Upload_OnHeadersReceived_def
    by (intro result_intros result_then [OF start]; clarsimp)
  show "keeps e g (\<lambda>x. fst (snd x)) (Upload_OnContentReceived b n q g)"
    unfolding Upload_OnContentReceived_def by (intro result_intros; clarsimp)
qed (simp add: Upload_AllReceived_def confined_fclose)

lemma SSDP_Sending_keeps: "keeps e g (\<lambda>x. fst (snd x)) (SSDP_Sending q g n)"
  unfolding SSDP_Sending_def by (intro result_intros; clarsimp)

section \<open>The request procedure\<close>

lemma result_map_option: "(\<And>x. m = Some x \<Longrightarrow> P (f x)) \<Longrightarrow> result_all P (map_option f m)"
  by (cases m) (auto simp: result_all_def)

lemma handlers_keep:
  "keeps e g snd (handler_OnHeadersReceived e h q g)" "keeps e g (\<lambda>x. fst (snd x)) (handler_OnContentReceived h b n q g)"
  "keeps e g snd (handler_OnRequestReceived e h q g)" "keeps e g snd (handler_SetResponseHeaders e h code q g)"
  "keeps e g snd (handler_OnAllSent h q g)" "keeps e g snd (handler_OnFinished h q g)"
  using Upload_keeps Form_keeps
  by (cases h; auto intro!: result_Some result_map_option Auth_OnRequestReceived_keeps WEB_RequestReceived_keeps WEB_OnFormReceived_keeps
      Files_OnRequestReceived_keeps Auth_SetResponseHeaders_keeps WEB_AppendHeaders_keeps WEB_AllSent_keeps WEB_Finished_keeps)+

lemma handler_ReadContent_keeps:
  "handler_ReadContent e h = Some read \<Longrightarrow> keeps e g (\<lambda>x. fst (snd x)) (read q g n)"
  by (cases h) (auto simp: SSDP_Sending_keeps WEB_ReadContent_keeps Files_ReadOneFileInfo_keeps)

lemma CGI_keeps:
  "keeps e g snd (CGI_Finish q g)" "keeps e g snd (CGI_HeadersReceived e q g)"
  "keeps e g (\<lambda>x. fst (snd x)) (CGI_ContentReceived b n q g)" "keeps e g snd (CGI_RequestReceived e q g)"
  unfolding CGI_Finish_def CGI_HeadersReceived_def CGI_ContentReceived_def CGI_RequestReceived_def
  by (intro result_option result_if handlers_keep result_Some; simp)+

lemma CGI_SetResponseHeaders_keeps: "keeps e g snd (CGI_SetResponseHeaders e code q g)"
  unfolding CGI_SetResponseHeaders_def
  apply (rule result_bind, rule result_bind, rule result_let, rule result_then [where Q = "\<lambda>x. confined e g (snd x)"])
   apply (intro result_option handlers_keep result_Some; simp)
  apply (intro result_intros; simp)
  done

lemma CGI_LoadContentToSend_keeps: "keeps e g (\<lambda>x. fst (snd x)) (CGI_LoadContentToSend e caller q g)"
proof -
  have read: "keeps e g (\<lambda>x. fst (snd x)) (read q g n)" if "Option.bind (q_handler q) (handler_ReadContent e) = Some read" for read n
    using that handler_ReadContent_keeps by (auto simp: bind_eq_Some_conv)
  show ?thesis
    unfolding CGI_LoadContentToSend_def
    apply (rule result_let, rule result_if, rule result_option, rule result_None, rule result_then [OF handlers_keep(5)])
     apply (intro result_intros; simp)
    apply (rule result_option, rule result_Some, simp)
    apply (intro result_let result_if result_Some, simp)
     apply (rule result_then [OF read], assumption, intro result_intros; simp)
    apply (rule result_then [OF read], assumption, intro result_intros; simp)
    done
qed

lemma free_head_confined: "free_head ps off pcb g = Some (ps', off', g') \<Longrightarrow> confined e g g'"
proof (induction ps off pcb g rule: free_head.induct)
  case (2 p ps off pcb g)
  then show ?case by (auto split: if_splits intro: confined_trans [OF confined_calls(1)])
qed simp

lemma dequeue_keeps: "keeps e g snd (dequeue q g)"
  unfolding dequeue_def release_def
  by (intro result_intros; clarsimp; auto intro: confined_calls free_head_confined)

lemma after_header_keeps: "keeps e g snd (after_header e q g)"
  unfolding after_header_def by (intro result_let CGI_keeps)

lemma receive_body_keeps: "keeps e g (\<lambda>x. fst (snd x)) (receive_body q g n)"
  unfolding receive_body_def
  by (intro result_if result_then [OF CGI_keeps(3)] result_prod result_Some result_bind) simp_all

lemma finish_turn_keeps: "keeps e g (\<lambda>x. fst (snd x)) (finish_turn e q g n)"
  unfolding finish_turn_def
  by (intro result_bind keeps_seq3 keeps_seq2 receive_body_keeps result_prod result_option result_if CGI_keeps result_Some; simp)

lemma request_turn_keeps: "keeps e g (\<lambda>x. fst (snd x)) (request_turn e q g)"
  unfolding request_turn_def
  by (intro keeps_seq2 dequeue_keeps result_if result_Some result_let result_bind result_prod after_header_keeps finish_turn_keeps; simp)

lemma request_loop_confined: "request_loop n e q g = Done (q', g', r) \<Longrightarrow> confined e g g'"
proof (induction n e q g rule: request_loop.induct)
  case (2 n e q g)
  show ?case
  proof (cases "request_turn e q g")
    case None
    with 2 show ?thesis by (simp split: if_splits)
  next
    case (Some t)
    obtain q1 g1 v where "t = (q1, g1, v)" by (cases t)
    with Some have t: "request_turn e q g = Some (q1, g1, v)" by simp
    from result_allD [OF request_turn_keeps t] have c: "confined e g g1" by simp
    from 2 t show ?thesis by (cases v) (auto intro: confined_trans [OF c] c split: if_splits)
  qed
qed simp

lemma send_block_keeps: "keeps e g (\<lambda>x. fst (snd x)) (send_block e' pcb q g n)"
  unfolding send_block_def by (intro result_intros; clarsimp; rule confined_calls)

lemma send_loop_keeps: "keeps e g (\<lambda>x. fst (snd x)) (send_loop e' pcb q g)"
proof (induction e' pcb q g rule: send_loop.induct)
  case (1 e' pcb q g)
  show ?case
    apply (subst send_loop.simps)
    apply (intro result_let result_if result_option result_None result_prod result_Some)
      apply (rule keeps_after [OF result_allD [OF send_block_keeps]], assumption)
      apply (simp add: "1.IH")
     apply (drule result_allD [OF send_block_keeps [of e]], simp)
    apply simp
    done
qed

lemma sendBuffered_keeps: "keeps e g (\<lambda>x. fst (snd x)) (sendBuffered e' q g)"
  unfolding sendBuffered_def by (intro result_if result_bind send_loop_keeps result_Some) simp

lemma HttpResponseProc_keeps: "keeps e g snd (HttpResponseProc e caller q g)"
proof -
  have headers: "keeps e g (\<lambda>x. fst (snd x)) (send_headers e q g)" for q g
    unfolding send_headers_def
    by (intro result_let keeps_seq2 CGI_SetResponseHeaders_keeps keeps_seq3 sendBuffered_keeps result_Some) simp
  have body: "keeps e g snd (send_body e caller q g)" for q g
    unfolding send_body_def
    by (intro result_if keeps_seq3 CGI_LoadContentToSend_keeps sendBuffered_keeps result_Some; simp)
  show ?thesis
    unfolding HttpResponseProc_def
    by (intro result_if result_Some result_bind keeps_seq3 sendBuffered_keeps headers body; simp)
qed

lemma confined_release: "confined e g (close_file q (free_chain q g))"
  by (auto simp: free_chain_def close_file_def intro: confined_trans [OF confined_calls(2) confined_fclose] confined_fclose)

lemma FreeHttpContext_keeps: "keeps e g snd (FreeHttpContext q g)"
  unfolding FreeHttpContext_def
  by (intro keeps_seq2 CGI_keeps result_let result_Some; simp add: confined_release)

lemma CloseHttpContext_keeps: "keeps e g snd (CloseHttpContext e q g)"
proof -
  have calls: "confined e g (call c (call d (calls cs g)))" "confined e g (call d (calls cs g))" for c d cs g
    by (blast intro: confined_trans confined_calls)+
  have finish: "keeps e g snd (do { (q, g) \<leftarrow> FreeHttpContext q g; Some (q, PrintLwipStatus g) })" for q g
    by (intro keeps_seq2 FreeHttpContext_keeps result_Some) (simp add: PrintLwipStatus_def confined_calls)
  show ?thesis
    unfolding CloseHttpContext_def Let_def
    by (auto intro!: keeps_after [OF _ finish] calls split: option.split)
qed

lemma end_request_keeps: "keeps e g snd (end_request e q g)"
  unfolding end_request_def
  by (intro result_if CloseHttpContext_keeps result_Some) (simp_all add: ResetHttpContext_def close_file_def confined_fclose)

lemma HttpRequestProc_keeps: "keeps e g snd (HttpRequestProc e caller q g)"
proof (cases "request_loop (loop_fuel q) e q g")
  case (Done r)
  obtain q1 g1 ret where r: "r = (q1, g1, ret)" by (cases r)
  from Done r have c: "confined e g g1" using request_loop_confined by blast
  show ?thesis
    unfolding HttpRequestProc_def Done r run.case prod.case
    by (rule keeps_after [OF c], intro result_if result_Some keeps_seq2 HttpResponseProc_keeps end_request_keeps; simp)
qed (simp_all add: HttpRequestProc_def result_None)

section \<open>Events\<close>

lemma after_receive_keeps: "keeps e g snd (after_receive e q g)"
  unfolding after_receive_def
  by (intro result_let result_if CloseHttpContext_keeps result_Some) (simp add: confined_sessions session_inv_touch)

lemma after_event_keeps: "keeps e g snd (after_event e q g)"
  unfolding after_event_def by (intro result_let result_if CloseHttpContext_keeps result_Some) simp

lemma receive_pbuf_keeps: "keeps e g snd (receive_pbuf pcb p q g)"
  unfolding receive_pbuf_def by (intro result_intros; simp add: confined_calls)

lemma retry_close_confined: "confined e g (fst (retry_close e pcb g))"
  by (auto simp: retry_close_def Let_def PrintLwipStatus_def intro!: confined_call_after)

text \<open>Every callback keeps the number of slots and is confined.\<close>

definition confined_event :: "env \<Rightarrow> server \<Rightarrow> server \<Rightarrow> bool" where
  "confined_event e s s' \<longleftrightarrow> length (fst s') = length (fst s) \<and> confined e (snd s) (snd s')"

lemma confined_put: "confined e g (snd r) \<Longrightarrow> confined_event e (cs, g) (put i cs r)"
  by (cases r) (simp add: confined_event_def)

lemma ResetHttpContext_confined: "ResetHttpContext q g = (q', g') \<Longrightarrow> confined e g g'"
  by (auto simp: ResetHttpContext_def close_file_def confined_fclose)

lemma free_chain_confined: "confined e g (free_chain q g)"
  by (simp add: free_chain_def confined_calls)

lemma GetHttpContext_confined: "GetHttpContext e ip (cs, g) = ((cs', g'), r) \<Longrightarrow> length cs' = length cs \<and> confined e g g'"
  by (auto simp: GetHttpContext_def Let_def split: if_splits option.splits prod.splits
      dest!: ResetHttpContext_confined [of _ _ _ _ e] intro: confined_trans [OF free_chain_confined])

lemma confined_print: "confined e g (PrintLwipStatus g)"
  by (simp add: PrintLwipStatus_def confined_calls)

lemma OnHttpAccept_confined: "result_all (\<lambda>r. confined_event e (cs, g) (fst r)) (OnHttpAccept e p err ip rp lp inner (cs, g))"
proof (cases p)
  case (Some pcb)
  let ?g = "calls [Altcp_setprio pcb, Altcp_nagle_disable pcb] (PrintLwipStatus g)"
  obtain cs1 g1 r where G: "GetHttpContext e ip (cs, ?g) = ((cs1, g1), r)" by (metis surj_pair)
  have "confined e g ?g" by (simp add: confined_print confined_call_after)
  with GetHttpContext_confined [OF G] have c: "length cs1 = length cs" "confined e g g1" by (blast intro: confined_trans)+
  from c(1) show ?thesis
    by (auto simp: OnHttpAccept_def Some G Let_def result_all_def confined_event_def confined_print
        intro!: confined_call_after c(2) split: option.splits)
qed (simp add: OnHttpAccept_def result_None)

text \<open>The callbacks on a slot: one confined step after the other, and the slot is written back.\<close>

lemma event_seq:
  assumes "keeps e g snd m" and "\<And>q1 g1. result_all (\<lambda>r. confined_event e (cs, g1) (fst r)) (k q1 g1)"
  shows "result_all (\<lambda>r. confined_event e (cs, g) (fst r)) (m \<bind> (\<lambda>(q, g). k q g))"
proof (rule result_allI)
  fix x
  assume "m \<bind> (\<lambda>(q, g). k q g) = Some x"
  then obtain q1 g1 where "m = Some (q1, g1)" "k q1 g1 = Some x" by (auto simp: bind_eq_Some_conv)
  with result_allD [OF assms(1)] result_allD [OF assms(2)] have "confined e g g1" "confined_event e (cs, g1) (fst x)" by fastforce+
  then show "confined_event e (cs, g) (fst x)" by (auto simp: confined_event_def intro: confined_trans)
qed

lemma event_put: "result_all (\<lambda>r. confined_event e (cs, g) (fst r)) (Some (put i cs (q, g), err))"
  by (simp add: result_all_def confined_event_def)

lemma event_close: "keeps e g snd m \<Longrightarrow> result_all (\<lambda>r. confined_event e (cs, g) (fst r)) (map_option (\<lambda>r. (put i cs r, err)) m)"
  by (cases m) (auto simp: result_all_def intro: confined_put)

lemma event_after:
  "confined e g g1 \<Longrightarrow> result_all (\<lambda>r. confined_event e (cs, g1) (fst r)) m \<Longrightarrow> result_all (\<lambda>r. confined_event e (cs, g) (fst r)) m"
  by (auto simp: result_all_def confined_event_def intro: confined_trans)

lemma event_retry: "result_all (\<lambda>r. confined_event e (cs, g) (fst r)) (case retry_close e pcb g of (g, err) \<Rightarrow> Some ((cs, g), err))"
  using retry_close_confined [of e g pcb] by (auto simp: result_all_def confined_event_def split: prod.split)

lemma OnHttpReceive_confined: "result_all (\<lambda>r. confined_event e (cs, g) (fst r)) (OnHttpReceive e arg pcb p (cs, g))"
proof -
  have receive: "keeps e g snd (case p of None \<Rightarrow> Some (q, g) | Some p \<Rightarrow> receive_pbuf pcb p q g)" for q g
    by (intro result_option result_Some receive_pbuf_keeps) simp
  have drop: "confined_event e (cs, g) (cs, case p of None \<Rightarrow> g | Some p \<Rightarrow> calls (xs p) g)" for xs
    by (simp add: confined_event_def confined_calls split: option.split)
  show ?thesis
    unfolding OnHttpReceive_def prod.case
    by (intro result_option result_let result_if event_close CloseHttpContext_keeps event_seq receive HttpRequestProc_keeps
        after_receive_keeps event_put; simp add: drop result_Some)
qed

lemma OnHttpPoll_confined: "result_all (\<lambda>r. confined_event e (cs, g) (fst r)) (OnHttpPoll e arg pcb (cs, g))"
  unfolding OnHttpPoll_def prod.case
  by (intro result_option event_retry result_let result_if event_close CloseHttpContext_keeps event_seq HttpRequestProc_keeps
      after_event_keeps event_put)

lemma OnHttpSent_confined: "result_all (\<lambda>r. confined_event e (cs, g) (fst r)) (OnHttpSent e arg pcb n (cs, g))"
proof -
  have sent: "confined e g (if b then g\<lparr>g_httpSessions := SessionSent t r (g_httpSessions g)\<rparr> else g)" for b t r
    by (simp add: confined_sessions session_inv_touch)
  show ?thesis
  proof (cases arg)
    case (Some i)
    show ?thesis
      unfolding OnHttpSent_def prod.case Some option.case Let_def
      by (rule event_after [OF sent [of "q_checkAlive (cs ! i) = 0" "g_now g" "q_session (cs ! i)"]])
        (intro event_seq HttpRequestProc_keeps after_event_keeps event_put)
  qed (simp add: OnHttpSent_def event_retry)
qed

lemma OnHttpError_confined: "result_all (confined_event e (cs, g)) (OnHttpError arg (cs, g))"
  unfolding OnHttpError_def prod.case
  by (intro result_option result_Some result_then [OF FreeHttpContext_keeps [of e]] result_prod)
    (simp_all add: confined_event_def PrintLwipStatus_def confined_call_after confined_calls)

text \<open>What the stack can do to the server: one of its callbacks, with any arguments.\<close>

inductive http_event :: "env \<Rightarrow> server \<Rightarrow> server \<Rightarrow> bool" for e where
  event_accept: "OnHttpAccept e p err ip rp lp inner s = Some (s', r) \<Longrightarrow> http_event e s s'"
| event_receive: "OnHttpReceive e arg pcb p s = Some (s', r) \<Longrightarrow> http_event e s s'"
| event_poll: "OnHttpPoll e arg pcb s = Some (s', r) \<Longrightarrow> http_event e s s'"
| event_sent: "OnHttpSent e arg pcb n s = Some (s', r) \<Longrightarrow> http_event e s s'"
| event_error: "OnHttpError arg s = Some s' \<Longrightarrow> http_event e s s'"

lemmas callbacks_confined =
  OnHttpAccept_confined OnHttpReceive_confined OnHttpPoll_confined OnHttpSent_confined OnHttpError_confined

lemma http_event_ok: "http_event e s s' \<Longrightarrow> confined_event e s s'"
  by (cases s) (auto elim!: http_event.cases dest: callbacks_confined [THEN result_allD])

section \<open>Servers that can be reached\<close>

text \<open>
  From the state that \<^verbatim>\<open>main\<close> sets up, the callbacks of the stack in any order, the sweep of
  the sessions, and the passing of time.
\<close>

inductive server_reach :: "env \<Rightarrow> server \<Rightarrow> bool" for e where
  reach_setup: "g_cgiMapping g = [] \<Longrightarrow> InitDevInfo sn g = Some g' \<Longrightarrow> g_FileOpened g' = fst (WEB_fs_init e) \<Longrightarrow> server_reach e (SetupHttpContext g')"
| reach_event: "server_reach e s \<Longrightarrow> http_event e s s' \<Longrightarrow> server_reach e s'"
| reach_sweep: "server_reach e (cs, g) \<Longrightarrow> server_reach e (cs, g\<lparr>g_httpSessions := SessionCheck (g_now g) (GetSessionTimeout g) (g_httpSessions g)\<rparr>)"
| reach_time: "server_reach e (cs, g) \<Longrightarrow> server_reach e (cs, g\<lparr>g_now := t\<rparr>)"

definition server_inv :: "env \<Rightarrow> server \<Rightarrow> bool" where
  "server_inv e s \<longleftrightarrow> length (fst s) = MAX_CONNECTIONS \<and> tables_ok e (snd s) \<and> g_cgiMapping (snd s) = CGI_SetupMapping []"

lemma server_inv_event: "server_inv e s \<Longrightarrow> confined_event e s s' \<Longrightarrow> server_inv e s'"
  by (auto simp: server_inv_def confined_event_def confined_def frozen_def)

lemma server_inv_setup:
  assumes "g_cgiMapping g = []" and "InitDevInfo sn g = Some g'" and "g_FileOpened g' = fst (WEB_fs_init e)"
  shows "server_inv e (SetupHttpContext g')"
proof -
  have "files_inv e (fst (WEB_fs_init e))" by (rule files_reach_inv, rule reach_init) (rule surjective_pairing)
  with assms session_inv_setup show ?thesis
    by (auto simp: server_inv_def SetupHttpContext_def tables_ok_def InitDevInfo_def config_wf_def zero_config_def bind_eq_Some_conv Let_def
        split: if_splits)
qed

section \<open>Properties\<close>

text \<open>
  C6: Whatever the clients send and however the stack behaves, the tables of the server stay
  sound. In every state that can be reached from the start by the callbacks of the stack, in
  any order and with any arguments, by the sweep of the sessions and the passing of time,
  there are MAX_CONNECTIONS slots, the session table has five slots and well-formed cookies,
  every open file refers to an existing entry, both configurations are well formed, and the
  routing table is the one set up at the start.
\<close>

theorem server_invariant:
  assumes "server_reach e s"
  shows "length (fst s) = MAX_CONNECTIONS \<and> session_inv (g_httpSessions (snd s)) \<and> files_inv e (g_FileOpened (snd s))
    \<and> config_wf (g_WorkConfig (snd s)) \<and> config_wf (g_TempConfig (snd s)) \<and> g_cgiMapping (snd s) = CGI_SetupMapping []"
proof -
  from assms have "server_inv e s"
  proof (induction rule: server_reach.induct)
    case (reach_setup g sn g')
    then show ?case by (rule server_inv_setup)
  next
    case (reach_event s s')
    then show ?case using server_inv_event http_event_ok by blast
  qed (auto simp: server_inv_def tables_ok_def session_inv_check)
  then show ?thesis by (simp add: server_inv_def tables_ok_def)
qed

theorem server_invariant_witness:
  "\<exists>s. server_reach sample_env s \<and> length (fst s) = MAX_CONNECTIONS \<and> session_inv (g_httpSessions (snd s))"
proof -
  obtain g' where init: "InitDevInfo ''ABC'' sample_glob = Some g'" "g_FileOpened g' = g_FileOpened sample_glob"
    by (auto simp: InitDevInfo_def blit_def in_arr_def sample_glob_def Let_def)
  have "g_FileOpened g' = fst (WEB_fs_init sample_env)"
    unfolding init(2) by (simp add: sample_glob_def WEB_fs_init_def Let_def)
  from reach_setup [OF _ init(1) this] have "server_reach sample_env (SetupHttpContext g')" by (simp add: sample_glob_def)
  with server_invariant [OF this] show ?thesis by blast
qed

text \<open>
  No event of a connection reaches beyond its purpose. Whatever callback of the stack
  runs, with whatever data, it leaves the routing table, the hardware address, the listening
  state and the number of slots as they are; it only adds calls to the stack; and it can take
  the readiness of the network away but never grant it.
\<close>

theorem http_event_confined:
  assumes "http_event e (cs, g) (cs', g')"
  shows "length cs' = length cs \<and> g_cgiMapping g' = g_cgiMapping g \<and> g_byMyMAC g' = g_byMyMAC g
    \<and> g_httpsListening g' = g_httpsListening g \<and> g_pcbListen443 g' = g_pcbListen443 g
    \<and> prefix (g_calls g) (g_calls g') \<and> g_ipIsReady g' \<in> {g_ipIsReady g, 0}"
  using http_event_ok [OF assms] by (auto simp: confined_event_def confined_def frozen_def)

theorem http_event_confined_witness:
  "\<exists>s'. http_event sample_env ([sample_context], sample_glob) s' \<and> g_ipIsReady (snd s') \<in> {1, 0}"
proof -
  have "OnHttpReceive sample_env None 7 None ([sample_context], sample_glob) = Some (([sample_context], sample_glob), ERR_OK)"
    by (simp add: OnHttpReceive_def)
  from event_receive [OF this] have ev: "http_event sample_env ([sample_context], sample_glob) ([sample_context], sample_glob)" .
  from http_event_confined [OF this] ev show ?thesis by (intro exI [of _ "([sample_context], sample_glob)"]) (simp add: sample_glob_def)
qed

end
