(* ===== verification/Application.thy ===== *)
theory Application
  imports Ssdp Global_State
begin

text \<open>
  \<^verbatim>\<open>app/main.c\<close> and \<^verbatim>\<open>lwip-port/lpc407x/lwip_api.c\<close>: the main loop that starts the services
  when the network is ready and stops them when it is not, the interface it polls, and the end
  of \<^verbatim>\<open>dhcp_bind\<close> in \<^verbatim>\<open>lwip/src/core/ipv4/dhcp.c\<close>, which was changed to report an address.
  The calls to the interface, to DHCP and to the NetBIOS service are recorded in order.
\<close>

section \<open>State\<close>

datatype app_call =
    Lwip_init
  | Netif_set_flags
  | Netif_add u32 u32 u32
  | Netif_set_default
  | Netif_set_link_up
  | Netif_set_up
  | Netif_set_down
  | Netif_set_link_down
  | Dhcp_start
  | Dhcp_stop
  | Netbiosns_set_name string
  | Netbiosns_init
  | Netbiosns_stop
  | Tcp_kill_all

text \<open>The addresses of the interface, and whether DHCP runs on it.\<close>

record netif =
  nif_ip :: u32
  nif_netmask :: u32
  nif_gw :: u32
  nif_dhcp :: bool

text \<open>Where \<^verbatim>\<open>main\<close> stands: in its first inner loop or in its second.\<close>

datatype main_loop = Waiting | Serving

record app =
  a_loop :: main_loop
  a_contexts :: "REQUEST_CONTEXT list"
  a_glob :: glob
  a_ssdp :: ssdp
  main_netif :: netif
  pcbLogUdp :: "nat option"
  g_pcbListen80 :: "nat option"
  g_nNetIsUp :: u32
  tLastBeaconTick :: int
  tLastPollTick :: int
  a_led :: bool
  a_calls :: "app_call list"

text \<open>
  The answers of the stack: those to the server, to the listening sockets, to the UDP
  services, and whether DHCP could be started.
\<close>

record app_env =
  ae_http :: env
  ae_listen :: listen_env
  ae_udp :: udp_env
  ae_dhcp_start :: "app_call list \<Rightarrow> int"

definition app_do :: "app_call list \<Rightarrow> app \<Rightarrow> app" where
  "app_do cs a = a\<lparr>a_calls := a_calls a @ cs\<rparr>"

definition a_ready :: "app \<Rightarrow> int" where
  "a_ready a = g_ipIsReady (a_glob a)"

text \<open>The tick counter at the time of a step.\<close>

definition at_tick :: "u64 \<Rightarrow> app \<Rightarrow> app" where
  "at_tick t a = a\<lparr>a_glob := (a_glob a)\<lparr>g_now := t\<rparr>\<rparr>"

section \<open>The network interface\<close>

definition OnDhcpFinished :: "app \<Rightarrow> app" where
  "OnDhcpFinished a =
     (let n = main_netif a;
          g = SetSubnet (nif_netmask n) (SetGateway (nif_gw n) (SetLongIP (nif_ip n) (a_glob a)))
      in app_do [Netif_set_flags] (a\<lparr>a_glob := g\<lparr>g_ipIsReady := 1\<rparr>\<rparr>))"

definition LwipLinkUp :: "app_env \<Rightarrow> app \<Rightarrow> app" where
  "LwipLinkUp e a =
     (let a = app_do [Netif_set_link_up, Netif_set_up] a;
          g = a_glob a;
          a = a\<lparr>main_netif := (main_netif a)\<lparr>nif_ip := GetMyIP g, nif_netmask := GetSubnet g, nif_gw := GetGateway g\<rparr>,
                g_nNetIsUp := 1\<rparr>
      in if IsDhcpEnabled g \<noteq> 0
         then (let ok = (ae_dhcp_start e (a_calls a) = ERR_OK);
                   a = app_do [Dhcp_start] (a\<lparr>main_netif := (main_netif a)\<lparr>nif_dhcp := ok\<rparr>\<rparr>)
               in if ok then a else OnDhcpFinished a)
         else OnDhcpFinished a)"

definition LwipInit :: "app_env \<Rightarrow> app \<Rightarrow> app" where
  "LwipInit e a =
     (let g = a_glob a;
          n = \<lparr>nif_ip = GetMyIP g, nif_netmask = GetSubnet g, nif_gw = GetGateway g, nif_dhcp = False\<rparr>
      in LwipLinkUp e (app_do [Lwip_init, Netif_set_flags, Netif_add (nif_ip n) (nif_netmask n) (nif_gw n), Netif_set_default]
           (a\<lparr>main_netif := n\<rparr>)))"

definition LwipLinkDown :: "app \<Rightarrow> app" where
  "LwipLinkDown a =
     app_do [Dhcp_stop, Netif_set_down, Netif_set_link_down]
       (a\<lparr>a_glob := (a_glob a)\<lparr>g_ipIsReady := 0\<rparr>, main_netif := (main_netif a)\<lparr>nif_dhcp := False\<rparr>\<rparr>)"

text \<open>
  The part of \<^verbatim>\<open>dhcp_bind\<close> behind its timers: the mask of the offer or that of the address
  class, the gateway of the offer or the first host of the network.
\<close>

definition dhcp_mask :: "u32 \<Rightarrow> u32 option \<Rightarrow> u32" where
  "dhcp_mask ip given =
     (case given of Some m \<Rightarrow> m
      | None \<Rightarrow> let first_octet = drop_bit 24 ip in
          if first_octet \<le> 127 then 0xFF000000 else if first_octet \<ge> 192 then 0xFFFFFF00 else 0xFFFF0000)"

definition dhcp_gateway :: "u32 \<Rightarrow> u32 \<Rightarrow> u32 \<Rightarrow> u32" where
  "dhcp_gateway ip sn_mask gw = (if gw = 0 then (ip AND sn_mask) OR 1 else gw)"

definition dhcp_bind :: "u32 \<Rightarrow> u32 option \<Rightarrow> u32 \<Rightarrow> app \<Rightarrow> app" where
  "dhcp_bind ip given gw a =
     (let sn_mask = dhcp_mask ip given
      in OnDhcpFinished (a\<lparr>main_netif := (main_netif a)\<lparr>nif_ip := ip, nif_netmask := sn_mask, nif_gw := dhcp_gateway ip sn_mask gw\<rparr>\<rparr>))"

section \<open>The log port\<close>

definition LogInit :: "app_env \<Rightarrow> nat \<Rightarrow> app \<Rightarrow> app" where
  "LogInit e port a =
     (let a = a\<lparr>pcbLogUdp := ue_new (ae_udp e) (u_calls (a_ssdp a))\<rparr>
      in case pcbLogUdp a of None \<Rightarrow> a
         | Some pcb \<Rightarrow> a\<lparr>a_ssdp := udp_do (Udp_bind pcb port) (a_ssdp a)\<rparr>)"

definition SendLog :: "app_env \<Rightarrow> nat \<Rightarrow> string \<Rightarrow> app \<Rightarrow> app" where
  "SendLog e toPort data a =
     (if pcbLogUdp a \<noteq> None \<and> ue_pbuf (ae_udp e) (u_calls (a_ssdp a))
      then a\<lparr>a_ssdp := udp_do (Udp_pbuf_free data) (udp_do (Udp_sendto (pcbLogUdp a) data 0xFFFFFFFF toPort) (a_ssdp a))\<rparr>
      else a)"

definition LogDown :: "app \<Rightarrow> app" where
  "LogDown a =
     (case pcbLogUdp a of None \<Rightarrow> a
      | Some pcb \<Rightarrow> a\<lparr>a_ssdp := udp_do (Udp_remove (Some pcb)) (a_ssdp a), pcbLogUdp := None\<rparr>)"

text \<open>Datagrams to port 12345 are taken from the stack; the header is read where the payload starts.\<close>

definition UdpFilter :: "bytes \<Rightarrow> int option" where
  "UdpFilter payload =
     (if length payload < 4 then None
      else Some (if 256 * of_char (payload ! 2) + of_char (payload ! 3) = (12345 :: nat) then 1 else 0))"

section \<open>The main loop\<close>

definition Beacon :: "int \<Rightarrow> int \<Rightarrow> app \<Rightarrow> app" where
  "Beacon tick interval a =
     (if tick - tLastBeaconTick a > interval then a\<lparr>tLastBeaconTick := tick, a_led := \<not> a_led a\<rparr> else a)"

definition clear_sessions :: "app \<Rightarrow> app" where
  "clear_sessions a = a\<lparr>a_glob := (a_glob a)\<lparr>g_httpSessions := SessionClearAll (g_httpSessions (a_glob a))\<rparr>\<rparr>"

text \<open>From power-up to the first inner loop. \<open>a\<close> holds the initial values of the statics.\<close>

definition main_start :: "app_env \<Rightarrow> bytes \<Rightarrow> app \<Rightarrow> app option" where
  "main_start e cpuSN a = do {
     g \<leftarrow> InitDevInfo cpuSN (a_glob a);
     let (cs, g) = SetupHttpContext (g\<lparr>g_FileOpened := fst (WEB_fs_init (ae_http e))\<rparr>);
     Some ((clear_sessions (LwipInit e (a\<lparr>a_contexts := cs, a_glob := g\<rparr>)))\<lparr>a_loop := Waiting\<rparr>) }"

definition wait_turn :: "app \<Rightarrow> app" where
  "wait_turn a = Beacon (uint (g_now (a_glob a))) 250 a"

definition start_services :: "app_env \<Rightarrow> app \<Rightarrow> app" where
  "start_services e a =
     (let a = LogInit e 8899 a;
          a = app_do [Netbiosns_set_name ''lwipSimu'', Netbiosns_init] a;
          a = a\<lparr>a_ssdp := ssdpInit (ae_udp e) (a_glob a) (a_ssdp a)\<rparr>;
          (g, l80) = HttpdInit (ae_http e) (ae_listen e) 0 80 (a_glob a);
          (g, l443) = HttpdInit (ae_http e) (ae_listen e) 1 443 g
      in a\<lparr>a_glob := g\<lparr>g_pcbListen443 := l443\<rparr>, g_pcbListen80 := l80, a_loop := Serving\<rparr>)"

definition serve_turn :: "app_env \<Rightarrow> app \<Rightarrow> app option" where
  "serve_turn e a =
     (let tick = uint (g_now (a_glob a)) in
      if tick - tLastPollTick a > 100
      then do {
        s \<leftarrow> ssdpCheckTimeout (ae_udp e) tick (a_glob a) (a_ssdp a);
        let g = a_glob a;
        let g = g\<lparr>g_httpSessions := SessionCheck (g_now g) (GetSessionTimeout g) (g_httpSessions g)\<rparr>;
        Some (Beacon tick 500 (a\<lparr>tLastPollTick := tick, a_ssdp := s, a_glob := g\<rparr>)) }
      else Some a)"

definition stop_listening :: "nat option \<Rightarrow> server \<Rightarrow> server option" where
  "stop_listening pcb s = (case pcb of None \<Rightarrow> Some s | Some l \<Rightarrow> HttpdStop l s)"

definition stop_services :: "app_env \<Rightarrow> app \<Rightarrow> app option" where
  "stop_services e a = do {
     s \<leftarrow> stop_listening (g_pcbListen80 a) (a_contexts a, a_glob a);
     (cs, g) \<leftarrow> stop_listening (g_pcbListen443 (snd s)) s;
     let a = a\<lparr>a_contexts := cs, a_glob := g\<rparr>;
     u \<leftarrow> ssdpDown (ae_udp e) (a_glob a) (a_ssdp a);
     let a = LogDown (app_do [Netbiosns_stop] (a\<lparr>a_ssdp := u\<rparr>));
     let a = app_do [Tcp_kill_all] (a\<lparr>a_glob := PrintLwipStatus (a_glob a)\<rparr>);
     Some ((clear_sessions a)\<lparr>a_loop := Waiting\<rparr>) }"

section \<open>Steps\<close>

text \<open>
  What the stack can deliver while the interface is polled: a callback of a connection, a
  datagram to the multicast service while its pcb exists, or a bound address while DHCP runs.
\<close>

datatype net_label = Net_http | Net_udp | Net_dhcp

inductive net_event :: "app_env \<Rightarrow> net_label \<Rightarrow> app \<Rightarrow> app \<Rightarrow> bool" for e where
  net_http: "http_event (ae_http e) (a_contexts a, a_glob a) (cs, g) \<Longrightarrow> net_event e Net_http a (a\<lparr>a_contexts := cs, a_glob := g\<rparr>)"
| net_udp: "g_ssdpPcb (a_ssdp a) \<noteq> None \<Longrightarrow> ssdp_listener (ae_udp e) p addr port (a_glob a) (a_ssdp a) = Some s
    \<Longrightarrow> net_event e Net_udp a (a\<lparr>a_ssdp := s\<rparr>)"
| net_dhcp: "nif_dhcp (main_netif a) \<Longrightarrow> net_event e Net_dhcp a (dhcp_bind ip given gw a)"

inductive poll :: "app_env \<Rightarrow> net_label list \<Rightarrow> app \<Rightarrow> app \<Rightarrow> bool" for e where
  poll_none: "poll e [] a a"
| poll_event: "net_event e l a b \<Longrightarrow> poll e ls b c \<Longrightarrow> poll e (l # ls) a c"

text \<open>One turn of the loop that \<^verbatim>\<open>main\<close> is in, or the way to the other one.\<close>

inductive app_step :: "app_env \<Rightarrow> net_label list \<Rightarrow> app \<Rightarrow> app \<Rightarrow> bool" for e where
  step_wait: "a_loop a = Waiting \<Longrightarrow> a_ready a = 0 \<Longrightarrow> poll e ls (wait_turn (at_tick t a)) b \<Longrightarrow> app_step e ls a b"
| step_start: "a_loop a = Waiting \<Longrightarrow> a_ready a \<noteq> 0 \<Longrightarrow> app_step e [] a (start_services e (at_tick t a))"
| step_serve: "a_loop a = Serving \<Longrightarrow> a_ready a > 0 \<Longrightarrow> serve_turn e (at_tick t a) = Some b \<Longrightarrow> poll e ls b c \<Longrightarrow> app_step e ls a c"
| step_stop: "a_loop a = Serving \<Longrightarrow> a_ready a \<le> 0 \<Longrightarrow> stop_services e (at_tick t a) = Some b \<Longrightarrow> app_step e [] a b"

inductive app_run :: "app_env \<Rightarrow> net_label list \<Rightarrow> app \<Rightarrow> app \<Rightarrow> bool" for e where
  run_none: "app_run e [] a a"
| run_step: "app_step e ls a b \<Longrightarrow> app_run e ms b c \<Longrightarrow> app_run e (ls @ ms) a c"

inductive_cases net_event_E: "net_event e l a b"
inductive_cases app_step_E: "app_step e ls a b"

section \<open>What the services leave behind\<close>

text \<open>Memberships of the multicast group: those joined less those left.\<close>

fun igmp_delta :: "udp_call \<Rightarrow> int" where
  "igmp_delta (Igmp_joingroup _ _) = 1"
| "igmp_delta (Igmp_leavegroup _ _) = - 1"
| "igmp_delta _ = 0"

definition memberships :: "udp_call list \<Rightarrow> int" where
  "memberships cs = sum_list (map igmp_delta cs)"

fun netbios_delta :: "app_call \<Rightarrow> int" where
  "netbios_delta Netbiosns_init = 1"
| "netbios_delta Netbiosns_stop = - 1"
| "netbios_delta _ = 0"

definition name_services :: "app_call list \<Rightarrow> int" where
  "name_services cs = sum_list (map netbios_delta cs)"

lemma memberships_simps [simp]:
  "memberships (cs @ [c]) = memberships cs + igmp_delta c"
  "memberships (u_calls (udp_do c s)) = memberships (u_calls s) + igmp_delta c"
  "name_services (cs' @ ds) = name_services cs' + name_services ds"
  "name_services [] = 0" "name_services (d # ds) = netbios_delta d + name_services ds"
  by (simp_all add: memberships_def name_services_def udp_do_def)

lemma udp_do_frame [simp]: "g_ssdpPcb (udp_do c s) = g_ssdpPcb s"
  by (simp add: udp_do_def)

text \<open>What the services of the multicast record do to its pcb and to the membership.\<close>

lemma ssdp_send_to_calls:
  "ssdp_send_to e type ip port g s = Some s' \<Longrightarrow> memberships (u_calls s') = memberships (u_calls s) \<and> g_ssdpPcb s' = g_ssdpPcb s"
  by (auto simp: ssdp_send_to_eq Let_def GetLocalhost_def split: if_splits)

lemma ssdpInit_calls: "memberships (u_calls (ssdpInit e g s)) = memberships (u_calls s) + 1"
  by (simp add: ssdpInit_def Let_def GetLocalhost_def split: option.split)

lemma ssdpDown_calls:
  "ssdpDown e g s = Some s' \<Longrightarrow> memberships (u_calls s') = memberships (u_calls s) - 1 \<and> g_ssdpPcb s' = None"
  by (auto simp: ssdpDown_def bind_eq_Some_conv Let_def GetLocalhost_def dest!: ssdp_send_to_calls)

lemma ssdpCheckTimeout_calls:
  "ssdpCheckTimeout e t g s = Some s' \<Longrightarrow> memberships (u_calls s') = memberships (u_calls s) \<and> g_ssdpPcb s' = g_ssdpPcb s"
  by (auto simp: ssdpCheckTimeout_def ssdp_advertise_def dest!: ssdp_send_to_calls split: if_splits)

lemma ssdp_listener_calls:
  "ssdp_listener e p ip port g s = Some s' \<Longrightarrow> memberships (u_calls s') = memberships (u_calls s) \<and> g_ssdpPcb s' = g_ssdpPcb s"
  by (auto simp: ssdp_listener_def Let_def bind_eq_Some_conv dest!: ssdp_send_to_calls split: if_splits option.splits)

section \<open>The invariant of the application\<close>

text \<open>
  The tables of the server are sound, readiness is a flag, and the services run exactly in the
  second loop: outside it there is no pcb of the multicast service or of the log and no
  membership of the group, and the name service was stopped as often as it was started.
\<close>

definition app_inv :: "app_env \<Rightarrow> app \<Rightarrow> bool" where
  "app_inv e a \<longleftrightarrow> server_inv (ae_http e) (a_contexts a, a_glob a) \<and> a_ready a \<in> {0, 1}
     \<and> (a_loop a = Waiting \<longrightarrow> g_ssdpPcb (a_ssdp a) = None \<and> pcbLogUdp a = None)
     \<and> memberships (u_calls (a_ssdp a)) = (if a_loop a = Serving then 1 else 0)
     \<and> name_services (a_calls a) = (if a_loop a = Serving then 1 else 0)"

lemma config_wf_addresses: "config_wf c \<Longrightarrow> config_wf (c\<lparr>dwIP := i, dwGateway := j, dwSubnet := k\<rparr>)"
  by (simp add: config_wf_def)

lemma OnDhcpFinished_tables: "server_inv e (cs, a_glob a) \<Longrightarrow> server_inv e (cs, a_glob (OnDhcpFinished a))"
  by (simp add: OnDhcpFinished_def Let_def app_do_def SetLongIP_def SetGateway_def SetSubnet_def server_inv_def tables_ok_def config_wf_addresses)

lemma OnDhcpFinished_frame:
  "a_ready (OnDhcpFinished a) = 1" "a_loop (OnDhcpFinished a) = a_loop a" "a_ssdp (OnDhcpFinished a) = a_ssdp a"
  "pcbLogUdp (OnDhcpFinished a) = pcbLogUdp a" "a_contexts (OnDhcpFinished a) = a_contexts a"
  "name_services (a_calls (OnDhcpFinished a)) = name_services (a_calls a)" "main_netif (OnDhcpFinished a) = main_netif a"
  by (simp_all add: OnDhcpFinished_def Let_def app_do_def a_ready_def)

lemma app_inv_dhcp: "app_inv e a \<Longrightarrow> app_inv e (dhcp_bind ip given gw a)"
  using OnDhcpFinished_tables [of "ae_http e" "a_contexts a"]
  by (simp add: app_inv_def dhcp_bind_def Let_def OnDhcpFinished_frame)

lemma app_inv_event: "net_event e l a b \<Longrightarrow> app_inv e a \<Longrightarrow> app_inv e b"
proof (erule net_event_E)
  fix cs g
  assume inv: "app_inv e a" and "b = a\<lparr>a_contexts := cs, a_glob := g\<rparr>"
    and "http_event (ae_http e) (a_contexts a, a_glob a) (cs, g)"
  then have "confined_event (ae_http e) (a_contexts a, a_glob a) (cs, g)" by (simp add: http_event_ok)
  with inv \<open>b = _\<close> show "app_inv e b"
    using server_inv_event [of "ae_http e" "(a_contexts a, a_glob a)" "(cs, g)"]
    by (auto simp: app_inv_def a_ready_def confined_event_def confined_def)
qed (auto simp: app_inv_dhcp, auto simp: app_inv_def a_ready_def dest!: ssdp_listener_calls)

lemma app_inv_poll: "poll e ls a b \<Longrightarrow> app_inv e a \<Longrightarrow> app_inv e b"
  by (induction rule: poll.induct) (auto intro: app_inv_event)

lemma server_inv_now [simp]: "server_inv e (cs, g\<lparr>g_now := t\<rparr>) = server_inv e (cs, g)"
  by (simp add: server_inv_def tables_ok_def)

lemma app_inv_tick [simp]: "app_inv e (at_tick t a) = app_inv e a"
  by (simp add: app_inv_def at_tick_def a_ready_def)

lemma at_tick_frame [simp]: "a_loop (at_tick t a) = a_loop a" "a_ready (at_tick t a) = a_ready a"
  by (simp_all add: at_tick_def a_ready_def)

lemma Beacon_frame [simp]:
  "a_loop (Beacon t i a) = a_loop a" "a_ready (Beacon t i a) = a_ready a" "app_inv e (Beacon t i a) = app_inv e a"
  "a_ssdp (Beacon t i a) = a_ssdp a" "pcbLogUdp (Beacon t i a) = pcbLogUdp a" "main_netif (Beacon t i a) = main_netif a"
  by (simp_all add: Beacon_def app_inv_def a_ready_def)

lemma HttpdInit_frame:
  "HttpdInit h le tls port g = (g', l) \<Longrightarrow> g_ipIsReady g' = g_ipIsReady g \<and> server_inv e (cs, g') = server_inv e (cs, g)"
  by (auto simp: HttpdInit_def Let_def calls_def call_def server_inv_def tables_ok_def split: if_splits option.splits)

text \<open>Stopping the server frees the slots, which is confined.\<close>

lemma free_contexts_confined: "free_contexts is (cs, g) = Some (cs', g') \<Longrightarrow> confined_event e (cs, g) (cs', g')"
proof (induction "is" arbitrary: cs g)
  case (Cons i ks)
  then obtain q1 g1 where free: "FreeHttpContext (cs ! i) g = Some (q1, g1)" and rest: "free_contexts ks (cs[i := q1], g1) = Some (cs', g')"
    by (auto simp: bind_eq_Some_conv put_eq)
  have "confined e g g1" using FreeHttpContext_keeps [of e g "cs ! i", THEN result_allD, OF free] by simp
  with Cons.IH [OF rest] show ?case by (auto simp: confined_event_def intro: confined_trans)
qed (simp add: confined_event_def)

lemma HttpdStop_confined: "HttpdStop l (cs, g) = Some (cs', g') \<Longrightarrow> confined_event e (cs, g) (cs', g')"
proof -
  assume "HttpdStop l (cs, g) = Some (cs', g')"
  then obtain g1 where "free_contexts [0..<length cs] (cs, call (Altcp_close l) g) = Some (cs', g1)" and g': "g' = PrintLwipStatus g1"
    by (auto simp: HttpdStop_def bind_eq_Some_conv)
  from free_contexts_confined [OF this(1)] have "confined_event e (cs, call (Altcp_close l) g) (cs', g1)" .
  then show ?thesis
    unfolding g' confined_event_def by (auto intro: confined_trans [OF confined_calls(2)] confined_trans [OF _ confined_print])
qed

lemma stop_listening_confined: "stop_listening p s = Some s' \<Longrightarrow> confined_event e s s'"
  by (cases s; cases s') (auto simp: stop_listening_def confined_event_def dest: HttpdStop_confined [of _ _ _ _ _ e] split: option.splits)

lemma confined_event_trans: "confined_event e a b \<Longrightarrow> confined_event e b c \<Longrightarrow> confined_event e a c"
  by (auto simp: confined_event_def intro: confined_trans)

section \<open>The steps of the main loop keep the invariant\<close>

lemma LogDown_frame:
  "memberships (u_calls (a_ssdp (LogDown a))) = memberships (u_calls (a_ssdp a))" "pcbLogUdp (LogDown a) = None"
  "g_ssdpPcb (a_ssdp (LogDown a)) = g_ssdpPcb (a_ssdp a)" "a_glob (LogDown a) = a_glob a" "a_contexts (LogDown a) = a_contexts a"
  "a_calls (LogDown a) = a_calls a" "main_netif (LogDown a) = main_netif a"
  by (simp_all add: LogDown_def split: option.split)

lemma LogInit_frame:
  "memberships (u_calls (a_ssdp (LogInit e p a))) = memberships (u_calls (a_ssdp a))" "a_glob (LogInit e p a) = a_glob a"
  "a_contexts (LogInit e p a) = a_contexts a" "a_calls (LogInit e p a) = a_calls a" "main_netif (LogInit e p a) = main_netif a"
  by (simp_all add: LogInit_def Let_def split: option.split)

lemma server_inv_sessions: "server_inv e (cs, g) \<Longrightarrow> session_inv ss \<Longrightarrow> server_inv e (cs, g\<lparr>g_httpSessions := ss\<rparr>)"
  by (simp add: server_inv_def tables_ok_def)

lemma server_inv_sessionsD: "server_inv e (cs, g) \<Longrightarrow> session_inv (g_httpSessions g)"
  by (simp add: server_inv_def tables_ok_def)

lemma clear_sessions_inv:
  "server_inv e (cs, a_glob a) \<Longrightarrow> server_inv e (cs, a_glob ((clear_sessions a)\<lparr>a_loop := l\<rparr>))"
  by (auto simp: clear_sessions_def intro!: server_inv_sessions session_inv_clear dest: server_inv_sessionsD)

lemma app_inv_start: "app_inv e a \<Longrightarrow> a_loop a = Waiting \<Longrightarrow> app_inv e (start_services e a)"
  by (auto simp: app_inv_def start_services_def Let_def a_ready_def app_do_def ssdpInit_calls LogInit_frame server_inv_def tables_ok_def
      dest!: HttpdInit_frame [of _ _ _ _ _ _ _ "ae_http e" "a_contexts a"] split: prod.splits)

lemma app_inv_serve: "app_inv e a \<Longrightarrow> a_loop a = Serving \<Longrightarrow> serve_turn e a = Some b \<Longrightarrow> app_inv e b \<and> a_loop b = Serving"
  by (auto simp: serve_turn_def Let_def bind_eq_Some_conv dest!: ssdpCheckTimeout_calls split: if_splits)
    (auto simp: app_inv_def a_ready_def intro!: server_inv_sessions session_inv_check dest: server_inv_sessionsD)

lemma app_inv_stop:
  assumes "app_inv e a" and "a_loop a = Serving" and "stop_services e a = Some b"
  shows "app_inv e b \<and> a_loop b = Waiting"
proof -
  from assms(3) obtain s cs g u where first: "stop_listening (g_pcbListen80 a) (a_contexts a, a_glob a) = Some s"
    and second: "stop_listening (g_pcbListen443 (snd s)) s = Some (cs, g)" and down: "ssdpDown (ae_udp e) g (a_ssdp a) = Some u"
    and b: "b = (clear_sessions (app_do [Tcp_kill_all] ((LogDown (app_do [Netbiosns_stop] (a\<lparr>a_contexts := cs, a_glob := g, a_ssdp := u\<rparr>)))
      \<lparr>a_glob := PrintLwipStatus g\<rparr>)))\<lparr>a_loop := Waiting\<rparr>"
    by (auto simp: stop_services_def bind_eq_Some_conv Let_def LogDown_frame app_do_def)
  have c: "confined_event (ae_http e) (a_contexts a, a_glob a) (cs, g)"
    using first second by (blast intro: confined_event_trans stop_listening_confined)
  with assms(1) have s: "server_inv (ae_http e) (cs, g)" "g_ipIsReady g \<in> {0, 1}"
    using server_inv_event [of "ae_http e" "(a_contexts a, a_glob a)" "(cs, g)"]
    by (auto simp: app_inv_def a_ready_def confined_event_def confined_def)
  then have "server_inv (ae_http e) (cs, PrintLwipStatus g)"
    using server_inv_event [of "ae_http e" "(cs, g)" "(cs, PrintLwipStatus g)"] confined_print by (auto simp: confined_event_def)
  then show ?thesis
    using assms(1,2) s ssdpDown_calls [OF down] unfolding b
    by (auto simp: app_inv_def a_ready_def clear_sessions_def app_do_def LogDown_frame PrintLwipStatus_def call_def
        intro!: server_inv_sessions session_inv_clear dest: server_inv_sessionsD)
qed

lemma app_inv_step: "app_step e ls a b \<Longrightarrow> app_inv e a \<Longrightarrow> app_inv e b"
proof (induction rule: app_step.induct)
  case (step_wait a ls t b)
  then show ?case by (auto simp: wait_turn_def intro: app_inv_poll)
next
  case (step_start a t)
  then show ?case by (simp add: app_inv_start)
next
  case (step_serve a t b ls c)
  then have "app_inv e b" using app_inv_serve [of e "at_tick t a" b] by simp
  with step_serve show ?case by (blast intro: app_inv_poll)
next
  case (step_stop a t b)
  then show ?case using app_inv_stop [of e "at_tick t a" b] by simp
qed

lemma app_inv_run: "app_run e ls a b \<Longrightarrow> app_inv e a \<Longrightarrow> app_inv e b"
  by (induction rule: app_run.induct) (auto intro: app_inv_step)

text \<open>The values of the statics at power-up.\<close>

definition power_on :: "app \<Rightarrow> bool" where
  "power_on a \<longleftrightarrow> g_cgiMapping (a_glob a) = [] \<and> a_ready a = 0 \<and> g_ssdpPcb (a_ssdp a) = None \<and> pcbLogUdp a = None
     \<and> u_calls (a_ssdp a) = [] \<and> a_calls a = []"

lemma LwipInit_frame:
  "server_inv e (cs, a_glob a) \<Longrightarrow> server_inv e (cs, a_glob (LwipInit w a))"
  "a_ready a = 0 \<Longrightarrow> a_ready (LwipInit w a) \<in> {0, 1}" "a_ssdp (LwipInit w a) = a_ssdp a" "pcbLogUdp (LwipInit w a) = pcbLogUdp a"
  "a_contexts (LwipInit w a) = a_contexts a" "name_services (a_calls (LwipInit w a)) = name_services (a_calls a)"
  by (auto simp: LwipInit_def LwipLinkUp_def Let_def app_do_def OnDhcpFinished_frame a_ready_def intro!: OnDhcpFinished_tables)
    (auto simp: OnDhcpFinished_def Let_def app_do_def)

lemma app_inv_main_start:
  assumes "power_on a" and "main_start e cpuSN a = Some b"
  shows "app_inv e b \<and> a_loop b = Waiting"
proof -
  from assms(2) obtain g where init: "InitDevInfo cpuSN (a_glob a) = Some g"
    and b: "b = (clear_sessions (LwipInit e (a\<lparr>a_contexts := fst (SetupHttpContext (g\<lparr>g_FileOpened := fst (WEB_fs_init (ae_http e))\<rparr>)),
        a_glob := snd (SetupHttpContext (g\<lparr>g_FileOpened := fst (WEB_fs_init (ae_http e))\<rparr>))\<rparr>)))\<lparr>a_loop := Waiting\<rparr>"
    by (auto simp: main_start_def bind_eq_Some_conv case_prod_unfold Let_def)
  let ?g = "g\<lparr>g_FileOpened := fst (WEB_fs_init (ae_http e))\<rparr>"
  have mapping: "g_cgiMapping (a_glob a) = []" "g_ipIsReady (a_glob a) = 0" using assms(1) by (simp_all add: power_on_def a_ready_def)
  with init have g: "g_ipIsReady g = 0" by (auto simp: InitDevInfo_def bind_eq_Some_conv Let_def split: if_splits)
  have "InitDevInfo cpuSN ((a_glob a)\<lparr>g_FileOpened := fst (WEB_fs_init (ae_http e))\<rparr>) = Some ?g"
    using init by (auto simp: InitDevInfo_def bind_eq_Some_conv Let_def split: if_splits)
  with mapping(1) have "server_inv (ae_http e) (SetupHttpContext ?g)" by (intro server_inv_setup) simp_all
  then have "server_inv (ae_http e) (fst (SetupHttpContext ?g), snd (SetupHttpContext ?g))" by simp
  moreover let ?a1 = "a\<lparr>a_contexts := fst (SetupHttpContext ?g), a_glob := snd (SetupHttpContext ?g)\<rparr>"
  have "a_ready ?a1 = 0" using g by (simp add: a_ready_def SetupHttpContext_def)
  then have "a_ready (LwipInit e ?a1) \<in> {0, 1}" by (rule LwipInit_frame(2))
  then have r: "a_ready b \<in> {0, 1}" unfolding b by (simp add: clear_sessions_def a_ready_def)
  ultimately have s: "server_inv (ae_http e) (a_contexts b, a_glob b)"
    unfolding b by (intro clear_sessions_inv) (simp add: LwipInit_frame(1,5) clear_sessions_def)
  have "a_loop b = Waiting" "a_ssdp b = a_ssdp a" "pcbLogUdp b = pcbLogUdp a" "name_services (a_calls b) = name_services (a_calls a)"
    unfolding b by (simp_all add: clear_sessions_def LwipInit_frame(3,4,6))
  with r s assms(1) show ?thesis by (simp add: app_inv_def power_on_def memberships_def)
qed

section \<open>Without a lease\<close>

text \<open>What changes nothing but the connections, and may take readiness away.\<close>

definition no_lease :: "app \<Rightarrow> app \<Rightarrow> bool" where
  "no_lease a b \<longleftrightarrow> a_loop b = a_loop a \<and> a_ready b \<in> {a_ready a, 0} \<and> a_calls b = a_calls a
     \<and> nif_dhcp (main_netif b) = nif_dhcp (main_netif a)"

lemma poll_no_lease:
  "poll e ls a b \<Longrightarrow> Net_dhcp \<notin> set ls \<or> \<not> nif_dhcp (main_netif a) \<Longrightarrow> no_lease a b"
proof (induction rule: poll.induct)
  case (poll_event l a b ls c)
  then have "no_lease a b"
    by (auto simp: no_lease_def a_ready_def confined_event_def confined_def elim!: net_event_E dest!: http_event_ok)
  with poll_event show ?case by (auto simp: no_lease_def)
qed (simp add: no_lease_def)

lemma Beacon_calls [simp]: "a_calls (Beacon t i a) = a_calls a"
  by (simp add: Beacon_def)

lemma waiting_step:
  assumes "app_step e ls a b" and "a_loop a = Waiting" and "a_ready a = 0" and "Net_dhcp \<notin> set ls \<or> \<not> nif_dhcp (main_netif a)"
  shows "a_loop b = Waiting \<and> a_ready b = 0 \<and> a_calls b = a_calls a \<and> nif_dhcp (main_netif b) = nif_dhcp (main_netif a)"
  using assms(1)
proof cases
  case (step_wait t)
  have "main_netif (at_tick t a) = main_netif a" "a_calls (at_tick t a) = a_calls a" by (simp_all add: at_tick_def)
  with poll_no_lease [OF step_wait(3)] assms(2-) show ?thesis by (auto simp: no_lease_def wait_turn_def)
qed (use assms in auto)

lemma waiting_run:
  "app_run e ls a b \<Longrightarrow> a_loop a = Waiting \<Longrightarrow> a_ready a = 0 \<Longrightarrow> Net_dhcp \<notin> set ls \<or> \<not> nif_dhcp (main_netif a)
    \<Longrightarrow> a_loop b = Waiting \<and> a_ready b = 0 \<and> a_calls b = a_calls a"
proof (induction rule: app_run.induct)
  case (run_step ls a b ms c)
  then have "a_loop b = Waiting \<and> a_ready b = 0 \<and> a_calls b = a_calls a \<and> nif_dhcp (main_netif b) = nif_dhcp (main_netif a)"
    by (intro waiting_step [OF run_step(1)]) auto
  with run_step show ?case by auto
qed simp

lemma stop_services_shape:
  assumes "stop_services e a = Some b" and "a_ready a = 0"
  shows "a_loop b = Waiting \<and> a_ready b = 0 \<and> a_calls b = a_calls a @ [Netbiosns_stop, Tcp_kill_all]
    \<and> nif_dhcp (main_netif b) = nif_dhcp (main_netif a)"
proof -
  from assms(1) obtain s cs g u where first: "stop_listening (g_pcbListen80 a) (a_contexts a, a_glob a) = Some s"
    and second: "stop_listening (g_pcbListen443 (snd s)) s = Some (cs, g)"
    and b: "b = (clear_sessions (app_do [Tcp_kill_all] ((LogDown (app_do [Netbiosns_stop] (a\<lparr>a_contexts := cs, a_glob := g, a_ssdp := u\<rparr>)))
      \<lparr>a_glob := PrintLwipStatus g\<rparr>)))\<lparr>a_loop := Waiting\<rparr>"
    by (auto simp: stop_services_def bind_eq_Some_conv Let_def LogDown_frame app_do_def)
  have "confined_event undefined (a_contexts a, a_glob a) (cs, g)"
    using first second by (blast intro: confined_event_trans stop_listening_confined)
  with assms(2) show ?thesis
    unfolding b by (auto simp: clear_sessions_def app_do_def LogDown_frame a_ready_def PrintLwipStatus_def call_def confined_event_def confined_def)
qed

text \<open>What a start leaves in the calls.\<close>

lemma HttpdInit_port:
  assumes "le_new le False = (\<lambda>_. Some p)" and "le_listen le p = (\<lambda>_. Some l)"
  shows "HttpdInit h le 0 port g = (calls [Altcp_setprio p, Altcp_bind p port, Altcp_listen p, Altcp_accept (Some l)] g, Some l)"
  using assms by (simp add: HttpdInit_def Let_def calls_def call_def)

lemma HttpdInit_extends:
  "c \<in> set (g_calls g) \<Longrightarrow> c \<in> set (g_calls (fst (HttpdInit h le tls port g)))"
  "g_WorkConfig (fst (HttpdInit h le tls port g)) = g_WorkConfig g"
  by (auto simp: HttpdInit_def Let_def calls_def call_def split: option.split)

lemma ssdpInit_joins: "Igmp_joingroup (GetMyIP g) UPNP_GROUP \<in> set (u_calls (ssdpInit e g s))"
  by (simp add: ssdpInit_def Let_def GetLocalhost_def udp_do_def split: option.split)

text \<open>A stack that gives what it is asked for and a device at power-up, for the witnesses.\<close>

definition sample_app_env :: app_env where
  "sample_app_env = \<lparr>ae_http = sample_env, ae_listen = \<lparr>le_new = (\<lambda>tls _. Some 1), le_listen = (\<lambda>p _. Some (p + 10))\<rparr>,
     ae_udp = sample_udp, ae_dhcp_start = (\<lambda>_. 0)\<rparr>"

definition sample_app :: app where
  "sample_app = \<lparr>a_loop = Waiting, a_contexts = [], a_glob = sample_glob\<lparr>g_ipIsReady := 0\<rparr>, a_ssdp = sample_ssdp,
     main_netif = \<lparr>nif_ip = 0, nif_netmask = 0, nif_gw = 0, nif_dhcp = False\<rparr>, pcbLogUdp = None, g_pcbListen80 = None,
     g_nNetIsUp = 0xFFFFFFFF, tLastBeaconTick = 0, tLastPollTick = 0, a_led = False, a_calls = []\<rparr>"

lemma sample_power_on: "power_on sample_app"
  by (simp add: power_on_def sample_app_def sample_glob_def a_ready_def sample_ssdp_def)

lemma sample_main_start:
  obtains a where "main_start sample_app_env ''ABC'' sample_app = Some a" "a_loop a = Waiting" "a_ready a = 0" "nif_dhcp (main_netif a)"
proof -
  obtain g where "InitDevInfo ''ABC'' (a_glob sample_app) = Some g" "IsDhcpEnabled g = 1" "g_ipIsReady g = 0"
    by (auto simp: InitDevInfo_def blit_def in_arr_def sample_glob_def sample_app_def Let_def IsDhcpEnabled_def zero_config_def)
  then show ?thesis
    by (intro that [of "the (main_start sample_app_env ''ABC'' sample_app)"])
      (simp_all add: main_start_def case_prod_unfold Let_def SetupHttpContext_def clear_sessions_def LwipInit_def LwipLinkUp_def app_do_def
        IsDhcpEnabled_def sample_app_env_def a_ready_def)
qed

section \<open>Properties\<close>

text \<open>
  C7: The services run exactly while the device is in its serving loop. In every state that
  the main loop can reach from power-up, whatever the clients, the stack and the DHCP server
  do, the tables of the server are sound; the device is a member of the multicast group once
  and has its name service on while it serves, and neither while it waits for the network,
  when the pcbs of the multicast service and of the log are gone; readiness is a flag.
\<close>

theorem services_follow_loop:
  assumes "power_on a0" and "main_start e cpuSN a0 = Some a" and "app_run e ls a b"
  shows "server_inv (ae_http e) (a_contexts b, a_glob b) \<and> a_ready b \<in> {0, 1}
    \<and> memberships (u_calls (a_ssdp b)) = (if a_loop b = Serving then 1 else 0)
    \<and> name_services (a_calls b) = (if a_loop b = Serving then 1 else 0)
    \<and> (a_loop b = Serving \<or> g_ssdpPcb (a_ssdp b) = None \<and> pcbLogUdp b = None)"
proof -
  have "app_inv e b" using app_inv_run [OF assms(3)] app_inv_main_start [OF assms(1,2)] by blast
  then show ?thesis by (cases "a_loop b") (auto simp: app_inv_def)
qed

theorem services_follow_loop_witness:
  "\<exists>a b. main_start sample_app_env ''ABC'' sample_app = Some a \<and> app_run sample_app_env [Net_dhcp] a b \<and> a_loop b = Serving
    \<and> memberships (u_calls (a_ssdp b)) = 1"
proof -
  obtain a where a: "main_start sample_app_env ''ABC'' sample_app = Some a" "a_loop a = Waiting" "a_ready a = 0" "nif_dhcp (main_netif a)"
    by (rule sample_main_start)
  let ?w = "wait_turn (at_tick 6000 a)"
  let ?l = "dhcp_bind 0xC0A80563 None 0 ?w"
  have w: "nif_dhcp (main_netif ?w)" "a_loop ?l = Waiting" "a_ready ?l \<noteq> 0"
    using a by (simp_all add: wait_turn_def at_tick_def dhcp_bind_def Let_def OnDhcpFinished_frame)
  have "poll sample_app_env [Net_dhcp] ?w ?l" by (rule poll_event [OF net_dhcp [OF w(1)] poll_none])
  from run_step [OF step_wait [OF a(2,3) this] run_step [OF step_start [OF w(2,3)] run_none]]
  have "app_run sample_app_env ([Net_dhcp] @ [] @ []) a (start_services sample_app_env (at_tick 6001 ?l))" .
  then have run: "app_run sample_app_env [Net_dhcp] a (start_services sample_app_env (at_tick 6001 ?l))" by simp
  have "a_loop (start_services sample_app_env (at_tick 6001 ?l)) = Serving" by (simp add: start_services_def Let_def split: prod.split)
  with services_follow_loop [OF sample_power_on a(1) run] run a(1) show ?thesis by auto
qed

text \<open>
  C36: Switching DHCP takes the device off the network. When a form that changed the DHCP
  switch is applied while the device serves, readiness is gone; the main loop stops the
  services, and from then on, until the stack reports a lease, it stays in its waiting loop:
  neither is the stack started again nor DHCP started or stopped, as the log line says. If
  DHCP does not run on the interface, this is for ever.
\<close>

theorem dhcp_switch_offline:
  assumes "a_loop a = Serving" and "nDhcpEnabled (g_WorkConfig (a_glob a)) \<noteq> nDhcpEnabled (g_TempConfig (a_glob a))"
    and "app_run e ls (a\<lparr>a_glob := AppyConfig (a_glob a)\<rparr>) b" and "Net_dhcp \<notin> set ls \<or> \<not> nif_dhcp (main_netif a)"
  shows "a_ready b = 0 \<and> (b = a\<lparr>a_glob := AppyConfig (a_glob a)\<rparr>
    \<or> a_loop b = Waiting \<and> a_calls b = a_calls a @ [Netbiosns_stop, Tcp_kill_all])"
proof -
  let ?a = "a\<lparr>a_glob := AppyConfig (a_glob a)\<rparr>"
  have ready: "a_ready ?a = 0" using assms(2) by (simp add: a_ready_def AppyConfig_def Let_def)
  from assms(3) show ?thesis
  proof cases
    case run_none
    with ready show ?thesis by simp
  next
    case (run_step ls1 c ms)
    from run_step(2) obtain t where "stop_services e (at_tick t ?a) = Some c"
      using assms(1) ready by (auto elim!: app_step.cases)
    from stop_services_shape [OF this] ready have "a_loop c = Waiting" "a_ready c = 0" "nif_dhcp (main_netif c) = nif_dhcp (main_netif a)"
      "a_calls c = a_calls a @ [Netbiosns_stop, Tcp_kill_all]" by (simp_all, simp_all add: at_tick_def)
    with waiting_run [OF run_step(3)] assms(4) run_step(1) show ?thesis by auto
  qed
qed

theorem dhcp_switch_offline_witness:
  "\<exists>a b. a_loop a = Serving \<and> app_run sample_app_env [] (a\<lparr>a_glob := AppyConfig (a_glob a)\<rparr>) b
    \<and> a_loop b = Waiting \<and> a_calls b = a_calls a @ [Netbiosns_stop, Tcp_kill_all]"
proof -
  let ?a = "sample_app\<lparr>a_loop := Serving, a_glob := sample_glob\<lparr>g_TempConfig := sample_config\<lparr>nDhcpEnabled := 0\<rparr>\<rparr>\<rparr>"
  let ?c = "?a\<lparr>a_glob := AppyConfig (a_glob ?a)\<rparr>"
  have switched: "nDhcpEnabled (g_WorkConfig (a_glob ?a)) \<noteq> nDhcpEnabled (g_TempConfig (a_glob ?a))"
    by (simp add: sample_glob_def sample_config_def)
  have "stop_services sample_app_env (at_tick 6000 ?c) \<noteq> None"
    by (simp add: stop_services_def stop_listening_def sample_app_def sample_glob_def AppyConfig_def Let_def bind_eq_None_conv
        ssdpDown_def ssdp_send_to_eq at_tick_def)
  then obtain b where "stop_services sample_app_env (at_tick 6000 ?c) = Some b" by auto
  then have "app_step sample_app_env [] ?c b"
    by (intro step_stop) (simp_all add: a_ready_def sample_glob_def sample_config_def AppyConfig_def Let_def)
  then have run: "app_run sample_app_env [] ?c b" using run_step [OF _ run_none, of sample_app_env "[]"] by simp
  have "a_loop b = Waiting"
    using \<open>stop_services _ _ = Some b\<close> by (auto simp: stop_services_def bind_eq_Some_conv Let_def split: prod.splits)
  with dhcp_switch_offline [OF _ switched run] run show ?thesis by (intro exI [of _ ?a] exI [of _ b]) auto
qed

text \<open>
  C35: A lease brings the services up. When DHCP binds an address while the device waits, its
  next step starts them: it serves on port 80, it has joined the multicast group with the
  leased address, its configuration shows the address and the mask and gateway of the lease,
  those missing made up from the address, and its announcements point to that address.
\<close>

theorem lease_starts_services:
  assumes "a_loop a = Waiting" and "le_new (ae_listen e) False = (\<lambda>_. Some p)" and "le_listen (ae_listen e) p = (\<lambda>_. Some l)"
  shows "\<exists>b. app_step e [] (dhcp_bind ip given gw a) b \<and> a_loop b = Serving \<and> g_pcbListen80 b = Some l
    \<and> Altcp_bind p 80 \<in> set (g_calls (a_glob b)) \<and> Igmp_joingroup ip UPNP_GROUP \<in> set (u_calls (a_ssdp b))
    \<and> GetMyIP (a_glob b) = ip \<and> GetSubnet (a_glob b) = dhcp_mask ip given
    \<and> GetGateway (a_glob b) = (if gw = 0 then (ip AND dhcp_mask ip given) OR 1 else gw)
    \<and> sublist (''LOCATION: http://'' @ dotted ip @ ''/upnp_device.xml'') (ssdp_message ADVERTISE_UP (a_glob b))"
proof -
  let ?a = "dhcp_bind ip given gw a"
  let ?b = "start_services e ?a"
  have tick: "at_tick (g_now (a_glob ?a)) ?a = ?a" by (simp add: at_tick_def)
  have "a_loop ?a = Waiting" "a_ready ?a \<noteq> 0" using assms(1) by (simp_all add: dhcp_bind_def Let_def OnDhcpFinished_frame)
  from step_start [OF this, of e "g_now (a_glob ?a)"] have step: "app_step e [] ?a ?b" unfolding tick .
  have served: "a_loop ?b = Serving" "g_pcbListen80 ?b = Some l" "Altcp_bind p 80 \<in> set (g_calls (a_glob ?b))"
    "g_WorkConfig (a_glob ?b) = g_WorkConfig (a_glob ?a)" "Igmp_joingroup (GetMyIP (a_glob ?a)) UPNP_GROUP \<in> set (u_calls (a_ssdp ?b))"
    using assms(2,3) ssdpInit_joins [of "a_glob ?a"]
    by (auto simp: start_services_def Let_def app_do_def LogInit_frame HttpdInit_port calls_def case_prod_unfold HttpdInit_extends)
  have work: "GetMyIP (a_glob ?a) = ip" "GetSubnet (a_glob ?a) = dhcp_mask ip given" "GetGateway (a_glob ?a) = dhcp_gateway ip (dhcp_mask ip given) gw"
    by (simp_all add: dhcp_bind_def Let_def OnDhcpFinished_def app_do_def SetLongIP_def SetGateway_def SetSubnet_def
        GetMyIP_def GetLongIP_def GetSubnet_def GetGateway_def)
  have same: "GetMyIP (a_glob ?b) = GetMyIP (a_glob ?a)" "GetSubnet (a_glob ?b) = GetSubnet (a_glob ?a)" "GetGateway (a_glob ?b) = GetGateway (a_glob ?a)"
    using served(4) by (simp_all add: GetMyIP_def GetLongIP_def GetSubnet_def GetGateway_def)
  have "sublist (''LOCATION: http://'' @ dotted ip @ ''/upnp_device.xml'') (ssdp_message ADVERTISE_UP (a_glob ?b))"
    using sublist_appendI [of "''LOCATION: http://'' @ dotted ip @ ''/upnp_device.xml''" "ssdp_head ADVERTISE_UP"]
    unfolding ssdp_message_def same(1) work(1) by simp
  with step served work same show ?thesis by (auto simp: dhcp_gateway_def)
qed

theorem lease_starts_services_witness:
  "\<exists>b. app_step sample_app_env [] (dhcp_bind 0xC0A80563 None 0 sample_app) b \<and> a_loop b = Serving \<and> GetMyIP (a_glob b) = 0xC0A80563
    \<and> GetSubnet (a_glob b) = 0xFFFFFF00 \<and> GetGateway (a_glob b) = 0xC0A80501"
proof -
  have "a_loop sample_app = Waiting" "le_new (ae_listen sample_app_env) False = (\<lambda>_. Some 1)" "le_listen (ae_listen sample_app_env) 1 = (\<lambda>_. Some 11)"
    by (simp_all add: sample_app_def sample_app_env_def)
  from lease_starts_services [OF this, where ip = "0xC0A80563" and given = None and gw = 0] show ?thesis by (auto simp: dhcp_mask_def)
qed

end
