(* ===== verification/Sys_Arch.thy ===== *)
theory Sys_Arch
  imports Requests Application
begin

text \<open>
  The clock and the log: \<^verbatim>\<open>getClock\<close>, \<^verbatim>\<open>msDiff\<close> and \<^verbatim>\<open>LwipLogPrint\<close> of
  \<^verbatim>\<open>arch/sys_arch.c\<close>, and \<^verbatim>\<open>LogPrint\<close> of \<^verbatim>\<open>app/log.c\<close>. What \<^verbatim>\<open>vsnprintf\<close> would make of a
  format and its arguments is a parameter, a string of any length.
\<close>

section \<open>The clock\<close>

record RTC_TIME_Type =
  rtc_SEC :: nat
  rtc_MIN :: nat
  rtc_HOUR :: nat
  rtc_DOM :: nat
  rtc_DOW :: nat
  rtc_DOY :: nat
  rtc_MONTH :: nat
  rtc_YEAR :: nat

definition wday_name :: "string list" where
  "wday_name = [''Sun'', ''Mon'', ''Tue'', ''Wed'', ''Thu'', ''Fri'', ''Sat'']"

definition fmt_02 :: "nat \<Rightarrow> string" where
  "fmt_02 n = pad0 2 (fmt_u n)"

definition hms :: "RTC_TIME_Type \<Rightarrow> string" where
  "hms t = fmt_02 (rtc_HOUR t) @ '':'' @ fmt_02 (rtc_MIN t) @ '':'' @ fmt_02 (rtc_SEC t)"

text \<open>A day or a month outside the tables is an access outside them.\<close>

definition getClock :: "RTC_TIME_Type \<Rightarrow> nat \<Rightarrow> string option" where
  "getClock t maxSize =
     (if rtc_DOW t < 7 \<and> 1 \<le> rtc_MONTH t \<and> rtc_MONTH t \<le> 12
      then Some (take (maxSize - 2) (wday_name ! rtc_DOW t @ '', '' @ fmt_02 (rtc_DOM t) @ '' '' @ mon_name ! (rtc_MONTH t - 1) @ '' '' @ fmt_u (rtc_YEAR t)
             @ '' '' @ hms t @ '' GMT''))
      else None)"

text \<open>
  The same text for a time of the C library: \<open>gmtime'\<close> is \<^verbatim>\<open>gmtime\<close>, whose months count from 0 and whose
  years from 1900. \<open>gmt4http_getClock\<close> below says that both functions print the same.
\<close>

record tm =
  tm_sec :: nat
  tm_min :: nat
  tm_hour :: nat
  tm_mday :: nat
  tm_mon :: nat
  tm_year :: nat
  tm_wday :: nat
  tm_yday :: nat

definition gmt4http :: "(int \<Rightarrow> tm) \<Rightarrow> int \<Rightarrow> nat \<Rightarrow> string option" where
  "gmt4http gmtime' t maxSize =
     (let timeptr = gmtime' t in
      if tm_wday timeptr < 7 \<and> tm_mon timeptr < 12
      then Some (take (maxSize - 2) (wday_name ! tm_wday timeptr @ '', '' @ fmt_02 (tm_mday timeptr) @ '' '' @ mon_name ! tm_mon timeptr @ '' ''
             @ fmt_u (1900 + tm_year timeptr) @ '' '' @ fmt_02 (tm_hour timeptr) @ '':'' @ fmt_02 (tm_min timeptr) @ '':'' @ fmt_02 (tm_sec timeptr)
             @ '' GMT''))
      else None)"

text \<open>The tick counter as the stack sees it, its low 32 bits.\<close>

definition sys_jiffies :: "64 word \<Rightarrow> u32" where
  "sys_jiffies tick = ucast tick"

definition sys_now :: "64 word \<Rightarrow> u32" where
  "sys_now tick = ucast tick"

definition msDiff :: "u32 \<Rightarrow> u32 \<Rightarrow> u32" where
  "msDiff now last' = (if now \<ge> last' then now - last' else 0xFFFFFFFF - last' + now)"

definition clock_of :: "tm \<Rightarrow> RTC_TIME_Type" where
  "clock_of x = \<lparr>rtc_SEC = tm_sec x, rtc_MIN = tm_min x, rtc_HOUR = tm_hour x, rtc_DOM = tm_mday x, rtc_DOW = tm_wday x, rtc_DOY = tm_yday x + 1,
     rtc_MONTH = tm_mon x + 1, rtc_YEAR = 1900 + tm_year x\<rparr>"

lemma gmt4http_getClock: "gmt4http gmtime' t maxSize = getClock (clock_of (gmtime' t)) maxSize"
  by (auto simp: gmt4http_def getClock_def clock_of_def hms_def Let_def)

lemma sys_now_add: "sys_now (t + of_nat d) = sys_now t + of_nat d"
proof -
  have l: "unat (sys_now x) = unat x mod 2 ^ 32" for x
    by (simp add: sys_now_def unsigned_ucast_eq unsigned_take_bit_eq take_bit_eq_mod)
  have w: "unat (t + of_nat d) = (unat t + d) mod 2 ^ 64" by (simp add: unat_word_ariths unsigned_of_nat take_bit_eq_mod mod_add_right_eq)
  have "unat (sys_now (t + of_nat d)) = (unat t + d) mod 2 ^ 32" unfolding l w by (rule mod_mod_cancel) simp
  moreover have "unat (sys_now t + of_nat d) = (unat t + d) mod 2 ^ 32"
    by (simp add: unat_word_ariths unsigned_of_nat take_bit_eq_mod l mod_simps)
  ultimately show ?thesis by (simp add: word_unat_eq_iff)
qed
text \<open>
  The counter wraps around every 49 days. Over the wrap-around \<open>msDiff\<close> loses a millisecond: it adds
  to the largest number where it had to add to the number behind it.
\<close>

lemma msDiff_goes_on:
  assumes "d < 2 ^ 32"
  shows "unat (msDiff (a + of_nat d) a) = (if unat a + d < 2 ^ 32 then d else d - 1)"
proof -
  have d: "unat (word_of_nat d :: u32) = d" using assms by (simp add: unsigned_of_nat take_bit_nat_eq_self)
  have a: "unat a < 2 ^ 32" using unsigned_less [of a, where 'a = nat] by simp
  show ?thesis
  proof (cases "unat a + d < 2 ^ 32")
    case True
    then have s: "unat (a + word_of_nat d) = unat a + d" using d by (simp add: unat_word_ariths)
    then have "a + word_of_nat d \<ge> a" by (simp add: word_le_nat_alt)
    then show ?thesis using True d by (simp add: msDiff_def)
  next
    case False
    then have s: "unat (a + word_of_nat d) = unat a + d - 2 ^ 32" using d a assms by (simp add: unat_word_ariths mod_if)
    then have "\<not> a + word_of_nat d \<ge> a" using False a assms by (simp add: word_le_nat_alt not_le)
    moreover have "0xFFFFFFFF - a + (a + word_of_nat d) = (word_of_nat (d - 1) :: u32)"
      using False a by (cases d) simp_all
    moreover have "unat (word_of_nat (d - 1) :: u32) = d - 1" using assms by (simp add: unsigned_of_nat take_bit_nat_eq_self)
    ultimately show ?thesis using False by (simp add: msDiff_def)
  qed
qed

lemma msDiff_sys_now:
  "d < 2 ^ 32 \<Longrightarrow> unat (msDiff (sys_now (t + of_nat d)) (sys_now t)) = (if unat (sys_now t) + d < 2 ^ 32 then d else d - 1)"
  unfolding sys_now_add by (rule msDiff_goes_on)

section \<open>The log\<close>

text \<open>
  The line in its buffer of 256 bytes, which starts cleared; the stamp is at most 9 characters. \<open>text'\<close> is the formatted text,
  without the first two characters of the format when they are a mark.
\<close>

definition log_line :: "RTC_TIME_Type \<Rightarrow> string \<Rightarrow> string \<Rightarrow> string" where
  "log_line t fmt text' =
     (if take 2 fmt = CRLF \<or> take 2 fmt = ''%C'' then take 254 text' else take 9 (hms t @ '' '') @ take 243 text')"

text \<open>\<^verbatim>\<open>LWIP_sprintf\<close>, which has no bound: \<open>text'\<close> is what \<^verbatim>\<open>vsprintf\<close> makes of its arguments.\<close>

definition LWIP_sprintf :: "bytes \<Rightarrow> string \<Rightarrow> bytes option" where
  "LWIP_sprintf buf text' = strcpy_at buf 0 text'"

definition LogPrint :: "int \<Rightarrow> bool \<Rightarrow> RTC_TIME_Type \<Rightarrow> string \<Rightarrow> string \<Rightarrow> app_env \<Rightarrow> app \<Rightarrow> app option" where
  "LogPrint level interrupt t fmt text' e a =
     (if level > 0 \<or> interrupt then Some a
      else do {
        sMsg \<leftarrow> strcpy_at (zeros 256) 0 (log_line t fmt text');
        c \<leftarrow> peek sMsg (int (length (cstr sMsg)) - 1);
        sMsg \<leftarrow> (if c \<noteq> CR \<and> c \<noteq> LF then strcat sMsg CRLF else Some sMsg);
        Some (SendLog e 8899 (cstr sMsg) a) })"

definition LwipLogPrint :: "RTC_TIME_Type \<Rightarrow> string \<Rightarrow> app_env \<Rightarrow> app \<Rightarrow> app" where
  "LwipLogPrint t text' e a = SendLog e 8899 (take 13 (hms t @ '' '') @ take 495 text') a"

lemma length_fmt_02: "2 \<le> length (fmt_02 n)"
  by (simp add: fmt_02_def pad0_def)

lemma length_hms: "8 \<le> length (hms t)"
  using length_fmt_02 [of "rtc_HOUR t"] length_fmt_02 [of "rtc_MIN t"] length_fmt_02 [of "rtc_SEC t"] by (simp add: hms_def)

lemma nul_free_fmt_02: "nul_free (fmt_02 n)"
  by (auto simp: fmt_02_def pad0_def nul_free_def [of "replicate _ _"])

lemma nul_free_hms: "nul_free (hms t)"
  by (simp add: hms_def nul_free_fmt_02)

lemma log_line_props:
  assumes "nul_free text'"
  shows "nul_free (log_line t fmt text')" "length (log_line t fmt text') \<le> 254"
    "take 2 fmt \<noteq> CRLF \<Longrightarrow> take 2 fmt \<noteq> ''%C'' \<Longrightarrow> length (log_line t fmt text') \<le> 252 \<and> log_line t fmt text' \<noteq> []"
  using assms length_hms [of t] nul_free_hms [of t] by (auto simp: log_line_def intro: nul_free_take)

lemma LogPrint_eq:
  assumes "nul_free text'" and "l = log_line t fmt text'"
  shows "LogPrint 0 False t fmt text' e a =
    (if l = [] then None
     else if last l = CR \<or> last l = LF then Some (SendLog e 8899 l a)
     else if length l < 254 then Some (SendLog e 8899 (l @ CRLF) a) else None)"
proof -
  have l: "nul_free l" "length l \<le> 254" using log_line_props [OF assms(1)] assms(2) by auto
  then obtain b where b: "strcpy_at (zeros 256) 0 l = Some b" using strcpy_at_defined [of 0 "zeros 256" l] by auto
  with l have c: "cstr b = l" "length b = 256" by (simp_all add: cstr_strcpy0 length_strcpy_at)
  have last: "l \<noteq> [] \<Longrightarrow> peek b (int (length l) - 1) = Some (last l)"
  proof -
    assume "l \<noteq> []"
    have "b = l @ drop (length l) b" using c(1) take_cstr [of b] by (metis append_take_drop_id)
    then have "b ! (length l - 1) = last l" using \<open>l \<noteq> []\<close> by (metis last_conv_nth nth_append diff_less length_greater_0_conv zero_less_one)
    with \<open>l \<noteq> []\<close> l(2) c(2) show ?thesis by (simp add: peek_def in_arr_def nat_diff_distrib Suc_le_eq)
  qed
  have cat: "strcat b CRLF = None \<longleftrightarrow> \<not> length l < 254" using strcat_defined [of b CRLF] c by (auto simp: CRLF_def)
  have cut: "strcat b CRLF = Some b' \<Longrightarrow> cstr b' = l @ CRLF" for b' using c(1) by (simp add: cstr_strcat CRLF_def)
  show ?thesis
  proof (cases "l = []")
    case True
    with b c show ?thesis by (simp add: LogPrint_def assms(2) [symmetric] peek_def in_arr_def)
  next
    case False
    with b c last cat cut show ?thesis
      by (cases "strcat b CRLF") (auto simp: LogPrint_def assms(2) [symmetric])
  qed
qed

section \<open>Reading a date\<close>

text \<open>A month is found by its first three characters, whatever follows.\<close>

lemma month_index_take: "3 \<le> length m \<Longrightarrow> month_index (m @ r) i ms = month_index m i ms"
  by (induction ms arbitrary: i) (simp_all add: Strnicmp_eq_0_iff)

lemma month_index_mon_name: "k < 12 \<Longrightarrow> month_index (mon_name ! k @ r) 0 mon_name = int k"
proof -
  have "\<forall>k \<in> set [0..<12]. length (mon_name ! k) = 3 \<and> month_index (mon_name ! k) 0 mon_name = int k" by code_simp
  then show "k < 12 \<Longrightarrow> ?thesis" by (simp add: month_index_take)
qed

text \<open>Two digits with a leading zero.\<close>

lemma fmt_02_two:
  assumes "n < 100"
  shows "length (fmt_02 n) = 2" "\<forall>c \<in> set (fmt_02 n). is_digit c" "digits_value (fmt_02 n) = int n"
proof -
  have one: "length (fmt_u n) = (if n < 10 then 1 else 2)" using assms by (simp add: fmt_u_def base_digits.simps) arith
  then show "length (fmt_02 n) = 2" by (simp add: fmt_02_def pad0_def)
  have pad: "fmt_02 n = (if n < 10 then CHR ''0'' # fmt_u n else fmt_u n)" using one by (simp add: fmt_02_def pad0_def)
  show "\<forall>c \<in> set (fmt_02 n). is_digit c" using fmt_u_digits by (auto simp: pad is_digit_def ord_def)
  show "digits_value (fmt_02 n) = int n" by (simp add: pad digits_value_Cons ord_def)
qed

lemma atol_fmt_02: "n < 100 \<Longrightarrow> \<not> is_digit c \<Longrightarrow> atol (fmt_02 n @ c # r) = int n"
  using atol_digits [of "fmt_02 n" "c # r"] fmt_02_two [of n] by (cases "fmt_02 n") auto

lemma length_fmt_u_4: "1000 \<le> n \<Longrightarrow> n \<le> 9999 \<Longrightarrow> length (fmt_u n) = 4"
  by (simp add: fmt_u_def base_digits.simps div_mult2_eq [symmetric]) arith

lemma cstr_at_part:
  assumes "nul_free s" and "k \<le> length s"
  shows "cstr_at (pre @ s @ NUL # post) (int (length pre) + int k) = Some (drop k s)"
proof -
  have "drop (length pre + k) (pre @ s @ NUL # post) = drop k s @ NUL # post" using assms(2) by simp
  moreover have "nat (int (length pre) + int k) = length pre + k" by simp
  ultimately show ?thesis using nul_free_drop [OF assms(1), of k] unfolding cstr_at_def by (simp only: cstr_append_NUL) simp
qed

lemma length_wday: "k < 7 \<Longrightarrow> length (wday_name ! k) = 3 \<and> nul_free (wday_name ! k)"
proof -
  have "\<forall>k \<in> set [0..<7]. length (wday_name ! k) = 3 \<and> nul_free (wday_name ! k)" by code_simp
  then show "k < 7 \<Longrightarrow> ?thesis" by simp
qed

lemma length_mon: "k < 12 \<Longrightarrow> length (mon_name ! k) = 3 \<and> nul_free (mon_name ! k)"
proof -
  have "\<forall>k \<in> set [0..<12]. length (mon_name ! k) = 3 \<and> nul_free (mon_name ! k)" by code_simp
  then show "k < 12 \<Longrightarrow> ?thesis" by simp
qed

text \<open>The real-time clock of a day, for the witnesses.\<close>

definition sample_rtc :: RTC_TIME_Type where
  "sample_rtc = \<lparr>rtc_SEC = 7, rtc_MIN = 5, rtc_HOUR = 10, rtc_DOM = 11, rtc_DOW = 4, rtc_DOY = 163, rtc_MONTH = 6, rtc_YEAR = 2020\<rparr>"

section \<open>Properties\<close>

text \<open>
  When a log line is written past its buffer. With a format that begins with the mark of a
  command or with a line end, an empty text makes \<^verbatim>\<open>LogPrint\<close> read the byte before the buffer, and
  a text of 254 or more characters that has no line end at its 254th makes it append one over
  the end of the buffer. Every other line, however long, fits: it is cut, ended with a line
  end and sent to port 8899.
\<close>

theorem log_print_overflow:
  assumes "nul_free text'" and "marked \<longleftrightarrow> take 2 fmt = CRLF \<or> take 2 fmt = ''%C''"
  shows "LogPrint 0 False t fmt text' e a = None \<longleftrightarrow>
    marked \<and> (text' = [] \<or> 254 \<le> length text' \<and> text' ! 253 \<noteq> CR \<and> text' ! 253 \<noteq> LF)"
proof (cases marked)
  case False
  with log_line_props(3) [OF assms(1), of fmt t] assms(2)
  have "length (log_line t fmt text') \<le> 252" "log_line t fmt text' \<noteq> []" by simp_all
  with False show ?thesis by (simp add: LogPrint_eq [OF assms(1) refl])
next
  case True
  then have "log_line t fmt text' = take 254 text'" using assms(2) by (simp add: log_line_def)
  moreover have "last (take 254 text') = text' ! 253" if "254 \<le> length text'"
    using that last_conv_nth [of "take 254 text'"] by (cases text') (auto simp: min_absorb2)
  ultimately show ?thesis using True by (auto simp: LogPrint_eq [OF assms(1) refl] min_def)
qed

theorem log_print_overflow_witness:
  "LogPrint 0 False sample_rtc ''%C%s'' (replicate 300 CHR ''x'') sample_app_env sample_app = None"
proof -
  have "nul_free (replicate 300 CHR ''x'')" by (simp add: nul_free_def)
  from log_print_overflow [OF this refl, of sample_rtc "''%C%s''" sample_app_env sample_app] show ?thesis
    by (simp add: CRLF_def nth_replicate)
qed

text \<open>
  A date that the clock prints is read back. The header date of \<^verbatim>\<open>getClock\<close>, wherever it
  stands in a buffer, is parsed by \<^verbatim>\<open>parseHttpDate\<close> to the time that its fields denote, for
  every year of four digits and every weekday.
\<close>

theorem http_date_read_back:
  assumes "getClock t n = Some s" and "31 \<le> n" and "1000 \<le> rtc_YEAR t" and "rtc_YEAR t \<le> 9999" and "rtc_DOM t < 100"
    and "rtc_HOUR t < 100" and "rtc_MIN t < 100" and "rtc_SEC t < 100"
  shows "parseHttpDate (pre @ s @ NUL # post) (int (length pre))
    = Some (mktime (int (rtc_YEAR t)) (int (rtc_MONTH t) - 1) (int (rtc_DOM t)) (int (rtc_HOUR t)) (int (rtc_MIN t)) (int (rtc_SEC t)))"
proof -
  let ?w = "wday_name ! rtc_DOW t" and ?m = "mon_name ! (rtc_MONTH t - 1)" and ?d = "fmt_02 (rtc_DOM t)" and ?y = "fmt_u (rtc_YEAR t)"
  let ?H = "fmt_02 (rtc_HOUR t)" and ?M = "fmt_02 (rtc_MIN t)" and ?S = "fmt_02 (rtc_SEC t)"
  have month: "rtc_MONTH t - 1 < 12" "int (rtc_MONTH t - 1) = int (rtc_MONTH t) - 1" and dow: "rtc_DOW t < 7"
    using assms(1) by (auto simp: getClock_def split: if_splits)
  note three = length_wday [OF dow] length_mon [OF month(1)]
  note two = fmt_02_two(1) [OF assms(5)] fmt_02_two(1) [OF assms(6)] fmt_02_two(1) [OF assms(7)] fmt_02_two(1) [OF assms(8)]
    length_fmt_u_4 [OF assms(3,4)]
  have s: "s = ?w @ '', '' @ ?d @ '' '' @ ?m @ '' '' @ ?y @ '' '' @ ?H @ '':'' @ ?M @ '':'' @ ?S @ '' GMT''"
    using assms(1,2) three two by (auto simp: getClock_def hms_def split: if_splits)
  have len: "length s = 29" using three two by (simp add: s)
  have free: "nul_free s"
    using three by (simp add: s nul_free_fmt_02)
  have parts: "drop 5 s = ?d @ CHR '' '' # ?m @ '' '' @ ?y @ '' '' @ ?H @ '':'' @ ?M @ '':'' @ ?S @ '' GMT''"
    "drop 8 s = ?m @ '' '' @ ?y @ '' '' @ ?H @ '':'' @ ?M @ '':'' @ ?S @ '' GMT''"
    "drop 12 s = ?y @ '' '' @ ?H @ '':'' @ ?M @ '':'' @ ?S @ '' GMT''" "drop 17 s = ?H @ CHR '':'' # ?M @ '':'' @ ?S @ '' GMT''"
    "drop 20 s = ?M @ CHR '':'' # ?S @ '' GMT''" "drop 23 s = ?S @ CHR '' '' # ''GMT''"
    using three two by (simp_all add: s)
  have sep: "\<not> is_digit CHR '' ''" "\<not> is_digit CHR '':''" by code_simp+
  have year: "atol (?y @ CHR '' '' # r) = int (rtc_YEAR t)" for r using atol_fmt_u [of "rtc_YEAR t" "CHR '' '' # r"] assms(4) sep by simp
  have mon: "month_index (mon_name ! (rtc_MONTH t - Suc 0) @ r) 0 mon_name = int (rtc_MONTH t - Suc 0)" for r
    using month_index_mon_name [of "rtc_MONTH t - Suc 0" r] month(1) by simp
  show ?thesis
    using cstr_at_part [OF free, of 5 pre post] cstr_at_part [OF free, of 8 pre post] cstr_at_part [OF free, of 12 pre post]
      cstr_at_part [OF free, of 17 pre post] cstr_at_part [OF free, of 20 pre post] cstr_at_part [OF free, of 23 pre post]
    by (simp add: parseHttpDate_def len parts atol_fmt_02 assms(5-8) sep year mon month(2) [symmetric])
qed

theorem http_date_read_back_witness:
  "\<exists>s. getClock sample_rtc 64 = Some s \<and> parseHttpDate (''If-Modified-Since: '' @ s @ [NUL]) 19 = Some 1591869907"
proof -
  obtain s where s: "getClock sample_rtc 64 = Some s" by (simp add: getClock_def sample_rtc_def)
  have "mktime 2020 5 11 10 5 7 = 1591869907" by code_simp
  with http_date_read_back [OF s, of "''If-Modified-Since: ''" "[]"] s show ?thesis by (simp add: sample_rtc_def)
qed

end
