(* ===== verification/Delivery.thy ===== *)
theory Delivery
  imports Connections
begin

text \<open>
  The delivery of a page: the response procedure, the content reader, the file table and the
  send buffer together. A connection that sends a plain file is followed through the events of
  the stack, between which the other connections may do anything that leaves its file handle
  and its own writes alone. The theory shows that the bytes given to the stack are the header
  and the file in order, that a stack with room gets all of them, and where the division of
  the send buffer fails.
\<close>

section \<open>What one connection wrote\<close>

fun write_on :: "nat \<Rightarrow> net_call \<Rightarrow> bytes" where
  "write_on pcb (Altcp_write p b) = (if p = pcb then b else [])"
| "write_on pcb _ = []"

definition written_on :: "nat \<Rightarrow> glob \<Rightarrow> bytes" where
  "written_on pcb g = concat (map (write_on pcb) (g_calls g))"

text \<open>Sending changes the counters and the buffer of the response, and adds calls.\<close>

definition sent_frame :: "REQUEST_CONTEXT \<Rightarrow> REQUEST_CONTEXT \<Rightarrow> bool" where
  "sent_frame q q' \<longleftrightarrow> (\<exists>a b c d. length c = length (p_sendBuffer (ctxResponse q))
     \<and> q' = upd_resp (\<lambda>r. r\<lparr>p_total2Send := a, p_bytesLeft := b, p_sendBuffer := c, p_tLastSent := d\<rparr>) q)"

lemma sent_frameI:
  assumes "length (c (ctxResponse q)) = length (p_sendBuffer (ctxResponse q))"
  shows "sent_frame q (upd_resp (\<lambda>r. r\<lparr>p_total2Send := a r, p_bytesLeft := b r, p_sendBuffer := c r, p_tLastSent := d r\<rparr>) q)"
  unfolding sent_frame_def upd_resp_def by (intro exI conjI) (rule assms, rule refl)

lemma sent_frame_refl: "sent_frame q q"
  using sent_frameI [where q = q and a = p_total2Send and b = p_bytesLeft and c = p_sendBuffer and d = p_tLastSent]
  by (simp add: upd_resp_def)

lemma sent_frame_trans:
  assumes "sent_frame q q'" and "sent_frame q' q''"
  shows "sent_frame q q''"
proof -
  from assms(1) obtain a' b' c' d' where 1: "length c' = length (p_sendBuffer (ctxResponse q))"
    "q' = upd_resp (\<lambda>r. r\<lparr>p_total2Send := a', p_bytesLeft := b', p_sendBuffer := c', p_tLastSent := d'\<rparr>) q"
    unfolding sent_frame_def by blast
  from assms(2) obtain a b c d where 2: "length c = length (p_sendBuffer (ctxResponse q'))"
    "q'' = upd_resp (\<lambda>r. r\<lparr>p_total2Send := a, p_bytesLeft := b, p_sendBuffer := c, p_tLastSent := d\<rparr>) q'"
    unfolding sent_frame_def by blast
  from 1 2 have "q'' = upd_resp (\<lambda>r. r\<lparr>p_total2Send := a, p_bytesLeft := b, p_sendBuffer := c, p_tLastSent := d\<rparr>) q"
    by (simp add: upd_resp_def)
  moreover from 1 2(1) have "length c = length (p_sendBuffer (ctxResponse q))" by simp
  ultimately show ?thesis unfolding sent_frame_def by blast
qed

lemma sent_frameD:
  assumes "sent_frame q q'"
  shows "q_pcb q' = q_pcb q" "q_handler q' = q_handler q" "q_requestMethod q' = q_requestMethod q" "q_result q' = q_result q"
    "q_options q' = q_options q" "q_state q' = q_state q"
    "p_sending (ctxResponse q') = p_sending (ctxResponse q)" "p_sendMaxBlock (ctxResponse q') = p_sendMaxBlock (ctxResponse q)"
    "p_appContext (ctxResponse q') = p_appContext (ctxResponse q)" "p_dwTotal (ctxResponse q') = p_dwTotal (ctxResponse q)"
    "p_dwOperIndex (ctxResponse q') = p_dwOperIndex (ctxResponse q)" "p_dwOperStage (ctxResponse q') = p_dwOperStage (ctxResponse q)"
    "length (p_sendBuffer (ctxResponse q')) = length (p_sendBuffer (ctxResponse q))"
    "p_totalSent (ctxResponse q') = p_totalSent (ctxResponse q)"
  using assms by (auto simp: sent_frame_def upd_resp_def)

lemma send_block_frame:
  assumes "send_block e pcb q g n = Some (q', g', err)"
  shows "sent_frame q q' \<and> (\<exists>cs. g' = g\<lparr>g_calls := g_calls g @ cs\<rparr> \<and> concat (map written_by cs) = written_on pcb (g\<lparr>g_calls := cs\<rparr>))"
proof (cases "err = ERR_OK")
  case True
  let ?b = "take (nat n) (p_sendBuffer (ctxResponse q))"
  from assms True have "sent_frame q q'" "g' = call (Altcp_write pcb ?b) g"
    by (auto simp: send_block_def Let_def bind_eq_Some_conv array_simps length_poke intro!: sent_frameI split: if_splits)
  then show ?thesis by (auto simp: call_def written_on_def intro!: exI [of _ "[Altcp_write pcb ?b]"])
next
  case False
  with assms have "q' = q" "g' = g" by (auto simp: send_block_def Let_def bind_eq_Some_conv split: if_splits)
  then show ?thesis by (auto simp: sent_frame_refl written_on_def intro!: exI [of _ "[]"])
qed

lemma send_loop_frame:
  assumes "send_loop e pcb q g = Some (q', g', err)"
  shows "sent_frame q q' \<and> (\<exists>cs. g' = g\<lparr>g_calls := g_calls g @ cs\<rparr> \<and> concat (map written_by cs) = written_on pcb (g\<lparr>g_calls := cs\<rparr>))"
  using assms
proof (induction e pcb q g arbitrary: q' g' err rule: send_loop.induct)
  case (1 e pcb q g)
  let ?left = "p_bytesLeft (ctxResponse q)" and ?max = "e_sndbuf e (g_calls g)"
  show ?case
  proof (cases "?left > 0 \<and> ?max > 0")
    case False
    with 1(2) have "q' = q" "g' = g" by (subst (asm) send_loop.simps, auto simp: Let_def)+
    then show ?thesis by (auto simp: sent_frame_refl written_on_def intro!: exI [of _ "[]"])
  next
    case True
    with 1(2) obtain q1 g1 err1 where b: "send_block e pcb q g (min ?left ?max) = Some (q1, g1, err1)"
      by (subst (asm) send_loop.simps) (auto simp: Let_def split: option.splits)
    note f1 = send_block_frame [OF b]
    show ?thesis
    proof (cases "err1 = ERR_OK")
      case False
      with 1(2) True b have "q' = q1" "g' = g1" by (subst (asm) send_loop.simps, auto simp: Let_def)+
      with f1 show ?thesis by simp
    next
      case E: True
      have "send_loop e pcb q1 g1 = Some (q', g', err)"
        using 1(2) True b E by (subst (asm) send_loop.simps) (simp add: Let_def)
      from 1(1) [OF refl refl True b [unfolded E] refl refl refl this] obtain cs2 where
        f2: "sent_frame q1 q'" "g' = g1\<lparr>g_calls := g_calls g1 @ cs2\<rparr>" "concat (map written_by cs2) = written_on pcb (g1\<lparr>g_calls := cs2\<rparr>)" by blast
      from f1 obtain cs1 where "sent_frame q q1" "g1 = g\<lparr>g_calls := g_calls g @ cs1\<rparr>"
        "concat (map written_by cs1) = written_on pcb (g\<lparr>g_calls := cs1\<rparr>)" by blast
      with f2 show ?thesis
        by (auto simp: written_on_def intro!: sent_frame_trans [of q q1 q'] exI [of _ "cs1 @ cs2"])
    qed
  qed
qed

text \<open>All that the response procedure needs of a call of \<^verbatim>\<open>sendBuffered\<close>.\<close>

lemma sendBuffered_spec:
  assumes "q_pcb q = Some pcb" and "send_ok q"
  obtains q' g' err where "sendBuffered e q g = Some (q', g', err)" "send_ok q'" "sent_frame q q'"
    "written_on pcb g' @ waiting q' = written_on pcb g @ waiting q"
    "p_total2Send (ctxResponse q') + p_bytesLeft (ctxResponse q') = p_total2Send (ctxResponse q) + p_bytesLeft (ctxResponse q)"
    "p_bytesLeft (ctxResponse q') \<le> p_bytesLeft (ctxResponse q)"
    "\<exists>cs. g' = g\<lparr>g_calls := g_calls g @ cs\<rparr>"
    "err = ERR_OK \<longrightarrow> p_bytesLeft (ctxResponse q') = 0 \<or> e_sndbuf e (g_calls g') \<le> 0" "err = ERR_OK \<or> (\<exists>cs b. err = e_write e cs b)"
proof (cases "p_bytesLeft (ctxResponse q) > 0")
  case False
  with assms show ?thesis
    by (intro that [of q g ERR_OK]) (auto simp: sendBuffered_def sent_frame_refl send_ok_def intro!: exI [of _ "[]"])
next
  case True
  with assms(1) have s: "sendBuffered e q g = send_loop e pcb q g" by (simp add: sendBuffered_def)
  from send_loop_conserves [OF assms(2), of e pcb g] obtain q' g' err where r: "send_loop e pcb q g = Some (q', g', err)" "send_ok q'"
    "written g' @ waiting q' = written g @ waiting q"
    "p_total2Send (ctxResponse q') + p_bytesLeft (ctxResponse q') = p_total2Send (ctxResponse q) + p_bytesLeft (ctxResponse q)"
    "p_bytesLeft (ctxResponse q') \<le> p_bytesLeft (ctxResponse q)"
    "err = ERR_OK \<longrightarrow> p_bytesLeft (ctxResponse q') = 0 \<or> e_sndbuf e (g_calls g') \<le> 0" "err = ERR_OK \<or> (\<exists>cs b. err = e_write e cs b)" by blast
  from send_loop_frame [OF r(1)] obtain cs where f: "sent_frame q q'" "g' = g\<lparr>g_calls := g_calls g @ cs\<rparr>"
    "concat (map written_by cs) = written_on pcb (g\<lparr>g_calls := cs\<rparr>)" by blast
  from r(3) f have "written_on pcb g' @ waiting q' = written_on pcb g @ waiting q"
    by (simp add: written_def written_on_def)
  with r f s show ?thesis
    by (intro that [of q' g' err]) auto
qed

section \<open>A connection that sends a file\<close>

text \<open>
  The connection \<open>pcb\<close> sends the part \<open>content\<close> of the file behind handle \<open>h\<close> that starts at
  \<open>off\<close>: the whole file, or a range of it. \<open>before\<close> is what it wrote before the content, and
  \<open>n\<close> bounds the stages counted so far. What was written and what waits are \<open>before\<close> and the
  content up to the read index.
\<close>

definition sending_file :: "env \<Rightarrow> nat \<Rightarrow> nat \<Rightarrow> REQUEST_CONTEXT \<Rightarrow> bool" where
  "sending_file e pcb h q \<longleftrightarrow> q_pcb q = Some pcb \<and> (\<exists>hd. q_handler q = Some hd \<and> (hd = g_cgiWebApp \<or> hd = g_cgiAuth))
     \<and> (q_requestMethod q = METHOD_GET \<or> q_requestMethod q = METHOD_POST) \<and> q_result q > 0
     \<and> q_options q AND CGI_OPT_CHUNK_ENABLED = 0
     \<and> (q_state q = HTTP_STATE_SENDING_HEADER \<or> q_state q = HTTP_STATE_SENDING_BODY) \<and> p_sending (ctxResponse q) \<noteq> 0
     \<and> p_sendMaxBlock (ctxResponse q) = int MAX_SEND_BUF_SIZE \<and> length (p_sendBuffer (ctxResponse q)) = MAX_SEND_BUF_SIZE
     \<and> (\<exists>ctx. p_appContext (ctxResponse q) = App_SSI ctx \<and> ssi_ssi ctx = 0 \<and> ssi_fp ctx = Some h)"

definition file_at :: "env \<Rightarrow> nat \<Rightarrow> nat \<Rightarrow> bytes \<Rightarrow> nat \<Rightarrow> glob \<Rightarrow> bool" where
  "file_at e h off content idx g \<longleftrightarrow> webroot_wf e \<and> files_inv e (g_FileOpened g) \<and> h \<in> in_use (g_FileOpened g)
     \<and> off + length content \<le> length (handle_content e (g_FileOpened g) h)
     \<and> content = take (length content) (drop off (handle_content e (g_FileOpened g) h))
     \<and> handle_pos (g_FileOpened g) h = off + idx"

definition stage_of :: "nat \<Rightarrow> nat \<Rightarrow> nat \<Rightarrow> u32 \<Rightarrow> bool" where
  "stage_of n idx whole stage \<longleftrightarrow> (if idx = whole then stage = STAGE_END else unat stage \<le> n)"

definition serving :: "env \<Rightarrow> nat \<Rightarrow> nat \<Rightarrow> nat \<Rightarrow> bytes \<Rightarrow> bytes \<Rightarrow> nat \<Rightarrow> REQUEST_CONTEXT \<Rightarrow> glob \<Rightarrow> bool" where
  "serving e pcb h off before content n q g \<longleftrightarrow> sending_file e pcb h q
     \<and> 0 \<le> p_bytesLeft (ctxResponse q) \<and> p_bytesLeft (ctxResponse q) \<le> 254 \<and> p_dwTotal (ctxResponse q) = int (length content)
     \<and> (\<exists>idx. p_dwOperIndex (ctxResponse q) = int idx \<and> idx \<le> length content \<and> stage_of n idx (length content) (p_dwOperStage (ctxResponse q))
         \<and> file_at e h off content idx g \<and> written_on pcb g @ waiting q = before @ take idx content)"

lemma sending_file_frame: "sent_frame q q' \<Longrightarrow> sending_file e pcb h q \<Longrightarrow> sending_file e pcb h q'"
  by (simp add: sending_file_def sent_frameD)

lemma serving_sent:
  assumes "serving e pcb h off before content n q g" and "sent_frame q q'" and "g' = g\<lparr>g_calls := g_calls g @ cs\<rparr>"
    and "written_on pcb g' @ waiting q' = written_on pcb g @ waiting q" and "send_ok q'"
    and "p_bytesLeft (ctxResponse q') \<le> p_bytesLeft (ctxResponse q)"
  shows "serving e pcb h off before content n q' g'"
  using assms sending_file_frame [OF assms(2)]
  by (auto simp: serving_def sent_frameD [OF assms(2)] send_ok_def file_at_def)

lemma serving_send_ok: "serving e pcb h off before content n q g \<Longrightarrow> send_ok q"
  by (auto simp: serving_def send_ok_def sending_file_def)

text \<open>One call of the content reader.\<close>

lemma file_at_read:
  assumes "file_at e h off content idx g" and "idx \<le> length content" and "m \<le> length content - idx"
  obtains fs where "WEB_fread e (Some h) (int m) (g_FileOpened g) = Some (fs, take m (drop idx content), 0)"
    "file_at e h off content (idx + m) (set_files fs g)"
proof -
  let ?c = "handle_content e (g_FileOpened g) h"
  from assms have inv: "webroot_wf e \<and> files_inv e (g_FileOpened g)" and u: "h \<in> in_use (g_FileOpened g)"
    and p: "handle_pos (g_FileOpened g) h = off + idx" and l: "off + length content \<le> length ?c"
    and c: "content = take (length content) (drop off ?c)" by (simp_all add: file_at_def)
  from web.read_next [OF inv u, of m] p l assms(2) obtain fs where
    r: "WEB_fread e (Some h) (int m) (g_FileOpened g) = Some (fs, take m (drop (off + idx) ?c), 0)"
      "webroot_wf e \<and> files_inv e fs" "in_use fs = in_use (g_FileOpened g)" "handle_content e fs h = ?c"
      "handle_pos fs h = min (off + idx + m) (length ?c)" by auto
  have "take m (drop idx content) = take m (drop idx (take (length content) (drop off ?c)))" using c by simp
  also have "\<dots> = take m (drop (off + idx) ?c)"
    using assms(3) by (simp add: drop_take min_def add.commute)
  finally have "take m (drop (off + idx) ?c) = take m (drop idx content)" ..
  moreover have "min (off + idx + m) (length ?c) = off + (idx + m)" using assms(2,3) l by simp
  ultimately show ?thesis using r u l c by (intro that [of fs]) (simp_all add: file_at_def set_files_def)
qed

lemma WEB_ReadContent_file:
  assumes "sending_file e pcb h q" and "file_at e h off content idx g" and "p_dwOperIndex (ctxResponse q) = int idx"
    and "p_dwTotal (ctxResponse q) = int (length content)" and "idx < length content" and "0 \<le> n"
  defines "m \<equiv> min (length content - idx) (nat n)"
  obtains ctx fs where
    "WEB_ReadContent e q g n = Some (read_stage ctx (upd_resp (\<lambda>r. r\<lparr>p_dwOperIndex := int (idx + m)\<rparr>) q), set_files fs g,
        take m (drop idx content), int m)"
    "ssi_ssi ctx = 0" "file_at e h off content (idx + m) (set_files fs g)"
proof -
  from assms(1) obtain ctx where ctx: "p_appContext (ctxResponse q) = App_SSI ctx" "ssi_ssi ctx = 0" "ssi_fp ctx = Some h"
    by (auto simp: sending_file_def)
  have "m \<le> length content - idx" by (simp add: m_def)
  from file_at_read [OF assms(2) _ this] assms(5) obtain fs where
    fs: "WEB_fread e (Some h) (int m) (g_FileOpened g) = Some (fs, take m (drop idx content), 0)" "file_at e h off content (idx + m) (set_files fs g)"
    by auto
  have m: "min (int (length content) - int idx) n = int m" using assms(5,6) unfolding m_def by arith
  have l: "length (take m (drop idx content)) = m" using assms(5) by (simp add: m_def)
  have meth: "q_requestMethod q = METHOD_GET \<or> q_requestMethod q = METHOD_POST" using assms(1) by (simp add: sending_file_def)
  show ?thesis
    by (rule that [of ctx fs, OF _ ctx(2) fs(2)])
      (use meth ctx fs(1) m l assms(3,4,5) in \<open>simp add: WEB_ReadContent_def Let_def\<close>)
qed

text \<open>
  Loading the next block: the bytes read follow what waits in the send buffer, and the buffer
  holds them, because the room asked for is two bytes less than what is free.
\<close>

lemma waiting_append:
  assumes "0 \<le> b" and "b + int (length out) \<le> int (length sb)" and "blit sb b out = Some sb'"
  shows "take (nat (b + int (length out))) sb' = take (nat b) sb @ out"
  using assms take_blit [of sb b out sb'] by (simp add: nat_add_distrib)

lemma read_stage_of:
  assumes "stage_of n idx whole (p_dwOperStage (ctxResponse q))" and "idx < whole" and "idx + m \<le> whole" and "Suc n < 2 ^ 32 - 1"
    and "ssi_ssi ctx = 0" and "p_dwOperIndex (ctxResponse q) = int (idx + m)" and "p_dwTotal (ctxResponse q) = int whole"
  shows "stage_of (Suc n) (idx + m) whole (p_dwOperStage (ctxResponse (read_stage ctx q)))"
proof -
  have "unat (p_dwOperStage (ctxResponse q)) \<le> n" using assms(1,2) by (simp add: stage_of_def)
  then have "unat (p_dwOperStage (ctxResponse q) + 1) \<le> Suc n" using assms(4)
    by (subst unat_add_lem [THEN iffD1]) auto
  then show ?thesis using assms by (auto simp: read_stage_def stage_of_def)
qed

lemma stage_of_less: "stage_of n idx whole st \<Longrightarrow> n < 2 ^ 32 - 1 \<Longrightarrow> st \<ge> STAGE_END \<longleftrightarrow> idx = whole"
  by (cases "idx = whole") (simp_all add: stage_of_def word_le_nat_alt)

lemma load_file:
  assumes s: "serving e pcb h off before content n q g" and "Suc n < 2 ^ 32 - 1" and more: "p_dwOperIndex (ctxResponse q) < int (length content)"
  obtains q' g' m where "CGI_LoadContentToSend e caller q g = Some (q', g', if m = 0 then 0 else 1)"
    "serving e pcb h off before content (Suc n) q' g'" "q_state q' = q_state q" "q_result q' = q_result q" "g_calls g' = g_calls g"
    "m = min (length content - nat (p_dwOperIndex (ctxResponse q))) (254 - nat (p_bytesLeft (ctxResponse q)))"
    "p_bytesLeft (ctxResponse q') = p_bytesLeft (ctxResponse q) + int m" "p_dwOperIndex (ctxResponse q') = p_dwOperIndex (ctxResponse q) + int m"
    "p_total2Send (ctxResponse q') = p_total2Send (ctxResponse q)" "p_totalSent (ctxResponse q') = p_totalSent (ctxResponse q)"
proof -
  let ?r = "ctxResponse q"
  from s obtain idx where sf: "sending_file e pcb h q" and b: "0 \<le> p_bytesLeft ?r" "p_bytesLeft ?r \<le> 254"
    and t: "p_dwTotal ?r = int (length content)" and i: "p_dwOperIndex ?r = int idx" and st: "stage_of n idx (length content) (p_dwOperStage ?r)"
    and f: "file_at e h off content idx g" and w: "written_on pcb g @ waiting q = before @ take idx content" by (auto simp: serving_def)
  have less: "idx < length content" using more i by simp
  have nf: "0 \<le> 254 - p_bytesLeft ?r" using b by simp
  define m where "m = min (length content - idx) (nat (254 - p_bytesLeft ?r))"
  from WEB_ReadContent_file [OF sf f i t less nf] obtain ctx fs where
    rd: "WEB_ReadContent e q g (254 - p_bytesLeft ?r) = Some (read_stage ctx (upd_resp (\<lambda>r. r\<lparr>p_dwOperIndex := int (idx + m)\<rparr>) q), set_files fs g,
        take m (drop idx content), int m)"
    and cs: "ssi_ssi ctx = 0" and f': "file_at e h off content (idx + m) (set_files fs g)" unfolding m_def by blast
  define q1 where "q1 = read_stage ctx (upd_resp (\<lambda>r. r\<lparr>p_dwOperIndex := int (idx + m)\<rparr>) q)"
  have l: "length (take m (drop idx content)) = m" using less by (simp add: m_def)
  have sb: "p_sendBuffer (ctxResponse q1) = p_sendBuffer ?r" by (simp add: q1_def read_stage_def)
  from sf have len: "length (p_sendBuffer ?r) = 256" by (simp add: sending_file_def)
  have "int m \<le> 254 - p_bytesLeft ?r" using nf by (simp add: m_def)
  with len b l have "in_arr (p_sendBuffer ?r) (p_bytesLeft ?r) (int (length (take m (drop idx content))))" by (simp add: in_arr_def)
  then obtain sb' where blit: "blit (p_sendBuffer ?r) (p_bytesLeft ?r) (take m (drop idx content)) = Some sb'"
    by (simp add: blit_def)
  define q2 where "q2 = upd_resp (\<lambda>r. r\<lparr>p_sendBuffer := sb', p_bytesLeft := p_bytesLeft r + int m\<rparr>) q1"
  have notend: "\<not> p_dwOperStage ?r \<ge> STAGE_END" using stage_of_less [OF st] assms(2) less by simp
  from sf obtain hd where hd: "q_handler q = Some hd" "handler_ReadContent e hd = Some (WEB_ReadContent e)" by (auto simp: sending_file_def)
  have mb: "p_sendMaxBlock ?r - p_bytesLeft ?r - 2 = 254 - p_bytesLeft ?r" using sf by (simp add: sending_file_def)
  have nochunk: "q_options q AND CGI_OPT_CHUNK_ENABLED = 0" using sf by (simp add: sending_file_def)
  have load: "CGI_LoadContentToSend e caller q g = Some (q2, set_files fs g, if m = 0 then 0 else 1)"
    using notend hd nochunk rd [folded q1_def] blit mb sb
    by (simp add: CGI_LoadContentToSend_def Let_def q2_def upd_resp_def)
  have bl: "p_bytesLeft (ctxResponse q2) = p_bytesLeft ?r + int m" by (simp add: q2_def q1_def read_stage_def)
  have "idx + m \<le> length content" using less by (simp add: m_def)
  have wait: "waiting q2 = waiting q @ take m (drop idx content)"
    using waiting_append [OF b(1) _ blit] l len b \<open>int m \<le> 254 - p_bytesLeft ?r\<close> bl by (simp add: waiting_def q2_def)
  have stg: "stage_of (Suc n) (idx + m) (length content) (p_dwOperStage (ctxResponse q1))"
    unfolding q1_def by (rule read_stage_of) (use st less assms(2) cs t \<open>idx + m \<le> length content\<close> in simp_all)
  have "serving e pcb h off before content (Suc n) q2 (set_files fs g)"
    unfolding serving_def
  proof (intro conjI exI [of _ "idx + m"])
    show "sending_file e pcb h q2"
      using sf blit by (simp add: sending_file_def q2_def q1_def read_stage_def upd_resp_def array_simps)
    show "written_on pcb (set_files fs g) @ waiting q2 = before @ take (idx + m) content"
      using w wait by (simp add: written_on_def set_files_def take_add)
  qed (use b bl stg f' t \<open>int m \<le> 254 - p_bytesLeft ?r\<close> \<open>idx + m \<le> length content\<close> in \<open>simp_all add: q2_def q1_def read_stage_def\<close>)
  then show ?thesis
    by (rule that [OF load]) (use bl i b in \<open>simp_all add: q2_def q1_def read_stage_def upd_resp_def set_files_def m_def nat_diff_distrib\<close>)
qed

section \<open>One event\<close>

lemma serving_Suc: "serving e pcb h off before content n q g \<Longrightarrow> serving e pcb h off before content (Suc n) q g"
  by (fastforce simp: serving_def stage_of_def split: if_splits)

lemma serving_sending: "serving e pcb h off before content n q g \<Longrightarrow> serving e pcb h off before content n (upd_resp (\<lambda>r. r\<lparr>p_sending := 1\<rparr>) q) g"
  by (simp add: serving_def sending_file_def upd_resp_def waiting_def)

lemma serving_body: "serving e pcb h off before content n q g \<Longrightarrow> serving e pcb h off before content n (q\<lparr>q_state := HTTP_STATE_SENDING_BODY\<rparr>) g"
  by (simp add: serving_def sending_file_def waiting_def)

text \<open>What is left of the connection when a write was refused.\<close>

definition broken_off :: "env \<Rightarrow> nat \<Rightarrow> bytes \<Rightarrow> bytes \<Rightarrow> REQUEST_CONTEXT \<Rightarrow> glob \<Rightarrow> bool" where
  "broken_off e pcb before content q g \<longleftrightarrow> q_state q = HTTP_STATE_REQUEST_END \<and> q_result q = - 500
     \<and> (\<exists>k. written_on pcb g @ waiting q = before @ take k content) \<and> (\<exists>cs b. e_write e cs b \<noteq> ERR_OK)
     \<and> (\<exists>ctx. p_appContext (ctxResponse q) = App_SSI ctx)"

lemma broken_offI:
  assumes "serving e pcb h off before content n q g" and "e_write e cs b \<noteq> ERR_OK"
  shows "broken_off e pcb before content (fail_send q) g"
  using assms by (auto simp: broken_off_def serving_def sending_file_def fail_send_def waiting_def)

lemma serving_flush:
  assumes s: "serving e pcb h off before content n q g"
  obtains q' g' err where "sendBuffered e q g = Some (q', g', err)" "serving e pcb h off before content n q' g'"
    "sent_frame q q'" "\<exists>cs. g' = g\<lparr>g_calls := g_calls g @ cs\<rparr>"
    "p_total2Send (ctxResponse q') + p_bytesLeft (ctxResponse q') = p_total2Send (ctxResponse q) + p_bytesLeft (ctxResponse q)"
    "err = ERR_OK \<longrightarrow> p_bytesLeft (ctxResponse q') = 0 \<or> e_sndbuf e (g_calls g') \<le> 0" "err = ERR_OK \<or> (\<exists>cs b. err = e_write e cs b)"
proof -
  have "q_pcb q = Some pcb" using s by (simp add: serving_def sending_file_def)
  from sendBuffered_spec [OF this serving_send_ok [OF s], of e g] obtain q' g' err where
    r: "sendBuffered e q g = Some (q', g', err)" "send_ok q'" "sent_frame q q'" "written_on pcb g' @ waiting q' = written_on pcb g @ waiting q"
    "p_total2Send (ctxResponse q') + p_bytesLeft (ctxResponse q') = p_total2Send (ctxResponse q) + p_bytesLeft (ctxResponse q)"
    "p_bytesLeft (ctxResponse q') \<le> p_bytesLeft (ctxResponse q)" "\<exists>cs. g' = g\<lparr>g_calls := g_calls g @ cs\<rparr>"
    "err = ERR_OK \<longrightarrow> p_bytesLeft (ctxResponse q') = 0 \<or> e_sndbuf e (g_calls g') \<le> 0" "err = ERR_OK \<or> (\<exists>cs b. err = e_write e cs b)" .
  from r(7) obtain cs where "g' = g\<lparr>g_calls := g_calls g @ cs\<rparr>" by blast
  from serving_sent [OF s r(3) this r(4) r(2) r(6)] r show ?thesis by (intro that)
qed

text \<open>With content left, the next block is read behind what waits, and both are sent.\<close>

lemma body_goes_on:
  assumes s: "serving e pcb h off before content n q g" and "Suc n < 2 ^ 32 - 1" and "q_state q = HTTP_STATE_SENDING_BODY"
    and "p_dwOperIndex (ctxResponse q) < int (length content)"
  defines "m \<equiv> min (length content - nat (p_dwOperIndex (ctxResponse q))) (254 - nat (p_bytesLeft (ctxResponse q)))"
  obtains (sent) q' g' where "send_body e caller q g = Some (q', g')" "serving e pcb h off before content (Suc n) q' g'"
      "q_state q' = HTTP_STATE_SENDING_BODY" "q_result q' = q_result q" "p_dwOperIndex (ctxResponse q') = p_dwOperIndex (ctxResponse q) + int m"
      "m = 0 \<longrightarrow> g_calls g' = g_calls g \<and> p_bytesLeft (ctxResponse q') = p_bytesLeft (ctxResponse q)"
      "m > 0 \<longrightarrow> p_bytesLeft (ctxResponse q') = 0 \<or> e_sndbuf e (g_calls g') \<le> 0"
      "p_total2Send (ctxResponse q') + p_bytesLeft (ctxResponse q') = p_total2Send (ctxResponse q) + p_bytesLeft (ctxResponse q) + int m"
      "p_totalSent (ctxResponse q') = p_totalSent (ctxResponse q)"
  | (refused) q' g' where "send_body e caller q g = Some (q', g')" "broken_off e pcb before content q' g'" "m > 0"
proof -
  from load_file [OF s assms(2,4), of caller, folded m_def] obtain q1 g1 m' where
    l: "CGI_LoadContentToSend e caller q g = Some (q1, g1, if m' = 0 then 0 else 1)"
      "serving e pcb h off before content (Suc n) q1 g1" "q_state q1 = q_state q" "q_result q1 = q_result q" "g_calls g1 = g_calls g"
      "m' = m" "p_bytesLeft (ctxResponse q1) = p_bytesLeft (ctxResponse q) + int m'"
      "p_dwOperIndex (ctxResponse q1) = p_dwOperIndex (ctxResponse q) + int m'" "p_total2Send (ctxResponse q1) = p_total2Send (ctxResponse q)"
      "p_totalSent (ctxResponse q1) = p_totalSent (ctxResponse q)" .
  show ?thesis
  proof (cases "m = 0")
    case True
    then have "send_body e caller q g = Some (q1, g1)" using assms(3) l(1,6) by (simp add: send_body_def)
    with True l assms(3) show ?thesis by (intro sent [of q1 g1]) simp_all
  next
    case False
    from serving_flush [OF l(2)] obtain q2 g2 err where f: "sendBuffered e q1 g1 = Some (q2, g2, err)" "serving e pcb h off before content (Suc n) q2 g2"
      "sent_frame q1 q2" "\<exists>cs. g2 = g1\<lparr>g_calls := g_calls g1 @ cs\<rparr>"
      "p_total2Send (ctxResponse q2) + p_bytesLeft (ctxResponse q2) = p_total2Send (ctxResponse q1) + p_bytesLeft (ctxResponse q1)"
      "err = ERR_OK \<longrightarrow> p_bytesLeft (ctxResponse q2) = 0 \<or> e_sndbuf e (g_calls g2) \<le> 0" "err = ERR_OK \<or> (\<exists>cs b. err = e_write e cs b)" .
    have b: "send_body e caller q g = Some (if err = ERR_OK then upd_resp (\<lambda>r. r\<lparr>p_sending := 1\<rparr>) q2 else fail_send q2, g2)"
      using False assms(3) l(1,6) f(1) by (simp add: send_body_def)
    show ?thesis
    proof (cases "err = ERR_OK")
      case True
      with b f l False assms(3) serving_sending [OF f(2)] show ?thesis
        by (intro sent [of "upd_resp (\<lambda>r. r\<lparr>p_sending := 1\<rparr>) q2" g2]) (simp_all add: sent_frameD [OF f(3)] upd_resp_def)
    next
      case False
      with f(7) obtain cs bs where "e_write e cs bs \<noteq> ERR_OK" by metis
      from broken_offI [OF f(2) this] b False \<open>m \<noteq> 0\<close> show ?thesis by (intro refused [of "fail_send q2" g2]) simp_all
    qed
  qed
qed

text \<open>With all content read, only the acknowledgement of everything sent ends the response.\<close>

definition all_acked :: "proc_caller \<Rightarrow> REQUEST_CONTEXT \<Rightarrow> bool" where
  "all_acked caller q \<longleftrightarrow> caller = HTTP_PROC_CALLER_SENT \<and> p_totalSent (ctxResponse q) \<ge> p_total2Send (ctxResponse q)"

lemma WEB_AllSent_frame:
  assumes "p_appContext (ctxResponse q) = App_SSI ctx"
  obtains q' g' where "WEB_AllSent q g = Some (q', g')" "g_calls g' = g_calls g" "q_result q' = q_result q" "q_state q' = q_state q"
    "waiting q' = waiting q" "\<exists>ctx. p_appContext (ctxResponse q') = App_SSI ctx"
  using assms that [of "fst (the (WEB_AllSent q g))" "snd (the (WEB_AllSent q g))"]
  by (simp add: WEB_AllSent_def set_ssi_def upd_resp_def set_files_def waiting_def)

lemma body_at_end:
  assumes s: "serving e pcb h off before content n q g" and "n < 2 ^ 32 - 1" and "q_state q = HTTP_STATE_SENDING_BODY"
    and "p_dwOperIndex (ctxResponse q) = int (length content)" and "p_bytesLeft (ctxResponse q) = 0"
  obtains (quiet) "\<not> all_acked caller q" "send_body e caller q g = Some (q, g)"
  | (finished) q' g' where "all_acked caller q" "send_body e caller q g = Some (q', g')" "q_state q' = HTTP_STATE_REQUEST_END" "q_result q' = q_result q"
      "written_on pcb g' = before @ content" "g_calls g' = g_calls g" "\<exists>ctx. p_appContext (ctxResponse q') = App_SSI ctx"
proof -
  let ?r = "ctxResponse q"
  from s assms(4) have sf: "sending_file e pcb h q" and st: "stage_of n (length content) (length content) (p_dwOperStage ?r)"
    and w: "written_on pcb g @ waiting q = before @ content" by (auto simp: serving_def)
  from assms(5) w have w: "written_on pcb g = before @ content" by (simp add: waiting_def)
  from st have stage: "p_dwOperStage ?r = STAGE_END" by (simp add: stage_of_def)
  from sf obtain hd ctx where hd: "q_handler q = Some hd" "handler_ReadContent e hd = Some (WEB_ReadContent e)" "handler_OnAllSent hd = WEB_AllSent"
    and ctx: "p_appContext ?r = App_SSI ctx" by (auto simp: sending_file_def fun_eq_iff)
  have meth: "q_requestMethod q = METHOD_GET \<or> q_requestMethod q = METHOD_POST" using sf by (simp add: sending_file_def)
  show ?thesis
  proof (cases "all_acked caller q")
    case True
    from WEB_AllSent_frame [OF ctx, of g] obtain q' g' where a: "WEB_AllSent q g = Some (q', g')" "g_calls g' = g_calls g"
      "q_result q' = q_result q" "q_state q' = q_state q" "waiting q' = waiting q" "\<exists>ctx. p_appContext (ctxResponse q') = App_SSI ctx" .
    have "CGI_LoadContentToSend e caller q g = Some (q', g', - 1)"
      using True meth stage hd a(1) by (simp add: CGI_LoadContentToSend_def all_acked_def Let_def)
    then have "send_body e caller q g = Some (q'\<lparr>q_state := HTTP_STATE_REQUEST_END\<rparr>, g')" using assms(3) by (simp add: send_body_def)
    then show ?thesis using True a w
      by (intro finished [of "q'\<lparr>q_state := HTTP_STATE_REQUEST_END\<rparr>" g']) (simp_all add: written_on_def)
  next
    case False
    have "CGI_LoadContentToSend e caller q g = Some (q, g, 0)"
      using False meth stage hd by (auto simp: CGI_LoadContentToSend_def all_acked_def Let_def)
    then show ?thesis using assms(3) False by (intro quiet) (simp_all add: send_body_def)
  qed
qed

text \<open>The response procedure on such a connection: flush first, or go on with the body.\<close>

lemma must_flush_serving:
  assumes "serving e pcb h off before content n q g"
  shows "must_flush e q g = Some (p_bytesLeft (ctxResponse q) > 0
    \<and> (p_dwOperStage (ctxResponse q) = STAGE_END \<or> p_bytesLeft (ctxResponse q) \<ge> e_sndbuf e (g_calls g)))"
  using assms by (auto simp: must_flush_def serving_def sending_file_def Let_def)

definition enter_body :: "proc_caller \<Rightarrow> REQUEST_CONTEXT \<Rightarrow> REQUEST_CONTEXT" where
  "enter_body caller q = (if q_state q = HTTP_STATE_SENDING_HEADER \<and> caller = HTTP_PROC_CALLER_SENT
     then q\<lparr>q_state := HTTP_STATE_SENDING_BODY\<rparr> else q)"

lemma HttpResponseProc_serving:
  assumes s: "serving e pcb h off before content n q g"
  shows "HttpResponseProc e caller q g =
    (if p_bytesLeft (ctxResponse q) > 0 \<and> (p_dwOperStage (ctxResponse q) = STAGE_END \<or> p_bytesLeft (ctxResponse q) \<ge> e_sndbuf e (g_calls g))
     then do { (q, g, err) \<leftarrow> sendBuffered e q g; Some (if err \<noteq> ERR_OK then fail_send q else q, g) }
     else send_body e caller (enter_body caller q) g)"
proof -
  have "sending_file e pcb h q" using s by (simp add: serving_def)
  then have "q_state q = HTTP_STATE_SENDING_HEADER \<or> q_state q = HTTP_STATE_SENDING_BODY" "q_result q > 0" "p_sending (ctxResponse q) \<noteq> 0"
    by (simp_all add: sending_file_def)
  then show ?thesis using must_flush_serving [OF s] by (auto simp: HttpResponseProc_def enter_body_def)
qed

lemma serving_enter: "serving e pcb h off before content n q g \<Longrightarrow> serving e pcb h off before content n (enter_body caller q) g"
  by (simp add: enter_body_def serving_body)

text \<open>An event leaves the connection sending, with the reply complete, or broken off.\<close>

lemma response_step:
  assumes s: "serving e pcb h off before content n q g" and n: "Suc n < 2 ^ 32 - 1"
  obtains (goes_on) q' g' where "HttpResponseProc e caller q g = Some (q', g')" "serving e pcb h off before content (Suc n) q' g'"
  | (complete) q' g' where "HttpResponseProc e caller q g = Some (q', g')" "q_state q' = HTTP_STATE_REQUEST_END" "q_result q' = q_result q"
      "written_on pcb g' = before @ content" "\<exists>ctx. p_appContext (ctxResponse q') = App_SSI ctx"
  | (refused) q' g' where "HttpResponseProc e caller q g = Some (q', g')" "broken_off e pcb before content q' g'"
proof (cases "p_bytesLeft (ctxResponse q) > 0
    \<and> (p_dwOperStage (ctxResponse q) = STAGE_END \<or> p_bytesLeft (ctxResponse q) \<ge> e_sndbuf e (g_calls g))")
  case True
  from serving_flush [OF s] obtain q' g' err where f: "sendBuffered e q g = Some (q', g', err)" "serving e pcb h off before content n q' g'"
    "sent_frame q q'" "\<exists>cs. g' = g\<lparr>g_calls := g_calls g @ cs\<rparr>"
    "p_total2Send (ctxResponse q') + p_bytesLeft (ctxResponse q') = p_total2Send (ctxResponse q) + p_bytesLeft (ctxResponse q)"
    "err = ERR_OK \<longrightarrow> p_bytesLeft (ctxResponse q') = 0 \<or> e_sndbuf e (g_calls g') \<le> 0" "err = ERR_OK \<or> (\<exists>cs b. err = e_write e cs b)" .
  have r: "HttpResponseProc e caller q g = Some (if err \<noteq> ERR_OK then fail_send q' else q', g')"
    using HttpResponseProc_serving [OF s] True f(1) by simp
  show ?thesis
  proof (cases "err = ERR_OK")
    case True
    with r serving_Suc [OF f(2)] show ?thesis by (intro goes_on [of q' g']) simp_all
  next
    case False
    with f(7) obtain cs b where "e_write e cs b \<noteq> ERR_OK" by metis
    from broken_offI [OF f(2) this] r False show ?thesis by (intro refused [of "fail_send q'" g']) simp_all
  qed
next
  case False
  define q1 where "q1 = enter_body caller q"
  have s1: "serving e pcb h off before content n q1 g" unfolding q1_def by (rule serving_enter [OF s])
  have r: "HttpResponseProc e caller q g = send_body e caller q1 g"
    using HttpResponseProc_serving [OF s] False by (simp add: q1_def)
  have same: "q_result q1 = q_result q" "ctxResponse q1 = ctxResponse q" by (simp_all add: q1_def enter_body_def)
  show ?thesis
  proof (cases "q_state q1 = HTTP_STATE_SENDING_BODY")
    case False
    then have "send_body e caller q1 g = Some (q1, g)" by (simp add: send_body_def)
    with r serving_Suc [OF s1] show ?thesis by (intro goes_on [of q1 g]) simp_all
  next
    case body: True
    from s1 obtain idx where idx: "p_dwOperIndex (ctxResponse q1) = int idx" "idx \<le> length content"
      "stage_of n idx (length content) (p_dwOperStage (ctxResponse q1))" by (auto simp: serving_def)
    show ?thesis
    proof (cases "idx = length content")
      case True
      then have "p_dwOperStage (ctxResponse q) = STAGE_END" using idx same by (simp add: stage_of_def)
      with False same have b: "p_bytesLeft (ctxResponse q1) = 0" using s by (simp add: serving_def)
      have "n < 2 ^ 32 - 1" and i: "p_dwOperIndex (ctxResponse q1) = int (length content)" using n True idx(1) by simp_all
      from s1 this(1) body i b show ?thesis
      proof (cases rule: body_at_end [where caller = caller])
        case quiet
        with r serving_Suc [OF s1] show ?thesis by (intro goes_on [of q1 g]) simp_all
      next
        case (finished q' g')
        with r same show ?thesis by (intro complete [of q' g']) simp_all
      qed
    next
      case False
      then have "p_dwOperIndex (ctxResponse q1) < int (length content)" using idx by simp
      from body_goes_on [OF s1 n body this, of caller] goes_on refused r show ?thesis by metis
    qed
  qed
qed

section \<open>The callbacks of the connection\<close>

text \<open>The end of a request writes nothing and leaves the slot idle.\<close>

lemma write_on_other [simp]: "map (write_on pcb) (detach_calls p) = [[], [], []]"
  by (simp add: detach_calls_def)

lemma CGI_Finish_SSI:
  assumes "p_appContext (ctxResponse q) = App_SSI ctx"
  obtains q' g' where "CGI_Finish q g = Some (q', g')" "g_calls g' = g_calls g" "q_reqBufList q' = q_reqBufList q"
proof -
  have "CGI_Finish q g \<noteq> None"
    using assms by (cases "q_handler q"; cases "the (q_handler q)") (simp_all add: CGI_Finish_def WEB_Finished_def)
  then obtain q' g' where "CGI_Finish q g = Some (q', g')" by (metis not_Some_eq surj_pair)
  with CGI_Finish_frame [OF this] show ?thesis by (intro that)
qed

lemma CloseHttpContext_ends:
  assumes "\<exists>ctx. p_appContext (ctxResponse q) = App_SSI ctx"
  obtains q' g' where "CloseHttpContext e q g = Some (q', g')" "q_state q' = HTTP_STATE_IDLE" "q_result q' = 0"
    "written_on pcb g' = written_on pcb g"
proof -
  from assms obtain ctx where a: "p_appContext (ctxResponse q) = App_SSI ctx" by blast
  define q1 g1 where "q1 = fst (case q_pcb q of None \<Rightarrow> (q, g) | Some pcb \<Rightarrow>
       (let g = calls (detach_calls pcb) g; err = e_close e (g_calls g); g = call (Altcp_close pcb) g
        in if err \<noteq> ERR_OK then (q, call (Altcp_poll pcb True) g) else (q\<lparr>q_pcb := None, q_peer_closing := 0\<rparr>, g)))"
    and "g1 = snd (case q_pcb q of None \<Rightarrow> (q, g) | Some pcb \<Rightarrow>
       (let g = calls (detach_calls pcb) g; err = e_close e (g_calls g); g = call (Altcp_close pcb) g
        in if err \<noteq> ERR_OK then (q, call (Altcp_poll pcb True) g) else (q\<lparr>q_pcb := None, q_peer_closing := 0\<rparr>, g)))"
  have w: "written_on pcb g1 = written_on pcb g"
    by (cases "q_pcb q") (simp_all add: g1_def Let_def written_on_def calls_def call_def)
  have "ctxResponse q1 = ctxResponse q" by (cases "q_pcb q") (simp_all add: q1_def Let_def)
  with a have "p_appContext (ctxResponse q1) = App_SSI ctx" by simp
  from CGI_Finish_SSI [OF this, of g1] obtain q2 g2 where f: "CGI_Finish q1 g1 = Some (q2, g2)" "g_calls g2 = g_calls g1" by blast
  then obtain q3 g3 where r: "FreeHttpContext q1 g1 = Some (q3, g3)" by (simp add: FreeHttpContext_def Let_def)
  have "q_state q3 = HTTP_STATE_IDLE \<and> q_result q3 = 0"
    using r unfolding FreeHttpContext_def f(1) bind.bind_lunit Let_def prod.case option.inject prod.inject by (elim conjE, hypsubst) simp
  moreover from FreeHttpContext_released [OF r] w have "written_on pcb g3 = written_on pcb g"
    by (auto simp: written_on_def split: if_splits)
  moreover have "CloseHttpContext e q g = Some (q3, PrintLwipStatus g3)"
    using r by (simp add: CloseHttpContext_def q1_def g1_def split_beta)
  ultimately show ?thesis by (intro that [of q3 "PrintLwipStatus g3"]) (simp_all add: PrintLwipStatus_def call_def written_on_def)
qed

lemma end_request_ends:
  assumes "\<exists>ctx. p_appContext (ctxResponse q) = App_SSI ctx"
  obtains q' g' where "end_request e q g = Some (q', g')" "q_state q' = HTTP_STATE_IDLE" "q_result q' = 0"
    "written_on pcb g' = written_on pcb g"
proof -
  from CloseHttpContext_ends [OF assms, of e g pcb] obtain q1 g1 where c: "CloseHttpContext e q g = Some (q1, g1)" "q_state q1 = HTTP_STATE_IDLE"
    "q_result q1 = 0" "written_on pcb g1 = written_on pcb g" .
  show ?thesis
  proof (cases "q_peer_closing q \<le> 0 \<and> q_keepalive q > 0")
    case True
    then have "end_request e q g = Some (ResetHttpContext q g)" by (simp add: end_request_def)
    then show ?thesis
      by (intro that [of "fst (ResetHttpContext q g)" "snd (ResetHttpContext q g)"])
        (simp_all add: ResetHttpContext_def close_file_def set_files_def written_on_def)
  next
    case False
    with c show ?thesis by (intro that [of q1 g1]) (auto simp: end_request_def)
  qed
qed

lemma HttpRequestProc_sending:
  assumes "q_state q = HTTP_STATE_SENDING_HEADER \<or> q_state q = HTTP_STATE_SENDING_BODY"
  shows "HttpRequestProc e caller q g = do {
     (q, g) \<leftarrow> HttpResponseProc e caller q g;
     if q_state q = HTTP_STATE_REQUEST_END then end_request e q g else Some (q, g) }"
  using assms by (auto simp: HttpRequestProc_def loop_fuel_def)

text \<open>The slot afterwards: still sending, or idle again with the reply complete or a write refused.\<close>

definition slot_after :: "env \<Rightarrow> nat \<Rightarrow> nat \<Rightarrow> nat \<Rightarrow> bytes \<Rightarrow> bytes \<Rightarrow> nat \<Rightarrow> REQUEST_CONTEXT \<Rightarrow> glob \<Rightarrow> bool" where
  "slot_after e pcb h off before content n q g \<longleftrightarrow>
     serving e pcb h off before content n q g
     \<or> q_state q = HTTP_STATE_IDLE \<and> (written_on pcb g = before @ content \<or> (\<exists>cs b. e_write e cs b \<noteq> ERR_OK))"

lemma request_event:
  assumes s: "serving e pcb h off before content n q g" and n: "Suc n < 2 ^ 32 - 1"
  shows "\<exists>q' g'. HttpRequestProc e caller q g = Some (q', g') \<and> q_result q' \<ge> 0
    \<and> slot_after e pcb h off before content (Suc n) q' g'"
proof -
  have sf: "sending_file e pcb h q" using s by (simp add: serving_def)
  then have p: "HttpRequestProc e caller q g = do {
     (q, g) \<leftarrow> HttpResponseProc e caller q g;
     if q_state q = HTTP_STATE_REQUEST_END then end_request e q g else Some (q, g) }"
    by (intro HttpRequestProc_sending) (simp add: sending_file_def)
  from s n show ?thesis
  proof (cases rule: response_step [where caller = caller])
    case (goes_on q1 g1)
    then have "sending_file e pcb h q1" by (simp add: serving_def)
    then have "q_state q1 \<noteq> HTTP_STATE_REQUEST_END" "q_result q1 > 0" by (auto simp: sending_file_def)
    then show ?thesis using p goes_on
      by (intro exI [of _ q1] exI [of _ g1]) (simp add: slot_after_def)
  next
    case (complete q1 g1)
    from end_request_ends [OF complete(5), of e g1 pcb] obtain q2 g2 where "end_request e q1 g1 = Some (q2, g2)"
      "q_state q2 = HTTP_STATE_IDLE" "q_result q2 = 0" "written_on pcb g2 = written_on pcb g1" .
    with p complete show ?thesis
      by (intro exI [of _ q2] exI [of _ g2]) (simp add: slot_after_def)
  next
    case (refused q1 g1)
    then have b: "q_state q1 = HTTP_STATE_REQUEST_END" "\<exists>cs b. e_write e cs b \<noteq> ERR_OK" "\<exists>ctx. p_appContext (ctxResponse q1) = App_SSI ctx"
      by (simp_all add: broken_off_def)
    from end_request_ends [OF b(3), of e g1 pcb] obtain q2 g2 where "end_request e q1 g1 = Some (q2, g2)"
      "q_state q2 = HTTP_STATE_IDLE" "q_result q2 = 0" .
    with p refused b show ?thesis
      by (intro exI [of _ q2] exI [of _ g2]) (simp add: slot_after_def)
  qed
qed

section \<open>Events of the stack\<close>

text \<open>
  What the other connections and the application may do between two events of this one:
  anything that leaves its writes and its file handle alone.
\<close>

definition elsewhere :: "env \<Rightarrow> nat \<Rightarrow> nat \<Rightarrow> glob \<Rightarrow> glob \<Rightarrow> bool" where
  "elsewhere e pcb h g g' \<longleftrightarrow> written_on pcb g' = written_on pcb g \<and> files_inv e (g_FileOpened g') \<and> h \<in> in_use (g_FileOpened g')
     \<and> handle_content e (g_FileOpened g') h = handle_content e (g_FileOpened g) h \<and> handle_pos (g_FileOpened g') h = handle_pos (g_FileOpened g) h"

text \<open>
  The states of the server while the reply of slot \<open>i\<close> is under way, with the number of
  callbacks of this connection so far: data acknowledged, a poll, data or the end of the stream
  received, and steps elsewhere. The number of acknowledged bytes is what the stack says.
\<close>

inductive delivering :: "env \<Rightarrow> nat \<Rightarrow> nat \<Rightarrow> nat \<Rightarrow> server \<Rightarrow> nat \<Rightarrow> server \<Rightarrow> bool" for e pcb i h s0 where
  deliver_start: "delivering e pcb i h s0 0 s0"
| deliver_sent: "delivering e pcb i h s0 n s \<Longrightarrow> OnHttpSent e (Some i) pcb len s = Some (s', err)
    \<Longrightarrow> q_state (fst s' ! i) \<noteq> HTTP_STATE_IDLE \<Longrightarrow> delivering e pcb i h s0 (Suc n) s'"
| deliver_poll: "delivering e pcb i h s0 n s \<Longrightarrow> OnHttpPoll e (Some i) pcb s = Some (s', err)
    \<Longrightarrow> q_state (fst s' ! i) \<noteq> HTTP_STATE_IDLE \<Longrightarrow> delivering e pcb i h s0 (Suc n) s'"
| deliver_received: "delivering e pcb i h s0 n s \<Longrightarrow> OnHttpReceive e (Some i) pcb p s = Some (s', err)
    \<Longrightarrow> q_state (fst s' ! i) \<noteq> HTTP_STATE_IDLE \<Longrightarrow> delivering e pcb i h s0 (Suc n) s'"
| deliver_elsewhere: "delivering e pcb i h s0 n s \<Longrightarrow> elsewhere e pcb h (snd s) g' \<Longrightarrow> length cs' = length (fst s)
    \<Longrightarrow> cs' ! i = fst s ! i \<Longrightarrow> delivering e pcb i h s0 n (cs', g')"

lemma serving_elsewhere:
  assumes "serving e pcb h off before content n q g" and "elsewhere e pcb h g g'"
  shows "serving e pcb h off before content n q g'"
  using assms by (auto simp: serving_def elsewhere_def file_at_def)

text \<open>Fields that a callback changes before the request procedure runs.\<close>

lemma serving_session: "serving e pcb h off before content n q g \<Longrightarrow> serving e pcb h off before content n q (g\<lparr>g_httpSessions := ss\<rparr>)"
  by (simp add: serving_def file_at_def written_on_def)

lemma serving_acked: "serving e pcb h off before content n q g
    \<Longrightarrow> serving e pcb h off before content n (upd_resp (\<lambda>r. r\<lparr>p_totalSent := k\<rparr>) q) g"
  by (simp add: serving_def sending_file_def upd_resp_def waiting_def)

lemma serving_rx: "serving e pcb h off before content n q g
    \<Longrightarrow> serving e pcb h off before content n (q\<lparr>q_reqBufList := l\<rparr>) g
      \<and> serving e pcb h off before content n (q\<lparr>q_peer_closing := k\<rparr>) g
      \<and> serving e pcb h off before content n (q\<lparr>q_tLastReceived := t\<rparr>) g
      \<and> serving e pcb h off before content n (q\<lparr>q_http_request_buffer := a, q_request_length := k\<rparr>) g"
  by (simp add: serving_def sending_file_def waiting_def)

lemma serving_calls:
  assumes "serving e pcb h off before content n q g" and "concat (map (write_on pcb) xs) = []"
  shows "serving e pcb h off before content n q (calls xs g)"
proof -
  have "written_on pcb (calls xs g) = written_on pcb g" using assms(2) unfolding written_on_def calls_def by simp
  moreover have "g_FileOpened (calls xs g) = g_FileOpened g" by (simp add: calls_def)
  ultimately show ?thesis using assms(1) by (simp add: serving_def file_at_def)
qed

text \<open>The three callbacks: each is the request procedure behind some bookkeeping.\<close>

lemma OnHttpSent_event:
  assumes "i < length cs" and s: "serving e pcb h off before content n (cs ! i) g" and n: "Suc n < 2 ^ 32 - 1"
  shows "\<exists>q g'. OnHttpSent e (Some i) pcb len (cs, g) = Some ((cs[i := q], g'), ERR_OK)
    \<and> slot_after e pcb h off before content (Suc n) q g'"
proof -
  define g1 where "g1 = (if q_checkAlive (cs ! i) = 0
    then g\<lparr>g_httpSessions := SessionSent (g_now g) (q_session (cs ! i)) (g_httpSessions g)\<rparr> else g)"
  define q1 where "q1 = upd_resp (\<lambda>r. r\<lparr>p_totalSent := p_totalSent r + int len\<rparr>) (cs ! i)"
  have "q1 = upd_resp (\<lambda>r. r\<lparr>p_totalSent := p_totalSent (ctxResponse (cs ! i)) + int len\<rparr>) (cs ! i)" by (simp add: q1_def upd_resp_def)
  with serving_acked serving_session s have "serving e pcb h off before content n q1 g1" by (simp add: g1_def)
  from request_event [OF this n, of HTTP_PROC_CALLER_SENT] obtain q2 g2 where
    "HttpRequestProc e HTTP_PROC_CALLER_SENT q1 g1 = Some (q2, g2)" "q_result q2 \<ge> 0"
    "slot_after e pcb h off before content (Suc n) q2 g2" by blast
  then show ?thesis
    by (intro exI [of _ q2] exI [of _ g2]) (simp add: OnHttpSent_def after_event_def Let_def g1_def [symmetric] q1_def [symmetric])
qed

lemma OnHttpPoll_event:
  assumes "i < length cs" and s: "serving e pcb h off before content n (cs ! i) g" and n: "Suc n < 2 ^ 32 - 1"
  shows "\<exists>q g'. OnHttpPoll e (Some i) pcb (cs, g) = Some ((cs[i := q], g'), ERR_OK)
    \<and> (if IsContextTimeout (cs ! i) g then q_state q = HTTP_STATE_IDLE \<and> written_on pcb g' = written_on pcb g
       else slot_after e pcb h off before content (Suc n) q g')"
proof (cases "IsContextTimeout (cs ! i) g")
  case True
  from s have "\<exists>ctx. p_appContext (ctxResponse (cs ! i)) = App_SSI ctx" by (auto simp: serving_def sending_file_def)
  then have "\<exists>ctx. p_appContext (ctxResponse (CGI_Cancel (cs ! i))) = App_SSI ctx" by (simp add: CGI_Cancel_keeps)
  from CloseHttpContext_ends [OF this, of e g pcb] obtain q g' where "CloseHttpContext e (CGI_Cancel (cs ! i)) g = Some (q, g')"
    "q_state q = HTTP_STATE_IDLE" "q_result q = 0" "written_on pcb g' = written_on pcb g" .
  with True show ?thesis by (intro exI [of _ q] exI [of _ g']) (simp add: OnHttpPoll_def Let_def)
next
  case False
  from request_event [OF s n, of HTTP_PROC_CALLER_POLL] obtain q1 g1 where
    "HttpRequestProc e HTTP_PROC_CALLER_POLL (cs ! i) g = Some (q1, g1)" "q_result q1 \<ge> 0"
    "slot_after e pcb h off before content (Suc n) q1 g1" by blast
  with False show ?thesis by (intro exI [of _ q1] exI [of _ g1]) (simp add: OnHttpPoll_def after_event_def Let_def)
qed

lemma if_split_SomeE: "(if b then x else y) = Some z \<Longrightarrow> (b \<Longrightarrow> x = Some z \<Longrightarrow> P) \<Longrightarrow> (\<not> b \<Longrightarrow> y = Some z \<Longrightarrow> P) \<Longrightarrow> P"
  by (cases b) simp_all

lemma receive_pbuf_serving:
  assumes "receive_pbuf p0 p q g = Some (q', g')" and "serving e pcb h off before content n q g"
  shows "serving e pcb h off before content n q' g'"
proof -
  note rx = serving_rx [OF assms(2)]
  consider l where "(q', g') = (q\<lparr>q_reqBufList := l\<rparr>, g)"
    | "append_rx (concat p) q = Some q'" "g' = calls [Altcp_recved p0 (length (concat p)), Pbuf_free (concat p)] g"
    using assms(1) unfolding receive_pbuf_def Let_def
    by (elim if_split_SomeE) (simp_all add: bind_eq_Some_conv, metis+)
  then show ?thesis
  proof cases
    case 1
    with rx show ?thesis by simp
  next
    case 2
    then obtain a k where "q' = q\<lparr>q_http_request_buffer := a, q_request_length := k\<rparr>"
      unfolding append_rx_def Let_def bind_eq_Some_conv by (elim exE conjE) (simp, metis)
    with rx have "serving e pcb h off before content n q' g" by blast
    then show ?thesis unfolding 2(2) by (rule serving_calls) simp
  qed
qed

lemma serving_received:
  assumes "serving e pcb h off before content n q g"
  shows "serving e pcb h off before content n (q\<lparr>q_tLastReceived := t\<rparr>) g"
    "serving e pcb h off before content n (q\<lparr>q_peer_closing := k, q_tLastReceived := t\<rparr>) g"
  using assms by (simp_all add: serving_def sending_file_def waiting_def)

lemma slot_after_session: "slot_after e pcb h off before content n q g \<Longrightarrow> slot_after e pcb h off before content n q (g\<lparr>g_httpSessions := ss\<rparr>)"
  by (auto simp: slot_after_def serving_session written_on_def)

lemma OnHttpReceive_event:
  assumes r: "OnHttpReceive e (Some i) pcb p (cs, g) = Some (s', err)" and "i < length cs"
    and s: "serving e pcb h off before content n (cs ! i) g" and n: "Suc n < 2 ^ 32 - 1"
  shows "\<exists>q g'. s' = (cs[i := q], g') \<and> slot_after e pcb h off before content (Suc n) q g'"
proof -
  let ?q = "cs ! i"
  define q1 where "q1 = (if p = None then ?q\<lparr>q_peer_closing := 1\<rparr> else ?q)\<lparr>q_tLastReceived := tick_stamp (g_now g)\<rparr>"
  have s1: "serving e pcb h off before content n q1 g" using serving_received [OF s] by (simp add: q1_def)
  have "q_state ?q \<noteq> HTTP_STATE_IDLE" using s by (auto simp: serving_def sending_file_def)
  with r have "(do {
      (q, g) \<leftarrow> (case p of None \<Rightarrow> Some (q1, g) | Some p \<Rightarrow> receive_pbuf pcb p q1 g);
      (q, g) \<leftarrow> HttpRequestProc e HTTP_PROC_CALLER_RECV q g;
      (q, g) \<leftarrow> after_receive e q g;
      Some (put i cs (q, g), ERR_OK) }) = Some (s', err)"
    unfolding q1_def by (simp add: OnHttpReceive_def Let_def)
  then obtain q2 g2 q3 g3 q4 g4 where
    2: "(case p of None \<Rightarrow> Some (q1, g) | Some p \<Rightarrow> receive_pbuf pcb p q1 g) = Some (q2, g2)"
    and 3: "HttpRequestProc e HTTP_PROC_CALLER_RECV q2 g2 = Some (q3, g3)" and 4: "after_receive e q3 g3 = Some (q4, g4)"
    and s': "s' = (cs[i := q4], g4)"
    by (auto simp: bind_eq_Some_conv)
  have "serving e pcb h off before content n q2 g2"
    using 2 s1 receive_pbuf_serving by (cases p) auto
  from request_event [OF this n, of HTTP_PROC_CALLER_RECV] 3 have "q_result q3 \<ge> 0" and a: "slot_after e pcb h off before content (Suc n) q3 g3" by auto
  with 4 have "q4 = q3" "g4 = g3 \<or> (\<exists>ss. g4 = g3\<lparr>g_httpSessions := ss\<rparr>)" by (auto simp: after_receive_def Let_def split: if_splits)
  with a slot_after_session s' show ?thesis by blast
qed

text \<open>So the slot keeps sending as long as it is not idle again.\<close>

lemma delivering_serving:
  assumes "delivering e pcb i h s0 n s" and "i < length (fst s0)" and "serving e pcb h off before content 0 (fst s0 ! i) (snd s0)"
    and "n < 2 ^ 32 - 1"
  shows "length (fst s) = length (fst s0) \<and> serving e pcb h off before content n (fst s ! i) (snd s)"
  using assms(1,4)
proof (induction rule: delivering.induct)
  case (deliver_sent n s len s' err)
  then have "i < length (fst s)" "serving e pcb h off before content n (fst s ! i) (snd s)" using assms(2) by simp_all
  from OnHttpSent_event [OF this deliver_sent.prems, of len] deliver_sent assms(2) show ?case by (auto simp: slot_after_def)
next
  case (deliver_poll n s s' err)
  then have "i < length (fst s)" "serving e pcb h off before content n (fst s ! i) (snd s)" using assms(2) by simp_all
  from OnHttpPoll_event [OF this deliver_poll.prems] deliver_poll assms(2) show ?case by (auto simp: slot_after_def split: if_splits)
next
  case (deliver_received n s p s' err)
  then have l: "i < length (fst s)" and v: "serving e pcb h off before content n (fst s ! i) (snd s)" using assms(2) by simp_all
  from OnHttpReceive_event [OF _ l v deliver_received.prems, of p s' err] deliver_received l show ?case by (auto simp: slot_after_def)
next
  case (deliver_elsewhere n s g' cs')
  then show ?case using serving_elsewhere by fastforce
qed (use assms in auto)

section \<open>A stack with room\<close>

text \<open>The stack acknowledges everything that was written and not yet acknowledged.\<close>

definition ack_all :: "env \<Rightarrow> nat \<Rightarrow> nat \<Rightarrow> server \<Rightarrow> server option" where
  "ack_all e i pcb s = map_option fst
     (OnHttpSent e (Some i) pcb (nat (p_total2Send (ctxResponse (fst s ! i)) - p_totalSent (ctxResponse (fst s ! i)))) s)"

primrec ack_times :: "nat \<Rightarrow> env \<Rightarrow> nat \<Rightarrow> nat \<Rightarrow> server \<Rightarrow> server option" where
  "ack_times 0 e i pcb s = Some s"
| "ack_times (Suc k) e i pcb s = do { s \<leftarrow> ack_all e i pcb s; ack_times k e i pcb s }"

definition has_room :: "env \<Rightarrow> bool" where
  "has_room e \<longleftrightarrow> (\<forall>cs. e_sndbuf e cs > 0) \<and> (\<forall>cs b. e_write e cs b = ERR_OK)"

text \<open>Nothing waits, and no more was acknowledged than was written.\<close>

definition drained :: "REQUEST_CONTEXT \<Rightarrow> bool" where
  "drained q \<longleftrightarrow> p_bytesLeft (ctxResponse q) = 0 \<and> p_totalSent (ctxResponse q) \<le> p_total2Send (ctxResponse q)"

lemma ack_all_eq:
  assumes "i < length cs" and "HttpRequestProc e HTTP_PROC_CALLER_SENT
      (upd_resp (\<lambda>r. r\<lparr>p_totalSent := p_total2Send r\<rparr>) (cs ! i)) (if q_checkAlive (cs ! i) = 0
        then g\<lparr>g_httpSessions := SessionSent (g_now g) (q_session (cs ! i)) (g_httpSessions g)\<rparr> else g) = Some (q', g')"
    and "drained (cs ! i)" and "q_result q' \<ge> 0"
  shows "ack_all e i pcb (cs, g) = Some (cs[i := q'], g')"
proof -
  let ?r = "ctxResponse (cs ! i)"
  have "p_totalSent ?r + int (nat (p_total2Send ?r - p_totalSent ?r)) = p_total2Send ?r" using assms(3) by (simp add: drained_def)
  then have "upd_resp (\<lambda>r. r\<lparr>p_totalSent := p_totalSent r + int (nat (p_total2Send ?r - p_totalSent ?r))\<rparr>) (cs ! i)
      = upd_resp (\<lambda>r. r\<lparr>p_totalSent := p_total2Send r\<rparr>) (cs ! i)" by (simp add: upd_resp_def)
  then show ?thesis using assms(1,2,4) by (simp add: ack_all_def OnHttpSent_def after_event_def Let_def)
qed

lemma serving_ack:
  assumes "i < length cs" and s: "serving e pcb h off before content n (cs ! i) g" and n: "Suc n < 2 ^ 32 - 1"
    and d: "drained (cs ! i)" and room: "has_room e" and idx: "p_dwOperIndex (ctxResponse (cs ! i)) = int idx"
  shows "\<exists>q g'. ack_all e i pcb (cs, g) = Some (cs[i := q], g')
    \<and> (if idx < length content
       then serving e pcb h off before content (Suc n) q g' \<and> drained q \<and> p_dwOperIndex (ctxResponse q) = int (min (length content) (idx + 254))
       else q_state q = HTTP_STATE_IDLE \<and> written_on pcb g' = before @ content)"
proof -
  define g1 where "g1 = (if q_checkAlive (cs ! i) = 0
        then g\<lparr>g_httpSessions := SessionSent (g_now g) (q_session (cs ! i)) (g_httpSessions g)\<rparr> else g)"
  define q1 where "q1 = upd_resp (\<lambda>r. r\<lparr>p_totalSent := p_total2Send r\<rparr>) (cs ! i)"
  have "q1 = upd_resp (\<lambda>r. r\<lparr>p_totalSent := p_total2Send (ctxResponse (cs ! i))\<rparr>) (cs ! i)" by (simp add: q1_def upd_resp_def)
  with serving_acked serving_session s have s1: "serving e pcb h off before content n q1 g1" by (simp add: g1_def)
  define q2 where "q2 = enter_body HTTP_PROC_CALLER_SENT q1"
  have s2: "serving e pcb h off before content n q2 g1" unfolding q2_def by (rule serving_enter [OF s1])
  have st: "q_state q1 = HTTP_STATE_SENDING_HEADER \<or> q_state q1 = HTTP_STATE_SENDING_BODY" using s1 by (simp add: serving_def sending_file_def)
  have body: "q_state q2 = HTTP_STATE_SENDING_BODY" using st by (auto simp: q2_def enter_body_def)
  have r: "ctxResponse q2 = (ctxResponse (cs ! i))\<lparr>p_totalSent := p_total2Send (ctxResponse (cs ! i))\<rparr>"
    by (simp add: q2_def enter_body_def q1_def upd_resp_def)
  have b0: "p_bytesLeft (ctxResponse q2) = 0" and i2: "p_dwOperIndex (ctxResponse q2) = int idx"
    and a2: "p_totalSent (ctxResponse q2) = p_total2Send (ctxResponse q2)" using d idx r by (simp_all add: drained_def)
  have "p_bytesLeft (ctxResponse q1) = 0" using d by (simp add: q1_def drained_def)
  then have proc: "HttpResponseProc e HTTP_PROC_CALLER_SENT q1 g1 = send_body e HTTP_PROC_CALLER_SENT q2 g1"
    using HttpResponseProc_serving [OF s1] by (simp add: q2_def)
  note p = HttpRequestProc_sending [OF st, of e HTTP_PROC_CALLER_SENT g1, unfolded proc]
  have le: "idx \<le> length content" using s idx by (auto simp: serving_def)
  show ?thesis
  proof (cases "idx < length content")
    case True
    then have less: "p_dwOperIndex (ctxResponse q2) < int (length content)" using i2 by simp
    from s2 n body less show ?thesis
    proof (cases rule: body_goes_on [where caller = HTTP_PROC_CALLER_SENT])
      case (sent q' g')
      have m: "min (length content - nat (p_dwOperIndex (ctxResponse q2))) (254 - nat (p_bytesLeft (ctxResponse q2))) = min (length content - idx) 254"
        using i2 b0 by simp
      note sent' = sent [unfolded m]
      have "e_sndbuf e (g_calls g') > 0" using room by (simp add: has_room_def)
      then have bl: "p_bytesLeft (ctxResponse q') = 0" using sent'(7) True by (simp add: not_le)
      have "drained q'" using bl sent'(8,9) b0 a2 by (simp add: drained_def)
      moreover have "p_dwOperIndex (ctxResponse q') = int (min (length content) (idx + 254))" 
        unfolding sent'(5) i2 using True by arith
      moreover have "q_result q' > 0" using sent'(2) by (simp add: serving_def sending_file_def)
      moreover have "HttpRequestProc e HTTP_PROC_CALLER_SENT q1 g1 = Some (q', g')" using p sent'(1,3) by simp
      moreover note ack_all_eq [where e = e and q' = q' and g' = g' and pcb = pcb and g = g, OF assms(1) _ d, folded g1_def q1_def]
      ultimately show ?thesis using sent'(2) True by (intro exI [of _ q'] exI [of _ g']) simp
    next
      case (refused q' g')
      then show ?thesis using room by (simp add: broken_off_def has_room_def)
    qed
  next
    case False
    then have i: "p_dwOperIndex (ctxResponse q2) = int (length content)" using i2 le by simp
    have "n < 2 ^ 32 - 1" using n by simp
    from s2 this body i b0 show ?thesis
    proof (cases rule: body_at_end [where caller = HTTP_PROC_CALLER_SENT])
      case quiet
      then show ?thesis using a2 by (simp add: all_acked_def)
    next
      case (finished q' g')
      from end_request_ends [OF finished(7), of e g' pcb] obtain q3 g3 where "end_request e q' g' = Some (q3, g3)"
        "q_state q3 = HTTP_STATE_IDLE" "q_result q3 = 0" "written_on pcb g3 = written_on pcb g'" .
      moreover from this finished p have "HttpRequestProc e HTTP_PROC_CALLER_SENT q1 g1 = Some (q3, g3)" by simp
      moreover note ack_all_eq [where e = e and q' = q3 and g' = g3 and pcb = pcb and g = g, OF assms(1) _ d, folded g1_def q1_def]
      ultimately show ?thesis using finished False by (intro exI [of _ q3] exI [of _ g3]) simp
    qed
  qed
qed

lemma ack_times_delivers:
  assumes "i < length cs" and "serving e pcb h off before content n (cs ! i) g" and "drained (cs ! i)" and "has_room e"
    and "p_dwOperIndex (ctxResponse (cs ! i)) = int idx" and "idx \<le> length content" and "n + k + 2 < 2 ^ 32 - 1"
    and "k = (length content - idx + 253) div 254"
  shows "\<exists>q g'. ack_times (Suc k) e i pcb (cs, g) = Some (cs[i := q], g') \<and> q_state q = HTTP_STATE_IDLE \<and> written_on pcb g' = before @ content"
  using assms
proof (induction k arbitrary: cs g n idx)
  case 0
  then have "idx = length content" by simp
  with serving_ack [OF 0(1,2) _ 0(3,4,5)] 0 show ?case by fastforce
next
  case (Suc k)
  have less: "idx < length content" using Suc.prems(6,8) by (cases "idx = length content") simp_all
  have "Suc n < 2 ^ 32 - 1" using Suc.prems(7) by simp
  from serving_ack [OF Suc.prems(1,2) this Suc.prems(3,4,5)] less obtain q g' where
    a: "ack_all e i pcb (cs, g) = Some (cs[i := q], g')" "serving e pcb h off before content (Suc n) q g'" "drained q"
      "p_dwOperIndex (ctxResponse q) = int (min (length content) (idx + 254))" by auto
  have k: "k = (length content - min (length content) (idx + 254) + 253) div 254"
  proof (cases "length content \<le> idx + 254")
    case True
    then have "length content - idx + 253 < 2 * 254" by simp
    then have "(length content - idx + 253) div 254 < 2" by (simp add: div_less_iff_less_mult)
    with Suc.prems(8) True show ?thesis by simp
  next
    case False
    then have "length content - idx + 253 = (length content - (idx + 254) + 253) + 254" by simp
    then have "(length content - idx + 253) div 254 = (length content - (idx + 254) + 253) div 254 + 1" by (simp only: div_add_self2)
    with Suc.prems(8) False show ?thesis by (simp add: min_def)
  qed
  have "cs[i := q] ! i = q" "i < length (cs[i := q])" using Suc.prems(1) by simp_all
  with Suc.IH [of "cs[i := q]" "Suc n" g' "min (length content) (idx + 254)"] a(2,3,4) Suc.prems(4,7) k
  have "\<exists>q' g''. ack_times (Suc k) e i pcb (cs[i := q], g') = Some ((cs[i := q])[i := q'], g'') \<and> q_state q' = HTTP_STATE_IDLE
    \<and> written_on pcb g'' = before @ content" by simp
  with a(1) show ?case by auto
qed

section \<open>From the request to the first byte\<close>

text \<open>An array that holds a C string, and what appending to it does.\<close>

definition holds :: "bytes \<Rightarrow> string \<Rightarrow> bool" where
  "holds a s \<longleftrightarrow> cstr a = s \<and> length a = MAX_SEND_BUF_SIZE"

lemma strcat_holds:
  assumes "holds a s" and "nul_free t" and "length s + length t < MAX_SEND_BUF_SIZE"
  obtains b where "strcat a t = Some b" "holds b (s @ t)"
proof -
  from assms(1,3) have "strcat a t \<noteq> None" unfolding strcat_defined by (simp add: holds_def)
  then obtain b where b: "strcat a t = Some b" by blast
  with assms cstr_strcat [OF b] length_strcat [OF b] show ?thesis by (intro that [of b]) (auto simp: holds_def)
qed

lemma strcpy_holds:
  assumes "length a = MAX_SEND_BUF_SIZE" and "nul_free t" and "length t < MAX_SEND_BUF_SIZE"
  obtains b where "strcpy_at a 0 t = Some b" "holds b t"
proof -
  have "strcpy_at a 0 t \<noteq> None" by (rule strcpy_at_defined [THEN iffD2]) (use assms in simp_all)
  then obtain b where b: "strcpy_at a 0 t = Some b" by blast
  with assms cstr_strcpy0 [OF b] length_strcpy_at [OF b] show ?thesis by (intro that [of b]) (auto simp: holds_def)
qed

text \<open>The header of a plain page, as a text.\<close>

definition page_lines :: "env \<Rightarrow> string \<Rightarrow> string \<Rightarrow> int \<Rightarrow> bool \<Rightarrow> string \<Rightarrow> string" where
  "page_lines e code ctype len gz modified =
     (let h = header_generic code ctype len (CONNECTION_HEADER e) @ (if gz then header_gzip else [])
                @ (if modified \<noteq> [] then modified else header_nocache)
      in h @ (if strstr h ''no-cache'' = None then ''Cache-Control: max-age=3600'' @ CRLF else []))"

definition page_header :: "env \<Rightarrow> string \<Rightarrow> string \<Rightarrow> int \<Rightarrow> bool \<Rightarrow> string \<Rightarrow> string" where
  "page_header e code ctype len gz modified =
     page_lines e code ctype len gz modified @ date_header e @ ''Server: '' @ SERVER_HEADER @ CRLF @ CRLF"

lemma CRLF_nul_free [simp]: "nul_free CRLF"
  by (simp add: CRLF_def)

lemma page_lines_nul_free:
  assumes "nul_free code" and "nul_free ctype" and "nul_free modified"
  shows "nul_free (page_lines e code ctype len gz modified)"
  using assms by (simp add: page_lines_def Let_def header_generic_def header_gzip_def header_nocache_def CONNECTION_HEADER_def)

lemma WEB_AppendHeaders_page:
  assumes ctx: "p_appContext (ctxResponse q) = App_SSI ctx" "ssi_ssi ctx = 0" and range: "q_rangeTo q \<le> q_rangeFrom q"
    and chunk: "q_options q AND CGI_OPT_CHUNK_ENABLED = 0" and ct: "GetContentType (cstr (q_extension q)) = Some ctype"
    and sb: "holds (p_sendBuffer (ctxResponse q)) []" and nf: "nul_free code" "nul_free ctype" "nul_free (ssi_lastModified ctx)"
    and lines: "lines = page_lines e code ctype (p_dwTotal (ctxResponse q)) (q_options q AND CGI_OPT_GZIP \<noteq> 0) (ssi_lastModified ctx)"
    and len: "length lines < MAX_SEND_BUF_SIZE"
  obtains sb' where "WEB_AppendHeaders e code q g = Some (upd_resp (\<lambda>r. r\<lparr>p_sendBuffer := sb'\<rparr>) q, g)" "holds sb' lines"
proof -
  let ?gz = "q_options q AND CGI_OPT_GZIP \<noteq> 0" and ?lm = "ssi_lastModified ctx"
  define h1 where "h1 = header_generic code ctype (p_dwTotal (ctxResponse q)) (CONNECTION_HEADER e)"
  define h2 where "h2 = h1 @ (if ?gz then header_gzip else [])"
  define h3 where "h3 = h2 @ (if ?lm \<noteq> [] then ?lm else header_nocache)"
  have nl: "nul_free lines" unfolding lines by (rule page_lines_nul_free [OF nf])
  have l: "lines = h3 @ (if strstr h3 ''no-cache'' = None then ''Cache-Control: max-age=3600'' @ CRLF else [])"
    by (simp add: lines page_lines_def Let_def h3_def h2_def h1_def)
  from len l have ln: "length h1 < MAX_SEND_BUF_SIZE" "length h2 < MAX_SEND_BUF_SIZE" "length h3 < MAX_SEND_BUF_SIZE" by (auto simp: h2_def h3_def)
  from nl l have n: "nul_free h1" "nul_free h2" "nul_free h3" by (auto simp: h2_def h3_def)
  from strcpy_holds [OF _ n(1) ln(1)] sb obtain b1 where b1: "strcpy_at (p_sendBuffer (ctxResponse q)) 0 h1 = Some b1" "holds b1 h1"
    by (auto simp: holds_def)
  obtain b2 where b2: "(if ?gz then strcat b1 header_gzip else Some b1) = Some b2" "holds b2 h2"
  proof (cases ?gz)
    case True
    have "nul_free header_gzip" using n(2) True by (simp add: h2_def)
    from strcat_holds [OF b1(2) this] ln(2) True obtain b where "strcat b1 header_gzip = Some b" "holds b h2" by (auto simp: h2_def)
    with True show ?thesis by (intro that) simp_all
  next
    case False
    with b1 show ?thesis by (intro that [of b1]) (simp_all add: h2_def)
  qed
  have "nul_free (if ?lm \<noteq> [] then ?lm else header_nocache)" using n(3) by (simp only: h3_def nul_free_simps)
  from strcat_holds [OF b2(2) this] ln(3) obtain b3 where b3: "strcat b2 (if ?lm \<noteq> [] then ?lm else header_nocache) = Some b3" "holds b3 h3"
    unfolding h3_def length_append by blast
  have c3: "cstr b3 = h3" using b3(2) by (simp add: holds_def)
  obtain b4 where b4: "(if strstr h3 ''no-cache'' = None then strcat b3 (''Cache-Control: max-age=3600'' @ CRLF) else Some b3) = Some b4" "holds b4 lines"
  proof (cases "strstr h3 ''no-cache'' = None")
    case True
    with l len nl strcat_holds [OF b3(2), of "''Cache-Control: max-age=3600'' @ CRLF"] obtain b where
      "strcat b3 (''Cache-Control: max-age=3600'' @ CRLF) = Some b" "holds b lines" by auto
    with True show ?thesis by (intro that) simp_all
  next
    case False
    with b3 l show ?thesis by (intro that [of b3]) auto
  qed
  have fresh: "cstr (p_sendBuffer (ctxResponse q)) = []" using sb by (simp add: holds_def)
  have "WEB_AppendHeaders e code q g = Some (upd_resp (\<lambda>r. r\<lparr>p_sendBuffer := b4\<rparr>) q, g)"
    unfolding WEB_AppendHeaders_def Let_def ctx(1) as_ssi_simps bind.bind_lunit ct fresh
    using range chunk b1(1) b2(1) b3(1) b4(1) c3 ctx(2) by (simp add: h1_def [symmetric])
  with b4(2) show ?thesis by (intro that)
qed

lemma status_line_OK: "status_line CODE_OK = ''200 OK''"
  by code_simp

lemma CGI_SetResponseHeaders_page:
  assumes ctx: "p_appContext (ctxResponse q) = App_SSI ctx" "ssi_ssi ctx = 0" and range: "q_rangeTo q \<le> q_rangeFrom q"
    and chunk: "q_options q AND CGI_OPT_CHUNK_ENABLED = 0" and ct: "GetContentType (cstr (q_extension q)) = Some ctype"
    and handler: "q_handler q = Some g_cgiWebApp" and result: "q_result q \<noteq> CODE_REDIRECT"
    and sb: "length (p_sendBuffer (ctxResponse q)) = MAX_SEND_BUF_SIZE"
    and nf: "nul_free code" "nul_free ctype" "nul_free (ssi_lastModified ctx)" "nul_free (e_clock e)"
    and header: "header = page_header e code ctype (p_dwTotal (ctxResponse q)) (q_options q AND CGI_OPT_GZIP \<noteq> 0) (ssi_lastModified ctx)"
    and len: "length header < MAX_SEND_BUF_SIZE"
  obtains sb' where "CGI_SetResponseHeaders e code q g
      = Some (upd_resp (\<lambda>r. r\<lparr>p_sendBuffer := sb', p_bytesLeft := int (length header)\<rparr>) q, g)" "holds sb' header"
proof -
  define lines where "lines = page_lines e code ctype (p_dwTotal (ctxResponse q)) (q_options q AND CGI_OPT_GZIP \<noteq> 0) (ssi_lastModified ctx)"
  have h: "header = lines @ date_header e @ ''Server: '' @ SERVER_HEADER @ CRLF @ CRLF" by (simp add: header page_header_def lines_def)
  have nl: "nul_free lines" unfolding lines_def by (rule page_lines_nul_free [OF nf(1-3)])
  let ?a = "(p_sendBuffer (ctxResponse q))[0 := NUL]"
  have "p_sendBuffer (ctxResponse q) \<noteq> []" using sb by auto
  then have a: "poke (p_sendBuffer (ctxResponse q)) 0 NUL = Some ?a" "holds ?a []"
    using sb by (auto simp: in_arr_def holds_def neq_Nil_conv)
  let ?q = "upd_resp (\<lambda>r. r\<lparr>p_sendBuffer := ?a\<rparr>) q"
  have q: "ctxResponse ?q = (ctxResponse q)\<lparr>p_sendBuffer := ?a\<rparr>" "q_rangeTo ?q = q_rangeTo q" "q_rangeFrom ?q = q_rangeFrom q"
    "q_options ?q = q_options q" "q_extension ?q = q_extension q" by (simp_all add: upd_resp_def)
  have llen: "length lines < MAX_SEND_BUF_SIZE" using len h by simp
  obtain b0 where b0: "WEB_AppendHeaders e code ?q g = Some (upd_resp (\<lambda>r. r\<lparr>p_sendBuffer := b0\<rparr>) ?q, g)" "holds b0 lines"
    by (rule WEB_AppendHeaders_page [of ?q ctx ctype code lines e g])
      (use ctx range chunk ct nf a(2) llen q in \<open>simp_all add: lines_def\<close>)
  have nd: "nul_free (date_header e)" using nf(4) by (auto simp: date_header_def)
  from strcat_holds [OF b0(2) nd] len h obtain b1 where b1: "strcat b0 (date_header e) = Some b1" "holds b1 (lines @ date_header e)" by auto
  have "nul_free ''Server: ''" by simp
  from strcat_holds [OF b1(2) this] len h obtain b2 where b2: "strcat b1 ''Server: '' = Some b2" "holds b2 ((lines @ date_header e) @ ''Server: '')" by auto
  have "nul_free SERVER_HEADER" by (simp add: SERVER_HEADER_def)
  from strcat_holds [OF b2(2) this] len h obtain b3 where b3: "strcat b2 SERVER_HEADER = Some b3"
    "holds b3 (((lines @ date_header e) @ ''Server: '') @ SERVER_HEADER)" by auto
  from strcat_holds [OF b3(2) CRLF_nul_free] len h obtain b4 where b4: "strcat b3 CRLF = Some b4"
    "holds b4 ((((lines @ date_header e) @ ''Server: '') @ SERVER_HEADER) @ CRLF)" by auto
  from strcat_holds [OF b4(2) CRLF_nul_free] len h obtain b5 where b5: "strcat b4 CRLF = Some b5" "holds b5 header" by auto
  have ne: "cstr b0 \<noteq> []" using b0(2) by (simp add: holds_def lines_def page_lines_def header_generic_def Let_def)
  have "cstr b5 = header" using b5(2) by (simp add: holds_def)
  with a(1) b0(1) b1(1) b2(1) b3(1) b4(1) b5(1) ne result handler
  have "CGI_SetResponseHeaders e code q g = Some (upd_resp (\<lambda>r. r\<lparr>p_sendBuffer := b5, p_bytesLeft := int (length header)\<rparr>) q, g)"
    by (simp add: CGI_SetResponseHeaders_def Let_def upd_resp_def)
  with b5(2) show ?thesis by (intro that)
qed

text \<open>The first call of the response procedure composes the header and gives it to the stack.\<close>

definition reply_ready :: "nat \<Rightarrow> nat \<Rightarrow> bytes \<Rightarrow> REQUEST_CONTEXT \<Rightarrow> bool" where
  "reply_ready pcb h content q \<longleftrightarrow> q_pcb q = Some pcb \<and> q_handler q = Some g_cgiWebApp
     \<and> (q_requestMethod q = METHOD_GET \<or> q_requestMethod q = METHOD_POST) \<and> q_result q = CODE_OK
     \<and> q_options q AND CGI_OPT_CHUNK_ENABLED = 0 \<and> q_rangeTo q \<le> q_rangeFrom q \<and> q_state q = HTTP_STATE_BODY_DONE
     \<and> p_sending (ctxResponse q) = 0 \<and> p_bytesLeft (ctxResponse q) = 0 \<and> length (p_sendBuffer (ctxResponse q)) = MAX_SEND_BUF_SIZE
     \<and> p_dwTotal (ctxResponse q) = int (length content)
     \<and> (\<exists>ctx. p_appContext (ctxResponse q) = App_SSI ctx \<and> ssi_ssi ctx = 0 \<and> ssi_fp ctx = Some h
          \<and> ssi_lastModified ctx = ''Last-Modified: '' @ CRLF)"

definition ok_header :: "env \<Rightarrow> string \<Rightarrow> nat \<Rightarrow> bool \<Rightarrow> string" where
  "ok_header e ctype len gz = page_header e ''200 OK'' ctype (int len) gz (''Last-Modified: '' @ CRLF)"

lemma reply_begins:
  assumes ready: "reply_ready pcb h content q" and f: "file_at e h 0 content 0 g" and ct: "GetContentType (cstr (q_extension q)) = Some ctype"
    and nf: "nul_free ctype" "nul_free (e_clock e)" and "content \<noteq> []"
    and header: "header = ok_header e ctype (length content) (q_options q AND CGI_OPT_GZIP \<noteq> 0)" and len: "length header \<le> 254"
  obtains (begun) q' g' where "HttpResponseProc e caller q g = Some (q', g')" "serving e pcb h 0 (written_on pcb g @ header) content 0 q' g'"
      "p_dwOperIndex (ctxResponse q') = 0" "p_bytesLeft (ctxResponse q') = 0 \<or> e_sndbuf e (g_calls g') \<le> 0"
      "p_total2Send (ctxResponse q') + p_bytesLeft (ctxResponse q') = p_total2Send (ctxResponse q) + int (length header)"
      "p_totalSent (ctxResponse q') = p_totalSent (ctxResponse q)"
  | (refused) q' g' where "HttpResponseProc e caller q g = Some (q', g')" "broken_off e pcb (written_on pcb g @ header) content q' g'"
proof -
  from ready obtain ctx where ctx: "p_appContext (ctxResponse q) = App_SSI ctx" "ssi_ssi ctx = 0" "ssi_fp ctx = Some h"
    "ssi_lastModified ctx = ''Last-Modified: '' @ CRLF" by (auto simp: reply_ready_def)
  define q1 where "q1 = upd_resp (\<lambda>r. r\<lparr>p_dwOperStage := 0, p_dwOperIndex := 0, p_tLastSent := tick_stamp (g_now g),
                          p_sendMaxBlock := int MAX_SEND_BUF_SIZE\<rparr>) q"
  have q1: "q_result q1 = CODE_OK" "q_rangeTo q1 = q_rangeTo q" "q_rangeFrom q1 = q_rangeFrom q" "q_options q1 = q_options q"
    "q_extension q1 = q_extension q" "q_handler q1 = Some g_cgiWebApp" "q_pcb q1 = Some pcb"
    "ctxResponse q1 = (ctxResponse q)\<lparr>p_dwOperStage := 0, p_dwOperIndex := 0, p_tLastSent := tick_stamp (g_now g),
                          p_sendMaxBlock := int MAX_SEND_BUF_SIZE\<rparr>"
    using ready by (simp_all add: q1_def upd_resp_def reply_ready_def)
  obtain sb where sb: "CGI_SetResponseHeaders e (status_line CODE_OK) q1 g
      = Some (upd_resp (\<lambda>r. r\<lparr>p_sendBuffer := sb, p_bytesLeft := int (length header)\<rparr>) q1, g)" "holds sb header"
    by (rule CGI_SetResponseHeaders_page [of q1 ctx ctype "status_line CODE_OK" e header g])
      (use ready ctx ct nf header len q1 in \<open>simp_all add: reply_ready_def ok_header_def status_line_OK\<close>)
  define q2 where "q2 = upd_resp (\<lambda>r. r\<lparr>p_sendBuffer := sb, p_bytesLeft := int (length header)\<rparr>) q1"
  have "cstr sb = header" "length sb = 256" using sb(2) by (simp_all add: holds_def)
  then have w2: "waiting q2 = header" using take_cstr [of sb] by (simp add: q2_def waiting_def)
  have ok2: "send_ok q2" using len \<open>length sb = 256\<close> by (simp add: send_ok_def q2_def)
  have p2: "q_pcb q2 = Some pcb" using q1(7) by (simp add: q2_def upd_resp_def)
  from sendBuffered_spec [OF p2 ok2, of e g] obtain q3 g3 err where s: "sendBuffered e q2 g = Some (q3, g3, err)" "send_ok q3" "sent_frame q2 q3"
    "written_on pcb g3 @ waiting q3 = written_on pcb g @ waiting q2"
    "p_total2Send (ctxResponse q3) + p_bytesLeft (ctxResponse q3) = p_total2Send (ctxResponse q2) + p_bytesLeft (ctxResponse q2)"
    "p_bytesLeft (ctxResponse q3) \<le> p_bytesLeft (ctxResponse q2)" "\<exists>cs. g3 = g\<lparr>g_calls := g_calls g @ cs\<rparr>"
    "err = ERR_OK \<longrightarrow> p_bytesLeft (ctxResponse q3) = 0 \<or> e_sndbuf e (g_calls g3) \<le> 0" "err = ERR_OK \<or> (\<exists>cs b. err = e_write e cs b)" .
  note fr = sent_frameD [OF s(3)]
  have fl: "must_flush e q g = Some False" using ready by (simp add: must_flush_def reply_ready_def)
  have hd: "send_headers e q g = Some (if err = ERR_OK
           then (upd_resp (\<lambda>r. r\<lparr>p_sending := 1\<rparr>) (q3\<lparr>q_state := HTTP_STATE_SENDING_HEADER\<rparr>), g3, True) else (fail_send q3, g3, False))"
    unfolding send_headers_def Let_def q1_def [symmetric] q1(1) sb(1) bind.bind_lunit prod.case q2_def [symmetric] s(1)
    using fr(4) q1(1) by (simp add: q2_def upd_resp_def)
  have proc: "HttpResponseProc e caller q g = (do { (q, g, ok) \<leftarrow> send_headers e q g; if ok then send_body e caller q g else Some (q, g) })"
    using ready fl by (simp add: HttpResponseProc_def reply_ready_def)
  have w: "written_on pcb g3 @ waiting q3 = (written_on pcb g @ header) @ take 0 content" using s(4) w2 by simp
  show ?thesis
  proof (cases "err = ERR_OK")
    case True
    define q4 where "q4 = upd_resp (\<lambda>r. r\<lparr>p_sending := 1\<rparr>) (q3\<lparr>q_state := HTTP_STATE_SENDING_HEADER\<rparr>)"
    have r: "HttpResponseProc e caller q g = Some (q4, g3)" using proc hd True by (simp add: q4_def send_body_def upd_resp_def)
    have "sending_file e pcb h q4"
      using ready ctx fr q1(8) \<open>length sb = 256\<close>
      by (simp add: sending_file_def q4_def q2_def q1_def reply_ready_def upd_resp_def)
    moreover have "p_dwTotal (ctxResponse q4) = int (length content)" "p_dwOperIndex (ctxResponse q4) = 0" "p_dwOperStage (ctxResponse q4) = 0"
      using fr ready by (simp_all add: q4_def q2_def q1_def reply_ready_def)
    moreover have "file_at e h 0 content 0 g3" using f s(7) by (auto simp: file_at_def)
    moreover have "0 \<le> p_bytesLeft (ctxResponse q4)" "p_bytesLeft (ctxResponse q4) \<le> 254"
      using s(2,6) len by (simp_all add: q4_def q2_def send_ok_def)
    moreover have "waiting q4 = waiting q3" by (simp add: q4_def waiting_def)
    ultimately have "serving e pcb h 0 (written_on pcb g @ header) content 0 q4 g3"
      unfolding serving_def using w assms(6) by (intro conjI exI [of _ 0]) (simp_all add: stage_of_def)
    then show ?thesis using r s(5,8) True fr
      by (intro begun [of q4 g3]) (simp_all add: q4_def q2_def q1_def)
  next
    case False
    with s(9) obtain cs b where "e_write e cs b \<noteq> ERR_OK" by metis
    then have "broken_off e pcb (written_on pcb g @ header) content (fail_send q3) g3"
      using w fr(9) ctx(1) unfolding broken_off_def by (auto simp: fail_send_def waiting_def q2_def q1_def intro!: exI [of _ 0])
    then show ?thesis using proc hd False by (intro refused [of "fail_send q3" g3]) simp_all
  qed
qed

text \<open>A complete request for a file of the web root that is sent as it is.\<close>

definition page_request :: "env \<Rightarrow> nat \<Rightarrow> nat \<Rightarrow> REQUEST_CONTEXT \<Rightarrow> bool" where
  "page_request e pcb k q \<longleftrightarrow> q_pcb q = Some pcb \<and> q_handler q = Some g_cgiWebApp
     \<and> (q_requestMethod q = METHOD_GET \<or> q_requestMethod q = METHOD_POST) \<and> q_result q = 0
     \<and> q_options q AND CGI_OPT_CHUNK_ENABLED = 0 \<and> q_rangeTo q \<le> q_rangeFrom q \<and> q_ifModified q = 0 \<and> q_state q = HTTP_STATE_BODY_DONE
     \<and> p_sending (ctxResponse q) = 0 \<and> p_bytesLeft (ctxResponse q) = 0 \<and> length (p_sendBuffer (ctxResponse q)) = MAX_SEND_BUF_SIZE
     \<and> q_responsePath q \<noteq> ''/'' \<and> find_web e (q_responsePath q) = Some k \<and> \<not> ssi_extension (cstr (q_extension q))"

definition gzipped :: "bytes \<Rightarrow> bool" where
  "gzipped data \<longleftrightarrow> map ord (take 3 data) = [0x1F, 0x8B, 0x08]"

lemma gzip_magic_three: "length (take 3 data) = 3 \<Longrightarrow> gzip_magic (take 3 data) = Some (gzipped data)"
  unfolding gzipped_def gzip_magic_def
  by (cases "take 3 data" rule: list.exhaust; cases "tl (take 3 data)"; cases "tl (tl (take 3 data))") auto

lemma web_entry_date: "find_web e name = Some k \<Longrightarrow> WEB_ftime e name = f_tLastModified (web_entries e ! k) \<and> WEB_ftime e name \<noteq> 0"
proof -
  assume f: "find_web e name = Some k"
  then have "web_entries e ! k \<in> set (web_entries e)" by (simp add: find_web_Some)
  then have "f_tLastModified (web_entries e ! k) \<noteq> 0" unfolding web_entries_def by (auto dest: set_takeWhileD)
  with f show ?thesis by (simp add: WEB_ftime_def)
qed

lemma WEB_fseek_start:
  assumes "file_at e h off content idx g" and "i = h"
  shows "file_at e h 0 (handle_content e (g_FileOpened g) h) 0 (set_files (fst (WEB_fseek (Some i) 0 (g_FileOpened g))) g)"
proof -
  let ?fs = "g_FileOpened g" and ?h = "(g_FileOpened g ! h)\<lparr>lReadPos := 0\<rparr>"
  have u: "h \<in> in_use ?fs" and inv: "files_inv e ?fs" and wf: "webroot_wf e" using assms by (simp_all add: file_at_def)
  have "files_inv e (?fs[h := ?h])" by (rule files_inv_same_ref [OF inv]) simp
  moreover have "h \<in> in_use (?fs[h := ?h])" "handle_content e (?fs[h := ?h]) h = handle_content e ?fs h" "handle_pos (?fs[h := ?h]) h = 0"
    using u by (simp_all add: in_use_def handle_content_def handle_pos_def)
  ultimately show ?thesis using wf assms(2) by (simp add: file_at_def WEB_fseek_def set_files_def)
qed

lemma WEB_fseek_content: "handle_content e (fst (WEB_fseek (Some h) p fs)) h = handle_content e fs h"
  by (simp add: WEB_fseek_def handle_content_def)

text \<open>The file is opened, its first three bytes are read and the position is set back.\<close>

lemma page_probe:
  assumes k: "find_web e path = Some k" and wf: "webroot_wf e" and inv: "files_inv e (g_FileOpened g)"
    and free: "free_handle (g_FileOpened g) = Some h" and len: "3 \<le> f_nSize (web_entries e ! k)"
  defines "content \<equiv> f_data (web_entries e ! k)"
  obtains fs1 fs2 where "WEB_fopen e path ''rb'' (g_FileOpened g) = (fs1, Some h)" "WEB_fread e (Some h) 3 fs1 = Some (fs2, take 3 content, 0)"
    "gzip_magic (take 3 content) = Some (gzipped content)" "file_at e h 0 content 0 (set_files (fst (WEB_fseek (Some h) 0 fs2)) g)"
    "WEB_fsize e (Some h) (fst (WEB_fseek (Some h) 0 fs2)) = int (length content)" "length content < 2 ^ 31"
proof -
  let ?fs = "g_FileOpened g"
  have "web_entries e ! k \<in> set (web_entries e)" using k by (simp add: find_web_Some)
  with wf len have sz: "length content = f_nSize (web_entries e ! k)" "3 \<le> length content" "length content < 2 ^ 31"
    by (auto simp: webroot_wf_def content_def)
  define fs1 where "fs1 = ?fs[h := \<lparr>pFileInfo = Some (Web_File k), lReadPos = 0\<rparr>]"
  have open1: "WEB_fopen e path ''rb'' ?fs = (fs1, Some h)" using k free by (simp add: WEB_fopen_def take_handle_def fs1_def)
  have c: "handle_content e fs1 h = content" using find_web_content [OF k open1] by (simp add: content_def)
  from web.open_used [OF open1] have u: "h \<in> in_use fs1" "handle_pos fs1 h = 0" by auto
  from files_inv_open [OF inv open1] have inv1: "files_inv e fs1" .
  have at1: "file_at e h 0 content 0 (set_files fs1 g)" using wf inv1 u c by (simp add: file_at_def set_files_def)
  from file_at_read [OF at1, of 3] sz obtain fs2 where rd: "WEB_fread e (Some h) (int 3) (g_FileOpened (set_files fs1 g)) = Some (fs2, take 3 (drop 0 content), 0)"
    "file_at e h 0 content (0 + 3) (set_files fs2 (set_files fs1 g))" by auto
  have at2: "file_at e h 0 content 3 (set_files fs2 g)" using rd(2) by (simp add: set_files_def)
  have c2: "handle_content e fs2 h = content"
    using web.read_next [of e fs1 h 3] wf inv1 u c rd(1) by (auto simp: set_files_def)
  define fs3 where "fs3 = fst (WEB_fseek (Some h) 0 fs2)"
  have at3: "file_at e h 0 content 0 (set_files fs3 g)"
    using WEB_fseek_start [OF at2 refl] c2 by (simp add: set_files_def fs3_def)
  then have u3: "h \<in> in_use fs3" "handle_content e fs3 h = content"
    using c2 WEB_fseek_content [of e h 0 fs2] by (simp_all add: file_at_def set_files_def fs3_def)
  have "WEB_fsize e (Some h) fs3 = int (length content)"
  proof -
    from u3 obtain r where r: "h < length fs3" "pFileInfo (fs3 ! h) = Some r" "file_content e r = content" by (auto simp: in_use_def handle_content_def)
    have "ref_ok e r" using at3 r by (auto simp: file_at_def set_files_def files_inv_def)
    from length_file_content [OF wf this] r(3) have "file_size e r = length content" by simp
    then show ?thesis using r sz(3) by (simp add: WEB_fsize_def s32_id)
  qed
  moreover have "length (take 3 content) = 3" using sz by simp
  ultimately show ?thesis using open1 rd(1) at3 sz(3) gzip_magic_three [of content]
    by (intro that [of fs1 fs2]) (simp_all add: fs3_def set_files_def)
qed

lemma page_opened:
  assumes req: "page_request e pcb k q" and wf: "webroot_wf e" and inv: "files_inv e (g_FileOpened g)"
    and free: "free_handle (g_FileOpened g) = Some h" and len: "3 \<le> f_nSize (web_entries e ! k)"
  defines "content \<equiv> f_data (web_entries e ! k)"
  obtains q1 fs where "CGI_RequestReceived e q g = Some (q1, set_files fs g)" "file_at e h 0 content 0 (set_files fs g)"
    "q_result q1 = 0" "reply_ready pcb h content (q1\<lparr>q_result := CODE_OK\<rparr>)" "q_extension q1 = q_extension q"
    "q_options q1 = (if gzipped content then q_options q OR CGI_OPT_GZIP else q_options q)"
    "p_totalSent (ctxResponse q1) = p_totalSent (ctxResponse q)" "p_total2Send (ctxResponse q1) = p_total2Send (ctxResponse q)"
proof -
  let ?path = "q_responsePath q"
  from req have k: "find_web e ?path = Some k" by (simp add: page_request_def)
  obtain fs1 fs2 where open1: "WEB_fopen e ?path ''rb'' (g_FileOpened g) = (fs1, Some h)"
    and rd: "WEB_fread e (Some h) 3 fs1 = Some (fs2, take 3 content, 0)" "gzip_magic (take 3 content) = Some (gzipped content)"
    and at3: "file_at e h 0 content 0 (set_files (fst (WEB_fseek (Some h) 0 fs2)) g)"
    and fsize: "WEB_fsize e (Some h) (fst (WEB_fseek (Some h) 0 fs2)) = int (length content)"
    unfolding content_def by (rule page_probe [OF k wf inv free len])
  define fs3 where "fs3 = fst (WEB_fseek (Some h) 0 fs2)"
  let ?ctx = "zero_ssi\<lparr>ssi_valid := 1, ssi_ssi := 0, ssi_fp := Some h, ssi_lastModified := ''Last-Modified: '' @ CRLF\<rparr>"
  define q1 where "q1 = upd_resp (\<lambda>r. r\<lparr>p_dwTotal := int (length content)\<rparr>) (set_ssi ?ctx
     ((if gzipped content then q\<lparr>q_options := q_options q OR CGI_OPT_GZIP\<rparr> else q)\<lparr>q_fileHandle := Some h\<rparr>))"
  have "CGI_RequestReceived e q g = WEB_RequestReceived e q g" using req by (simp add: CGI_RequestReceived_def page_request_def)
  also have "\<dots> = Some (q1, set_files fs3 g)"
    using req open1 rd web_entry_date [OF k] fsize
    unfolding WEB_RequestReceived_def Let_def
    by (simp add: page_request_def default_path_def set_files_def fs3_def q1_def)
  finally have r: "CGI_RequestReceived e q g = Some (q1, set_files fs3 g)" .
  have o: "q_options q1 = (if gzipped content then q_options q OR CGI_OPT_GZIP else q_options q)"
    by (simp add: q1_def set_ssi_def upd_resp_def)
  have "q_options q1 AND CGI_OPT_CHUNK_ENABLED = 0" using req unfolding o page_request_def by (simp add: bit.conj_disj_distrib2)
  then have "reply_ready pcb h content (q1\<lparr>q_result := CODE_OK\<rparr>)"
    using req by (simp add: reply_ready_def page_request_def q1_def set_ssi_def upd_resp_def)
  then show ?thesis using r at3 o req
    by (intro that [of q1 fs3]) (simp_all add: q1_def fs3_def set_ssi_def upd_resp_def page_request_def)
qed

section \<open>A full send buffer\<close>

text \<open>
  A poll while the stack has no room reads into the empty send buffer, which then waits with
  254 bytes.
\<close>

lemma full_window_fills:
  assumes s: "serving e pcb h off before content n q g" and n: "Suc n < 2 ^ 32 - 1" and body: "q_state q = HTTP_STATE_SENDING_BODY"
    and b: "p_bytesLeft (ctxResponse q) = 0" and idx: "p_dwOperIndex (ctxResponse q) + 254 \<le> int (length content)"
    and full: "\<forall>cs. e_sndbuf e cs \<le> 0"
  shows "\<exists>q' g'. HttpResponseProc e HTTP_PROC_CALLER_POLL q g = Some (q', g') \<and> g_calls g' = g_calls g \<and> p_bytesLeft (ctxResponse q') = 254
    \<and> q_state q' = HTTP_STATE_SENDING_BODY"
proof -
  have i: "0 \<le> p_dwOperIndex (ctxResponse q)" using s by (auto simp: serving_def)
  have "p_dwOperIndex (ctxResponse q) < int (length content)" using idx by simp
  from load_file [OF s n this, of HTTP_PROC_CALLER_POLL] obtain q1 g1 m where
    l: "CGI_LoadContentToSend e HTTP_PROC_CALLER_POLL q g = Some (q1, g1, if m = 0 then 0 else 1)"
      "serving e pcb h off before content (Suc n) q1 g1" "q_state q1 = q_state q" "q_result q1 = q_result q" "g_calls g1 = g_calls g"
      "m = min (length content - nat (p_dwOperIndex (ctxResponse q))) (254 - nat (p_bytesLeft (ctxResponse q)))"
      "p_bytesLeft (ctxResponse q1) = p_bytesLeft (ctxResponse q) + int m" "p_dwOperIndex (ctxResponse q1) = p_dwOperIndex (ctxResponse q) + int m"
      "p_total2Send (ctxResponse q1) = p_total2Send (ctxResponse q)" "p_totalSent (ctxResponse q1) = p_totalSent (ctxResponse q)" .
  have m: "m = 254" using l(6) b idx i by simp
  have "q_pcb q1 = Some pcb" using l(2) by (simp add: serving_def sending_file_def)
  then have "sendBuffered e q1 g1 = Some (q1, g1, ERR_OK)"
    using full [rule_format, of "g_calls g1"] by (simp add: sendBuffered_def send_loop.simps Let_def not_less)
  then have "send_body e HTTP_PROC_CALLER_POLL q g = Some (upd_resp (\<lambda>r. r\<lparr>p_sending := 1\<rparr>) q1, g1)" using l(1) m body by (simp add: send_body_def)
  moreover have "HttpResponseProc e HTTP_PROC_CALLER_POLL q g = send_body e HTTP_PROC_CALLER_POLL q g"
    using HttpResponseProc_serving [OF s] b body by (simp add: enter_body_def)
  ultimately show ?thesis using l m b body by (simp add: upd_resp_def)
qed

text \<open>Any number of acknowledgements, of the given lengths.\<close>

primrec acks :: "nat list \<Rightarrow> env \<Rightarrow> nat \<Rightarrow> nat \<Rightarrow> server \<Rightarrow> server option" where
  "acks [] e i pcb s = Some s"
| "acks (len # lens) e i pcb s = do { (s, err) \<leftarrow> OnHttpSent e (Some i) pcb len s; acks lens e i pcb s }"

definition stuck :: "env \<Rightarrow> nat \<Rightarrow> nat \<Rightarrow> nat \<Rightarrow> bytes \<Rightarrow> bytes \<Rightarrow> nat \<Rightarrow> REQUEST_CONTEXT \<Rightarrow> glob \<Rightarrow> bool" where
  "stuck e pcb h off before content n q g \<longleftrightarrow> serving e pcb h off before content n q g \<and> p_bytesLeft (ctxResponse q) = 254
     \<and> p_dwOperIndex (ctxResponse q) < int (length content) \<and> e_sndbuf e (g_calls g) > 254"

lemma stuck_ack:
  assumes "i < length cs" and s: "stuck e pcb h off before content n (cs ! i) g" and n: "Suc n < 2 ^ 32 - 1"
  shows "\<exists>q g'. OnHttpSent e (Some i) pcb len (cs, g) = Some ((cs[i := q], g'), ERR_OK) \<and> g_calls g' = g_calls g
    \<and> stuck e pcb h off before content (Suc n) q g' \<and> waiting q = waiting (cs ! i)"
proof -
  define g1 where "g1 = (if q_checkAlive (cs ! i) = 0
    then g\<lparr>g_httpSessions := SessionSent (g_now g) (q_session (cs ! i)) (g_httpSessions g)\<rparr> else g)"
  define q1 where "q1 = upd_resp (\<lambda>r. r\<lparr>p_totalSent := p_totalSent r + int len\<rparr>) (cs ! i)"
  define q2 where "q2 = enter_body HTTP_PROC_CALLER_SENT q1"
  from s have sv: "serving e pcb h off before content n (cs ! i) g" and b: "p_bytesLeft (ctxResponse (cs ! i)) = 254"
    and idx: "p_dwOperIndex (ctxResponse (cs ! i)) < int (length content)" and room: "e_sndbuf e (g_calls g) > 254" by (simp_all add: stuck_def)
  have "q1 = upd_resp (\<lambda>r. r\<lparr>p_totalSent := p_totalSent (ctxResponse (cs ! i)) + int len\<rparr>) (cs ! i)" by (simp add: q1_def upd_resp_def)
  with serving_acked serving_session sv have s1: "serving e pcb h off before content n q1 g1" by (simp add: g1_def)
  have s2: "serving e pcb h off before content n q2 g1" unfolding q2_def by (rule serving_enter [OF s1])
  have st: "q_state q1 = HTTP_STATE_SENDING_HEADER \<or> q_state q1 = HTTP_STATE_SENDING_BODY" using s1 by (simp add: serving_def sending_file_def)
  have body: "q_state q2 = HTTP_STATE_SENDING_BODY" using st by (auto simp: q2_def enter_body_def)
  have r: "ctxResponse q2 = ctxResponse q1" "ctxResponse q1 = (ctxResponse (cs ! i))\<lparr>p_totalSent := p_totalSent (ctxResponse (cs ! i)) + int len\<rparr>"
    by (simp_all add: q2_def enter_body_def q1_def upd_resp_def)
  from s1 idx r obtain k where "p_dwOperIndex (ctxResponse q1) = int k" "k < length content" "stage_of n k (length content) (p_dwOperStage (ctxResponse q1))"
    by (auto simp: serving_def)
  then have "p_dwOperStage (ctxResponse q1) \<noteq> STAGE_END" using n by (auto simp: stage_of_def)
  moreover have "g_calls g1 = g_calls g" by (simp add: g1_def)
  ultimately have proc: "HttpResponseProc e HTTP_PROC_CALLER_SENT q1 g1 = send_body e HTTP_PROC_CALLER_SENT q2 g1"
    using HttpResponseProc_serving [OF s1] b r room by (simp add: q2_def)
  have "p_dwOperIndex (ctxResponse q2) < int (length content)" using idx r by simp
  from s2 n body this show ?thesis
  proof (cases rule: body_goes_on [where caller = HTTP_PROC_CALLER_SENT])
    case (sent q' g')
    have m: "min (length content - nat (p_dwOperIndex (ctxResponse q2))) (254 - nat (p_bytesLeft (ctxResponse q2))) = 0" using b r by simp
    note sent' = sent [unfolded m]
    have q': "p_bytesLeft (ctxResponse q') = 254" "g_calls g' = g_calls g" using sent'(6) b r \<open>g_calls g1 = g_calls g\<close> by simp_all
    have "HttpRequestProc e HTTP_PROC_CALLER_SENT q1 g1 = Some (q', g')" using HttpRequestProc_sending [OF st] proc sent'(1,3) by simp
    moreover have "q_result q' > 0" using sent'(2) by (simp add: serving_def sending_file_def)
    ultimately have a: "OnHttpSent e (Some i) pcb len (cs, g) = Some ((cs[i := q'], g'), ERR_OK)"
      by (simp add: OnHttpSent_def Let_def after_event_def g1_def [symmetric] q1_def [symmetric])
    have i': "p_dwOperIndex (ctxResponse q') = p_dwOperIndex (ctxResponse (cs ! i))" using sent'(5) r by simp
    have "written_on pcb g' = written_on pcb g" using q'(2) by (simp add: written_on_def)
    moreover from sv sent'(2) i' have "written_on pcb g' @ waiting q' = written_on pcb g @ waiting (cs ! i)" by (auto simp: serving_def)
    ultimately have w: "waiting q' = waiting (cs ! i)" by simp
    show ?thesis using a q' sent'(2) i' idx room w by (intro exI [of _ q'] exI [of _ g']) (simp add: stuck_def)
  next
    case (refused q' g')
    have m: "min (length content - nat (p_dwOperIndex (ctxResponse q2))) (254 - nat (p_bytesLeft (ctxResponse q2))) = 0" using b r by simp
    with refused show ?thesis by simp
  qed
qed

lemma stuck_acks:
  assumes "i < length cs" and "stuck e pcb h off before content n (cs ! i) g" and "n + length lens < 2 ^ 32 - 1"
  shows "\<exists>q g'. acks lens e i pcb (cs, g) = Some (cs[i := q], g') \<and> g_calls g' = g_calls g
    \<and> stuck e pcb h off before content (n + length lens) q g' \<and> waiting q = waiting (cs ! i)"
  using assms
proof (induction lens arbitrary: cs g n)
  case (Cons len lens)
  then have "Suc n < 2 ^ 32 - 1" by simp
  from stuck_ack [OF Cons.prems(1,2) this, of len] obtain q g' where a: "OnHttpSent e (Some i) pcb len (cs, g) = Some ((cs[i := q], g'), ERR_OK)"
    "g_calls g' = g_calls g" "stuck e pcb h off before content (Suc n) q g'" "waiting q = waiting (cs ! i)" by blast
  with Cons.IH [of "cs[i := q]" "Suc n" g'] Cons.prems show ?case by auto
next
  case Nil
  then show ?case by (intro exI [of _ "cs ! i"] exI [of _ g]) simp
qed

section \<open>A page as an example\<close>

definition sample_page_env :: env where
  "sample_page_env = sample_env\<lparr>e_webroot := [\<lparr>f_name = ''/app/a.txt'', f_nSize = 5, f_tLastModified = 1591802842, f_data = ''Hello''\<rparr>]\<rparr>"

definition sample_page_request :: REQUEST_CONTEXT where
  "sample_page_request = sample_context\<lparr>q_state := HTTP_STATE_BODY_DONE, q_handler := Some g_cgiWebApp, q_requestMethod := METHOD_GET,
     q_responsePath := ''/app/a.txt'', q_extension := ''txt'' @ zeros 5\<rparr>"

lemma sample_page_entries: "web_entries sample_page_env = e_webroot sample_page_env"
  by (simp add: web_entries_def sample_page_env_def sample_env_def)

lemma sample_page_find: "find_web sample_page_env ''/app/a.txt'' = Some 0"
  unfolding find_web_def sample_page_entries by (simp add: sample_page_env_def)

lemma sample_page_files: "webroot_wf sample_page_env" "files_inv sample_page_env (g_FileOpened sample_glob)"
  "free_handle (g_FileOpened sample_glob) = Some 0"
  by (auto simp: webroot_wf_def sample_page_entries files_inv_def zero_handle_def sample_glob_def free_handle_def upt_rec)
    (simp_all add: sample_page_env_def)

lemma sample_page_data: "f_data (web_entries sample_page_env ! 0) = ''Hello''"
  unfolding sample_page_entries by (simp add: sample_page_env_def)

lemma sample_page_extension: "cstr (q_extension sample_page_request) = ''txt''" "\<not> ssi_extension ''txt''"
  by (simp add: sample_page_request_def zeros_def eval_nat_numeral) code_simp

lemma sample_page_ok: "page_request sample_page_env 7 0 sample_page_request"
proof -
  have "length (p_sendBuffer (ctxResponse sample_page_request)) = MAX_SEND_BUF_SIZE"
    by (simp add: sample_page_request_def sample_context_def zero_context_def zero_response_def)
  moreover have "find_web sample_page_env (q_responsePath sample_page_request) = Some 0"
    by (simp add: sample_page_request_def sample_page_find)
  ultimately show ?thesis using sample_page_extension
    unfolding page_request_def by (simp add: sample_page_request_def sample_context_def zero_context_def zero_response_def)
qed

lemma sample_page_stack: "drained sample_page_request" "has_room sample_page_env" "nul_free (e_clock sample_page_env)"
    apply (simp add: drained_def sample_page_request_def sample_context_def zero_context_def zero_response_def)
   apply (simp add: has_room_def sample_page_env_def sample_env_def)
  apply (simp add: sample_page_env_def sample_env_def)
  done

lemma sample_page_type: "GetContentType ''txt'' = Some ''text/plain''"
  by code_simp

lemma length_page_lines: "length (page_lines e code ctype len gz m)
    \<le> length (header_generic code ctype len (CONNECTION_HEADER e)) + (if gz then 24 else 0) + (if m = [] then 82 else length m) + 29"
  by (simp add: page_lines_def Let_def header_gzip_def header_nocache_def CRLF_def)

lemma sample_page_header: "length (ok_header sample_page_env ''text/plain'' 5 False) \<le> 254"
proof -
  have five: "fmt_d 5 = ''5''" by code_simp
  have "length (page_lines sample_page_env ''200 OK'' ''text/plain'' 5 False (''Last-Modified: '' @ CRLF)) \<le> 150"
    by (rule order_trans [OF length_page_lines]) (simp add: header_generic_def CRLF_def CONNECTION_HEADER_def sample_page_env_def sample_env_def five)
  moreover have "length (date_header sample_page_env) \<le> 40" by (simp add: date_header_def CRLF_def)
  ultimately show ?thesis by (simp add: ok_header_def page_header_def SERVER_HEADER_def CRLF_def)
qed

lemma WEB_ReadContent_keeps_buffer:
  assumes "WEB_ReadContent e q g n = Some (q', g', out, sz)"
  shows "p_sendBuffer (ctxResponse q') = p_sendBuffer (ctxResponse q)"
  using assms unfolding WEB_ReadContent_def Let_def
  by (auto simp: bind_eq_Some_conv set_ssi_def read_stage_def split: if_splits)

text \<open>A reply under way: nothing of the page is read yet, and \<open>b\<close> zero bytes still wait.\<close>

definition sample_serving :: "int \<Rightarrow> REQUEST_CONTEXT" where
  "sample_serving b = sample_page_request\<lparr>q_state := HTTP_STATE_SENDING_BODY, q_result := CODE_OK,
     ctxResponse := zero_response\<lparr>p_sending := 1, p_sendMaxBlock := 256, p_dwTotal := 5, p_bytesLeft := b,
       p_appContext := App_SSI (zero_ssi\<lparr>ssi_fp := Some 0\<rparr>)\<rparr>\<rparr>"

definition sample_serving_glob :: glob where
  "sample_serving_glob = sample_glob\<lparr>g_FileOpened := (replicate 32 zero_handle)[0 := \<lparr>pFileInfo = Some (Web_File 0), lReadPos = 0\<rparr>]\<rparr>"

lemma sample_serving_ok:
  assumes "0 \<le> b" and "b \<le> 254"
  shows "serving sample_page_env 7 0 0 (zeros (nat b)) ''Hello'' 0 (sample_serving b) sample_serving_glob"
proof -
  have f: "file_at sample_page_env 0 0 ''Hello'' 0 sample_serving_glob"
  proof -
    let ?fs = "(replicate 32 zero_handle)[0 := \<lparr>pFileInfo = Some (Web_File 0), lReadPos = 0\<rparr>]"
    have "files_inv sample_page_env (replicate 32 zero_handle)" using sample_page_files(2) by (simp add: sample_glob_def)
    then have "files_inv sample_page_env ?fs" 
      by (rule files_inv_update) (use sample_page_find in \<open>simp add: ref_ok_def find_web_Some\<close>)
    moreover have "handle_content sample_page_env ?fs 0 = ''Hello''" using sample_page_data by (simp add: handle_content_def file_content_def)
    ultimately show ?thesis using sample_page_files(1)
      by (simp add: file_at_def sample_serving_glob_def in_use_def handle_pos_def)
  qed
  have "take (nat b) (zeros 256) = zeros (nat b)" using assms by (simp add: zeros_def)
  then have "written_on 7 sample_serving_glob @ waiting (sample_serving b) = zeros (nat b) @ take 0 ''Hello''"
    by (simp add: written_on_def sample_serving_glob_def sample_glob_def waiting_def sample_serving_def zero_response_def)
  moreover have "sending_file sample_page_env 7 0 (sample_serving b)"
    by (simp add: sending_file_def sample_serving_def sample_page_request_def sample_context_def zero_context_def zero_response_def zero_ssi_def)
  ultimately show ?thesis unfolding serving_def using f assms
    by (intro conjI exI [of _ 0]) (simp_all add: sample_serving_def zero_response_def stage_of_def)
qed

section \<open>Properties\<close>


text \<open>
  C1: A page is delivered. With room in the stack, a complete request for a file of the web root
  that needs no tags replaced is answered, after its acknowledgements (one for the header and
  each 254 bytes of the file), with the header that announces the length of the file, followed
  by exactly its bytes, and the slot is idle again.
\<close>

theorem page_delivered:
  assumes "i < length cs" and "page_request e pcb k (cs ! i)" and "drained (cs ! i)" and "has_room e"
    and "webroot_wf e" and "files_inv e (g_FileOpened g)" and "free_handle (g_FileOpened g) = Some h"
    and data: "data = f_data (web_entries e ! k)" and "3 \<le> length data"
    and "GetContentType (cstr (q_extension (cs ! i))) = Some ctype" and "nul_free ctype" and "nul_free (e_clock e)"
    and header: "header = ok_header e ctype (length data) (gzipped data \<or> q_options (cs ! i) AND CGI_OPT_GZIP \<noteq> 0)" and "length header \<le> 254"
  shows "\<exists>q1 g1 q2 g2 q3 g3. finish_turn e (cs ! i) g sz = Some (q1, g1, Leave) \<and> HttpResponseProc e caller q1 g1 = Some (q2, g2)
    \<and> ack_times (Suc ((length data + 253) div 254)) e i pcb (cs[i := q2], g2) = Some (cs[i := q3], g3)
    \<and> q_state q3 = HTTP_STATE_IDLE \<and> written_on pcb g3 = written_on pcb g @ header @ data"
proof -
  let ?q = "cs ! i"
  from assms(2) have k: "find_web e (q_responsePath ?q) = Some k" and st: "q_state ?q = HTTP_STATE_BODY_DONE" by (simp_all add: page_request_def)
  from k have "web_entries e ! k \<in> set (web_entries e)" by (simp add: find_web_Some)
  with assms(5) data have n: "f_nSize (web_entries e ! k) = length data" "length data < 2 ^ 31" by (auto simp: webroot_wf_def)
  with assms(9) have "3 \<le> f_nSize (web_entries e ! k)" by simp
  from page_opened [OF assms(2,5,6,7) this, folded data] obtain q1 fs where
    r1: "CGI_RequestReceived e ?q g = Some (q1, set_files fs g)" "file_at e h 0 data 0 (set_files fs g)"
    "q_result q1 = 0" "reply_ready pcb h data (q1\<lparr>q_result := CODE_OK\<rparr>)" "q_extension q1 = q_extension ?q"
    "q_options q1 = (if gzipped data then q_options ?q OR CGI_OPT_GZIP else q_options ?q)"
    "p_totalSent (ctxResponse q1) = p_totalSent (ctxResponse ?q)" "p_total2Send (ctxResponse q1) = p_total2Send (ctxResponse ?q)" .
  have turn: "finish_turn e ?q g sz = Some (q1\<lparr>q_result := CODE_OK\<rparr>, set_files fs g, Leave)"
    using r1(1,3) st by (simp add: finish_turn_def chunk_line_def receive_body_def)
  have hdr: "header = ok_header e ctype (length data) (q_options (q1\<lparr>q_result := CODE_OK\<rparr>) AND CGI_OPT_GZIP \<noteq> 0)"
    using header r1(6) by (simp add: bit.conj_disj_distrib2)
  have w: "written_on pcb (set_files fs g) = written_on pcb g" by (simp add: written_on_def set_files_def)
  have ct: "GetContentType (cstr (q_extension (q1\<lparr>q_result := CODE_OK\<rparr>))) = Some ctype" using assms(10) r1(5) by simp
  have ne: "data \<noteq> []" using assms(9) by auto
  from r1(4,2) ct assms(11,12) ne hdr assms(14) show ?thesis
  proof (cases rule: reply_begins [where caller = caller])
    case (begun q2 g2)
    have "e_sndbuf e (g_calls g2) > 0" using assms(4) by (simp add: has_room_def)
    with begun(4) have "p_bytesLeft (ctxResponse q2) = 0" by simp
    with begun(5,6) r1(7,8) assms(3) have d: "drained q2" by (simp add: drained_def)
    let ?k = "(length data - 0 + 253) div 254"
    have k: "0 + ?k + 2 < 2 ^ 32 - 1" using n(2) by simp
    have "cs[i := q2] ! i = q2" "i < length (cs[i := q2])" using assms(1) by simp_all
    with ack_times_delivers [of i "cs[i := q2]", OF _ _ _ assms(4) _ _ k refl] begun(2,3) d obtain q3 g3 where
      "ack_times (Suc ?k) e i pcb (cs[i := q2], g2) = Some (cs[i := q3], g3)" "q_state q3 = HTTP_STATE_IDLE"
      "written_on pcb g3 = (written_on pcb g @ header) @ data" unfolding w by force
    with turn begun(1) show ?thesis by auto
  next
    case (refused q2 g2)
    then show ?thesis using assms(4) by (simp add: broken_off_def has_room_def)
  qed
qed

theorem page_delivered_witness:
  "\<exists>q1 g1 q2 g2 q3 g3. finish_turn sample_page_env sample_page_request sample_glob 0 = Some (q1, g1, Leave)
    \<and> HttpResponseProc sample_page_env HTTP_PROC_CALLER_RECV q1 g1 = Some (q2, g2)
    \<and> ack_times 2 sample_page_env 0 7 ([q2], g2) = Some ([q3], g3)
    \<and> written_on 7 g3 = ok_header sample_page_env ''text/plain'' 5 False @ ''Hello''"
proof -
  have c: "GetContentType (cstr (q_extension ([sample_page_request] ! 0))) = Some ''text/plain''"
    using sample_page_type sample_page_extension(1) by simp
  have gz: "\<not> gzipped ''Hello''" by code_simp
  have "q_options ([sample_page_request] ! 0) = 0" by (simp add: sample_page_request_def sample_context_def zero_context_def)
  then have h: "ok_header sample_page_env ''text/plain'' 5 False
      = ok_header sample_page_env ''text/plain'' (length ''Hello'') (gzipped ''Hello'' \<or> q_options ([sample_page_request] ! 0) AND CGI_OPT_GZIP \<noteq> 0)"
    using gz by (simp add: eval_nat_numeral)
  have "written_on 7 sample_glob = []" by (simp add: written_on_def sample_glob_def)
  then show ?thesis
    using page_delivered [of 0 "[sample_page_request]" sample_page_env 7 0 sample_glob 0 "''Hello''" "''text/plain''", OF _ _ _ _ _ _ _ _ _ c _ _ h]
      sample_page_ok sample_page_stack sample_page_files sample_page_data sample_page_header
    by (fastforce simp: numeral_2_eq_2)
qed



definition sample_wide_env :: env where
  "sample_wide_env = sample_page_env\<lparr>e_sndbuf := \<lambda>_. 1000\<rparr>"

text \<open>Only the web root matters for what is being sent.\<close>

lemma serving_web_root:
  assumes w: "web_entries e' = web_entries e"
  shows "serving e' = serving e"
proof -
  have "ref_ok e' = ref_ok e" unfolding ref_ok_def w ..
  moreover have c: "file_content e' = file_content e" unfolding file_content_def w ..
  moreover have "handle_content e' = handle_content e" unfolding handle_content_def c ..
  ultimately show ?thesis unfolding fun_eq_iff serving_def sending_file_def file_at_def files_inv_def webroot_wf_def w by simp
qed

lemma sample_wide_serving:
  "serving sample_wide_env 7 0 0 (zeros 254) ''Hello'' 0 (sample_serving 254) sample_serving_glob"
proof -
  have "web_entries sample_wide_env = web_entries sample_page_env" by (simp add: web_entries_def sample_wide_env_def)
  from serving_web_root [OF this] show ?thesis using sample_serving_ok [of 254] by simp
qed



definition sample_tags :: REQUEST_CONTEXT where
  "sample_tags = sample_page_request\<lparr>q_state := HTTP_STATE_SENDING_BODY, q_result := CODE_OK, q_options := CGI_OPT_CHUNK_ENABLED,
     ctxResponse := zero_response\<lparr>p_sending := 1, p_sendMaxBlock := 256, p_dwTotal := 5, p_dwOperIndex := 5, p_bytesLeft := 250,
       p_appContext := App_SSI (zero_ssi\<lparr>ssi_fp := Some 0, ssi_ssi := 1, ssi_cacheOffset := 1, ssi_cache := CHR ''<'' # zeros 63\<rparr>)\<rparr>\<rparr>"


text \<open>
  An error reply can lose its end. When the acknowledgement of the first part of its header
  comes while a rest waits that the stack has room for, the request ends at once: the rest is
  never written and the connection is closed or used for the next request.
\<close>

theorem error_reply_cut:
  assumes "q_state q = HTTP_STATE_SENDING_HEADER" and "q_result q < 0" and "p_sending (ctxResponse q) \<noteq> 0" and "q_pcb q \<noteq> None"
    and "0 < p_bytesLeft (ctxResponse q)" and "p_bytesLeft (ctxResponse q) < e_sndbuf e (g_calls g)" and "p_dwOperStage (ctxResponse q) \<noteq> STAGE_END"
    and "p_appContext (ctxResponse q) = App_SSI ctx"
  shows "\<exists>q' g'. HttpRequestProc e HTTP_PROC_CALLER_SENT q g = Some (q', g') \<and> q_state q' = HTTP_STATE_IDLE \<and> written_on pcb g' = written_on pcb g"
proof -
  have fl: "must_flush e q g = Some False" using assms(4-7) by (auto simp: must_flush_def Let_def)
  let ?q = "q\<lparr>q_state := HTTP_STATE_REQUEST_END\<rparr>"
  have "HttpResponseProc e HTTP_PROC_CALLER_SENT q g = Some (?q, g)"
    using assms(1,2,3) fl by (simp add: HttpResponseProc_def send_body_def)
  then have p: "HttpRequestProc e HTTP_PROC_CALLER_SENT q g = end_request e ?q g"
    using HttpRequestProc_sending [of q e HTTP_PROC_CALLER_SENT g] assms(1) by simp
  have "\<exists>ctx. p_appContext (ctxResponse ?q) = App_SSI ctx" using assms(8) by simp
  from end_request_ends [OF this, of e g pcb] p show ?thesis by metis
qed

theorem error_reply_cut_witness:
  "\<exists>q' g'. HttpRequestProc sample_wide_env HTTP_PROC_CALLER_SENT
      ((sample_serving 20)\<lparr>q_state := HTTP_STATE_SENDING_HEADER, q_result := - 404\<rparr>) sample_serving_glob = Some (q', g')
    \<and> q_state q' = HTTP_STATE_IDLE \<and> written_on 7 g' = []"
  using error_reply_cut [of "(sample_serving 20)\<lparr>q_state := HTTP_STATE_SENDING_HEADER, q_result := - 404\<rparr>" sample_wide_env sample_serving_glob
      "zero_ssi\<lparr>ssi_fp := Some 0\<rparr>" 7]
  by (simp add: sample_serving_def sample_page_request_def sample_context_def zero_context_def zero_response_def sample_wide_env_def
      written_on_def sample_serving_glob_def sample_glob_def)

end
