(* ===== verification/Tag_Pages.thy ===== *)
theory Tag_Pages
  imports Delivery
begin

text \<open>
  Pages with tags: the reader of \<^verbatim>\<open>WEB_ReadContent\<close> takes such a page through a cache of 64 bytes
  and replaces each tag by its value, a block at a time. It is compared with a reference that
  replaces the tags in the whole text at once.
\<close>

section \<open>The reference\<close>

text \<open>
  \<open>None\<close> and \<open>Some name\<close> are the two states, in text and in a tag whose name was read so far. The
  page has no reading (\<open>None\<close> as the result) when a tag is not closed, when its name has a NUL or more
  than 62 characters, or when a tag is not over 64 characters before the end of the page.
\<close>

function expand :: "(string \<Rightarrow> string) \<Rightarrow> string option \<Rightarrow> string \<Rightarrow> string option" where
  "expand v None s =
     (if strstr s tagStart = None then Some s
      else if length s \<le> MAX_TAG_LEN then None
      else if prefix tagStart s then expand v (Some []) (drop 5 s)
      else map_option (Cons (hd s)) (expand v None (tl s)))"
| "expand v (Some n) s =
     (if length s \<le> MAX_TAG_LEN then None
      else if prefix tagEnd s then map_option ((@) (v n)) (expand v None (drop 3 s))
      else if hd s \<noteq> NUL \<and> length n < 62 then expand v (Some (n @ [hd s])) (tl s)
      else None)"
  by pat_completeness auto
termination
  by (relation "measure (\<lambda>(v, st, s). length s)") auto

declare expand.simps [simp del]

lemma tags_length: "length tagStart = 5" "length tagEnd = 3" "hd tagStart = CHR ''<''" "hd tagEnd = CHR ''-''"
  by (simp_all add: tagStart_def tagEnd_def)

text \<open>The tests for the two marks do not depend on the case, which the marks do not have.\<close>

definition mark_chars :: "char list" where
  "mark_chars = ''<!-#>''"

lemma upper_symbol: "d \<in> set mark_chars \<Longrightarrow> toUpper c = toUpper d \<Longrightarrow> c = d"
proof -
  assume d: "d \<in> set mark_chars" and e: "toUpper c = toUpper d"
  have ud: "toUpper d = word_of_nat (ord d)" "ord d < 64"
  proof -
    have "\<forall>d \<in> set mark_chars. toUpper d = word_of_nat (ord d) \<and> ord d < 64" by code_simp
    with d show "toUpper d = word_of_nat (ord d)" "ord d < 64" by blast+
  qed
  have ud': "unat (toUpper d) = ord d" using ud by (simp add: unsigned_of_nat take_bit_nat_eq_self)
  show "c = d"
  proof (cases "97 \<le> ord c \<and> ord c \<le> 122")
    case True
    have "\<forall>k \<in> set [97..<123]. unat ((word_of_nat k :: u8) AND 0xDF) \<ge> 64" by code_simp
    moreover have "ord c \<in> set [97..<123]" unfolding set_upt atLeastLessThan_iff using True by arith
    ultimately have "unat ((word_of_nat (ord c) :: u8) AND 0xDF) \<ge> 64" by (rule bspec)
    moreover have "toUpper c = (word_of_nat (ord c) :: u8) AND 0xDF"
      using True by (simp add: toUpper_def Let_def word_le_nat_alt unsigned_of_nat take_bit_nat_eq_self)
    ultimately have "unat (toUpper c) \<ge> 64" by simp
    then show ?thesis unfolding e ud' using ud(2) by simp
  next
    case False
    then have "toUpper c = word_of_nat (ord c)"
      by (auto simp: toUpper_def Let_def word_le_nat_alt unsigned_of_nat take_bit_nat_eq_self)
    then have "unat (toUpper c) = ord c" by (simp add: unsigned_of_nat take_bit_nat_eq_self)
    with e ud' have "ord c = ord d" by simp
    then show ?thesis by simp
  qed
qed

lemma upper_map: "set b \<subseteq> set mark_chars \<Longrightarrow> map toUpper a = map toUpper b \<longleftrightarrow> a = b"
  by (auto simp: list_eq_iff_nth_eq subset_iff intro: upper_symbol dest: map_eq_imp_length_eq)

lemma prefix_take_iff: "prefix t s \<longleftrightarrow> take (length t) s = t"
  by (metis append_eq_conv_conj prefix_def)

lemma at_mark:
  assumes "set tag \<subseteq> set mark_chars"
  shows "Strnicmp (cstr x) tag (length tag) = 0 \<longleftrightarrow> prefix tag x"
proof -
  have nf: "nul_free tag" using assms by (auto simp: nul_free_def mark_chars_def)
  have "Strnicmp (cstr x) tag (length tag) = 0 \<longleftrightarrow> take (length tag) (cstr x) = tag"
    using upper_map [OF assms] by (simp add: Strnicmp_eq_0_iff)
  also have "\<dots> \<longleftrightarrow> prefix tag x"
  proof
    assume "take (length tag) (cstr x) = tag"
    then have "prefix tag (cstr x)" by (metis take_is_prefix)
    moreover have "prefix (cstr x) x" by (metis take_cstr take_is_prefix)
    ultimately show "prefix tag x" by (rule prefix_order.trans)
  next
    assume "prefix tag x"
    then obtain y where "x = tag @ y" by (auto simp: prefix_def)
    moreover have "cstr (tag @ y) = tag @ cstr y" using nf by (induction tag) auto
    ultimately show "take (length tag) (cstr x) = tag" by simp
  qed
  finally show ?thesis .
qed

lemma at_tags:
  "Strnicmp (cstr x) tagStart (length tagStart) = 0 \<longleftrightarrow> prefix tagStart x"
  "Strnicmp (cstr x) tagEnd (length tagEnd) = 0 \<longleftrightarrow> prefix tagEnd x"
  by (rule at_mark, simp add: tagStart_def tagEnd_def mark_chars_def)+

text \<open>One step of the reference, in the three ways it goes on.\<close>

lemma expand_copy:
  assumes "expand v None (c # s) = Some t" and "\<not> prefix tagStart (c # s)"
  obtains t' where "expand v None s = Some t'" "t = c # t'"
proof (cases "strstr (c # s) tagStart = None")
  case True
  then have "strstr s tagStart = None" using assms(2) by (simp add: strstr_Cons)
  with True assms(1) show ?thesis by (intro that [of s]) (simp_all add: expand.simps)
next
  case False
  with assms that show ?thesis by (auto simp: expand.simps(1) [of v "c # s"] split: if_splits)
qed

lemma expand_start: "expand v None (tagStart @ s) = Some t \<Longrightarrow> expand v (Some []) s = Some t"
  by (subst (asm) expand.simps) (auto simp: tags_length strstr.simps split: if_splits)

lemma expand_end:
  assumes "expand v (Some n) (tagEnd @ s) = Some t"
  obtains t' where "expand v None s = Some t'" "t = v n @ t'"
  using assms that by (subst (asm) expand.simps) (auto simp: tags_length split: if_splits)

lemma expand_name:
  assumes "expand v (Some n) (c # s) = Some t" and "\<not> prefix tagEnd (c # s)"
  shows "expand v (Some (n @ [c])) s = Some t" "c \<noteq> NUL" "length n < 62"
  using assms by (subst (asm) expand.simps, auto split: if_splits)+

lemma expand_short:
  assumes "expand v st s = Some t" and "length s \<le> MAX_TAG_LEN"
  shows "st = None \<and> t = s"
  using assms by (cases st) (auto simp: expand.simps split: if_splits)

section \<open>The cache and the state of the reader\<close>

text \<open>What of the cache is not consumed yet, and the state the context stands for.\<close>

definition unread :: "SSI_Context \<Rightarrow> nat \<Rightarrow> bytes" where
  "unread ctx k = drop k (take (nat (ssi_cacheOffset ctx)) (ssi_cache ctx))"

definition in_state :: "SSI_Context \<Rightarrow> string option \<Rightarrow> bool" where
  "in_state ctx st \<longleftrightarrow> length (ssi_cache ctx) = MAX_TAG_LEN \<and> 0 \<le> ssi_cacheOffset ctx \<and> ssi_cacheOffset ctx \<le> int MAX_TAG_LEN
     \<and> (case st of
          None \<Rightarrow> (ssi_ssiState ctx = 0 \<or> ssi_ssiState ctx = 1) \<and> ssi_tagLength ctx = 0 \<and> ssi_tagName ctx = zeros 64
        | Some n \<Rightarrow> ssi_ssiState ctx = 2 \<and> ssi_tagLength ctx = int (length n) \<and> length (ssi_tagName ctx) = 64 \<and> length n \<le> 62
            \<and> nul_free n \<and> take (length n) (ssi_tagName ctx) = n \<and> ssi_tagName ctx ! length n = NUL)"

lemma unread_nth:
  assumes "int k < ssi_cacheOffset ctx" and "ssi_cacheOffset ctx \<le> int (length (ssi_cache ctx))"
  shows "unread ctx k = ssi_cache ctx ! k # unread ctx (Suc k)"
proof -
  have "k < length (take (nat (ssi_cacheOffset ctx)) (ssi_cache ctx))" using assms by simp
  from Cons_nth_drop_Suc [OF this] assms show ?thesis by (simp add: unread_def)
qed

lemma length_unread: "ssi_cacheOffset ctx \<le> int (length (ssi_cache ctx)) \<Longrightarrow> length (unread ctx k) = nat (ssi_cacheOffset ctx) - k"
  by (simp add: unread_def)

text \<open>With enough unread characters a mark of the cache is a mark of the page, and the other way round.\<close>

lemma prefix_unread:
  assumes "int k \<le> ssi_cacheOffset ctx - int (length t)" and "ssi_cacheOffset ctx \<le> int (length (ssi_cache ctx))"
  shows "prefix t (drop k (ssi_cache ctx)) \<longleftrightarrow> prefix t (unread ctx k @ fut)"
proof -
  have l: "length t \<le> length (unread ctx k)" using assms by (simp add: length_unread)
  have "take (length t) (drop k (ssi_cache ctx)) = take (length t) (unread ctx k)"
  proof -
    have "nat (ssi_cacheOffset ctx) - k \<ge> length t" using assms(1) by simp
    then show ?thesis by (simp add: unread_def drop_take min_def)
  qed
  then show ?thesis using l by (simp add: prefix_take_iff)
qed

lemma drop_unread: "drop n (unread ctx k) = unread ctx (k + n)"
  by (simp add: unread_def add.commute)

lemma unread_prefix:
  assumes "prefix t (unread ctx k @ fut)" and "length t \<le> length (unread ctx k)"
  shows "unread ctx k = t @ unread ctx (k + length t)"
proof -
  from assms have "take (length t) (unread ctx k) = t" by (simp add: prefix_take_iff)
  then show ?thesis using append_take_drop_id [of "length t" "unread ctx k"] by (simp add: drop_unread)
qed

text \<open>A character joins the name of the tag.\<close>

lemma append_name:
  assumes "in_state ctx (Some n)" and "length n < 62" and "c \<noteq> NUL"
  obtains ctx' where "ssi_append_name c ctx = Some ctx'" "in_state ctx' (Some (n @ [c]))" "ssi_cache ctx' = ssi_cache ctx"
    "ssi_cacheOffset ctx' = ssi_cacheOffset ctx" "ssi_fp ctx' = ssi_fp ctx" "ssi_ssi ctx' = ssi_ssi ctx"
proof -
  let ?l = "length n"
  from assms(1) have t: "ssi_tagLength ctx = int ?l" "length (ssi_tagName ctx) = 64" "take ?l (ssi_tagName ctx) = n" "nul_free n"
    by (simp_all add: in_state_def)
  let ?a = "(ssi_tagName ctx)[?l := c, Suc ?l := NUL]"
  have "take (Suc ?l) ?a = n @ [c]" using t assms(2) by (simp add: take_Suc_conv_app_nth)
  moreover have "?a ! Suc ?l = NUL" using t assms(2) by simp
  moreover have "ssi_append_name c ctx = Some (ctx\<lparr>ssi_tagName := ?a, ssi_tagLength := int ?l + 1\<rparr>)"
    using t assms(2) by (simp add: ssi_append_name_def in_arr_def nat_add_distrib)
  ultimately show ?thesis using assms t
    by (intro that [of "ctx\<lparr>ssi_tagName := ?a, ssi_tagLength := int ?l + 1\<rparr>"]) (simp_all add: in_state_def)
qed

lemma name_read: "in_state ctx (Some n) \<Longrightarrow> cstr_at (ssi_tagName ctx) 0 = Some n"
proof -
  assume s: "in_state ctx (Some n)"
  then have t: "take (length n) (ssi_tagName ctx) = n" "ssi_tagName ctx ! length n = NUL" "length n < length (ssi_tagName ctx)" "nul_free n"
    by (auto simp: in_state_def)
  have "ssi_tagName ctx = take (length n) (ssi_tagName ctx) @ ssi_tagName ctx ! length n # drop (Suc (length n)) (ssi_tagName ctx)"
    by (rule id_take_nth_drop [OF t(3)])
  then have e: "ssi_tagName ctx = n @ NUL # drop (Suc (length n)) (ssi_tagName ctx)" unfolding t(1,2) .
  have "cstr (ssi_tagName ctx) = n" by (subst e) (rule cstr_append_NUL [OF t(4)])
  moreover have "NUL \<in> set (ssi_tagName ctx)" by (subst e) simp
  ultimately show ?thesis by (simp add: cstr_at_def)
qed

section \<open>The value of a tag\<close>

lemma length_fmt_u: "n < 10 ^ k \<Longrightarrow> 0 < k \<Longrightarrow> length (fmt_u n) \<le> k"
proof (induction k arbitrary: n)
  case (Suc k)
  show ?case
  proof (cases "n < 10")
    case False
    then have "0 < k" using Suc.prems(1) by (cases k) auto
    moreover have "n div 10 < 10 ^ k" using Suc.prems(1) by (simp add: div_less_iff_less_mult mult.commute)
    ultimately have "length (fmt_u (n div 10)) \<le> k" using Suc.IH by blast
    then show ?thesis using False by (simp add: fmt_u_def base_digits.simps [of 10 n])
  qed (simp add: fmt_u_def base_digits.simps [of 10 n])
qed simp

lemma length_provider:
  "length (fst (FillDhcp g 63)) \<le> 63" "length (fst (FillLog g 63)) \<le> 63" "length (fst (FillMAC g 63)) \<le> 63"
  "length (fst (FillIP g 63)) \<le> 63" "length (fst (FillGateway g 63)) \<le> 63" "length (fst (FillSubnet g 63)) \<le> 63"
  "length (fst (FillSessionTimeout g 63)) \<le> 63"
proof -
  have "nat (tdiv (nSessionTimeout (g_WorkConfig g)) (60 * 1000) mod 2 ^ 32) < 10 ^ 10"
    using pos_mod_bound [of "2 ^ 32" "tdiv (nSessionTimeout (g_WorkConfig g)) (60 * 1000)"] by simp
  from length_fmt_u [OF this] show "length (fst (FillSessionTimeout g 63)) \<le> 63" by (simp add: FillSessionTimeout_def fill_result_def)
  have "length (fmt_u 0) \<le> 1" "length (fmt_u 1) \<le> 1" by (rule length_fmt_u, simp_all)+
  then show "length (fst (FillDhcp g 63)) \<le> 63" "length (fst (FillLog g 63)) \<le> 63" by (simp_all add: FillDhcp_def FillLog_def fill_result_def)
qed (simp_all add: FillMAC_def FillIP_def FillGateway_def FillSubnet_def fill_result_def Let_def)

lemma length_tag_value: "length (tag_value g n) \<le> 63"
proof (cases "lookup_tag g_Getters n")
  case (Some h)
  then have "h \<in> snd ` set g_Getters" unfolding lookup_tag_map_of by (metis map_of_SomeD image_eqI snd_conv)
  then have "length (case h of TAG_GETTER getter \<Rightarrow> take 63 (getter g) | TAG_PROVIDER p \<Rightarrow> fst (p g 63)) \<le> 63"
    by (auto simp: g_Getters_def length_provider)
  then show ?thesis using Some by (simp add: tag_value_def)
qed (simp add: tag_value_def)

lemma ReplaceTag_room: "63 \<le> m \<Longrightarrow> ReplaceTag g n m = Some (tag_value g n)"
  using length_tag_value [of g n] by (simp add: ReplaceTag_def Let_def)

lemma tag_value_files: "tag_value (set_files fs g) n = tag_value g n"
proof (cases "lookup_tag g_Getters n")
  case (Some h)
  then have "h \<in> snd ` set g_Getters" unfolding lookup_tag_map_of by (metis map_of_SomeD image_eqI snd_conv)
  then have "(case h of TAG_GETTER getter \<Rightarrow> take 63 (getter (set_files fs g)) | TAG_PROVIDER p \<Rightarrow> fst (p (set_files fs g) 63))
    = (case h of TAG_GETTER getter \<Rightarrow> take 63 (getter g) | TAG_PROVIDER p \<Rightarrow> fst (p g 63))"
    by (auto simp: g_Getters_def set_files_def FillDhcp_def FillLog_def FillMAC_def FillIP_def FillGateway_def FillSubnet_def
        FillSessionTimeout_def GetMyMAC_def GetLongIP_def GetGateway_def GetSubnet_def GetLocation_def GetColor_def GetDate_def GetFont_def Let_def)
  then show ?thesis using Some by (simp add: tag_value_def)
qed (simp add: tag_value_def)

section \<open>One turn of the reader\<close>

definition same_cache :: "SSI_Context \<Rightarrow> SSI_Context \<Rightarrow> bool" where
  "same_cache ctx ctx' \<longleftrightarrow> ssi_cache ctx' = ssi_cache ctx \<and> ssi_cacheOffset ctx' = ssi_cacheOffset ctx \<and> ssi_fp ctx' = ssi_fp ctx
     \<and> ssi_ssi ctx' = ssi_ssi ctx"

lemma same_cache_unread: "same_cache ctx ctx' \<Longrightarrow> unread ctx' k = unread ctx k"
  by (simp add: same_cache_def unread_def)

text \<open>The output so far followed by what the reference makes of the rest is what it makes of all.\<close>

definition reads_on :: "glob \<Rightarrow> bytes \<Rightarrow> string \<Rightarrow> SSI_Context \<Rightarrow> string option \<Rightarrow> bytes \<Rightarrow> nat \<Rightarrow> bool" where
  "reads_on g fut t ctx st out k \<longleftrightarrow> in_state ctx st \<and> int k \<le> ssi_cacheOffset ctx
     \<and> (\<exists>t'. expand (tag_value g) st (unread ctx k @ fut) = Some t' \<and> out @ t' = t)"

lemma in_state_searching: "in_state ctx None \<Longrightarrow> in_state (ctx\<lparr>ssi_ssiState := 1\<rparr>) None"
  by (simp add: in_state_def)

lemma ssi_turn_text:
  assumes s: "in_state ctx None" and k: "int k < ssi_cacheOffset ctx" and e: "expand (tag_value g) None (unread ctx k @ fut) = Some t"
  obtains (copied) ctx' t' where "ssi_turn g M (ctx, out, k)
      = Some (ctx', out @ [ssi_cache ctx ! k], Suc k, int (Suc (length out)) \<ge> M, \<not> int (Suc (length out)) \<ge> M)"
      "same_cache ctx ctx'" "in_state ctx' None" "expand (tag_value g) None (unread ctx (Suc k) @ fut) = Some t'" "t = ssi_cache ctx ! k # t'"
  | (tag) ctx' where "ssi_turn g M (ctx, out, k) = Some (ctx', out, k + 5, True, False)" "same_cache ctx ctx'" "in_state ctx' (Some [])"
      "expand (tag_value g) (Some []) (unread ctx (k + 5) @ fut) = Some t" "int (k + 5) \<le> ssi_cacheOffset ctx"
  | (blocked) ctx' where "ssi_turn g M (ctx, out, k) = Some (ctx', out, k, False, False)" "same_cache ctx ctx'" "in_state ctx' None"
      "length (unread ctx k) < 5"
proof -
  let ?c = "ssi_cache ctx ! k"
  have len: "length (ssi_cache ctx) = 64" "ssi_cacheOffset ctx \<le> 64" and st: "ssi_ssiState ctx = 0 \<or> ssi_ssiState ctx = 1" using s by (simp_all add: in_state_def)
  have in_arr: "\<not> length (ssi_cache ctx) \<le> k" using k len by simp
  have u: "unread ctx k = ?c # unread ctx (Suc k)" using unread_nth [OF k] len by simp
  let ?ctx = "if ssi_ssiState ctx = 0 then ctx\<lparr>ssi_ssiState := 1\<rparr> else ctx"
  have same: "same_cache ctx ?ctx" by (simp add: same_cache_def)
  have state: "in_state ?ctx None" "ssi_ssiState ?ctx = 1" "ssi_cache ?ctx = ssi_cache ctx" "ssi_cacheOffset ?ctx = ssi_cacheOffset ctx"
    using s st in_state_searching [OF s] by auto
  consider "?c \<noteq> CHR ''<''" | "?c = CHR ''<''" "int k \<le> ssi_cacheOffset ctx - 5" "\<not> prefix tagStart (drop k (ssi_cache ctx))"
    | "?c = CHR ''<''" "int k \<le> ssi_cacheOffset ctx - 5" "prefix tagStart (drop k (ssi_cache ctx))"
    | "?c = CHR ''<''" "\<not> int k \<le> ssi_cacheOffset ctx - 5" by blast
  then show ?thesis
  proof cases
    case 1
    then have np: "\<not> prefix tagStart (unread ctx k @ fut)" unfolding u by (simp add: tagStart_def)
    with e u obtain t' where t': "expand (tag_value g) None (unread ctx (Suc k) @ fut) = Some t'" "t = ?c # t'"
      using expand_copy [of "tag_value g" ?c "unread ctx (Suc k) @ fut" t] by auto
    have "ssi_turn g M (ctx, out, k) = Some (?ctx, out @ [?c], Suc k, int (Suc (length out)) \<ge> M, \<not> int (Suc (length out)) \<ge> M)"
      using 1 in_arr state by (simp add: ssi_turn_def Let_def tags_length)
    from copied [OF this same state(1) t'] show ?thesis .
  next
    case 2
    then have np: "\<not> prefix tagStart (unread ctx k @ fut)" using prefix_unread [of k ctx tagStart fut] len by (simp add: tags_length)
    with e u obtain t' where t': "expand (tag_value g) None (unread ctx (Suc k) @ fut) = Some t'" "t = ?c # t'"
      using expand_copy [of "tag_value g" ?c "unread ctx (Suc k) @ fut" t] by auto
    have "ssi_turn g M (ctx, out, k) = Some (?ctx, out @ [?c], Suc k, int (Suc (length out)) \<ge> M, \<not> int (Suc (length out)) \<ge> M)"
      using 2 in_arr state at_tags(1) [of "drop k (ssi_cache ctx)"] by (simp add: ssi_turn_def Let_def tags_length)
    from copied [OF this same state(1) t'] show ?thesis .
  next
    case 3
    then have p: "prefix tagStart (unread ctx k @ fut)" using prefix_unread [of k ctx tagStart fut] len by (simp add: tags_length)
    have "length tagStart \<le> length (unread ctx k)" using 3(2) len by (simp add: length_unread tags_length)
    from unread_prefix [OF p this] have "unread ctx k = tagStart @ unread ctx (k + 5)" by (simp add: tags_length)
    with e have t: "expand (tag_value g) (Some []) (unread ctx (k + 5) @ fut) = Some t" using expand_start by simp
    have "ssi_turn g M (ctx, out, k) = Some (?ctx\<lparr>ssi_ssiState := 2\<rparr>, out, k + 5, True, False)"
      using 3 in_arr state at_tags(1) [of "drop k (ssi_cache ctx)"] by (simp add: ssi_turn_def Let_def tags_length)
    moreover have "in_state (?ctx\<lparr>ssi_ssiState := 2\<rparr>) (Some [])" using s by (simp add: in_state_def zeros_def)
    moreover have "same_cache ctx (?ctx\<lparr>ssi_ssiState := 2\<rparr>)" by (simp add: same_cache_def)
    ultimately show ?thesis using t 3(2) by (intro tag [of "?ctx\<lparr>ssi_ssiState := 2\<rparr>"]) simp_all
  next
    case 4
    have "ssi_turn g M (ctx, out, k) = Some (?ctx, out, k, False, False)"
      using 4 in_arr state by (simp add: ssi_turn_def Let_def tags_length)
    moreover have "length (unread ctx k) < 5" using 4(2) len k by (simp add: length_unread)
    ultimately show ?thesis using same state(1) by (intro blocked)
  qed
qed

lemma ssi_turn_name:
  assumes s: "in_state ctx (Some n)" and k: "int k < ssi_cacheOffset ctx" and e: "expand (tag_value g) (Some n) (unread ctx k @ fut) = Some t"
    and M: "113 \<le> M"
  obtains (joined) ctx' where "ssi_turn g M (ctx, [], k) = Some (ctx', [], Suc k, False, True)" "same_cache ctx ctx'"
      "in_state ctx' (Some (n @ [ssi_cache ctx ! k]))" "expand (tag_value g) (Some (n @ [ssi_cache ctx ! k])) (unread ctx (Suc k) @ fut) = Some t"
  | (closed) ctx' t' where "ssi_turn g M (ctx, [], k) = Some (ctx', tag_value g n, k + 3, False, True)" "same_cache ctx ctx'" "in_state ctx' None"
      "expand (tag_value g) None (unread ctx (k + 3) @ fut) = Some t'" "t = tag_value g n @ t'" "int (k + 3) \<le> ssi_cacheOffset ctx"
  | (blocked) "ssi_turn g M (ctx, [], k) = Some (ctx, [], k, False, False)" "length (unread ctx k) < 5"
proof -
  let ?c = "ssi_cache ctx ! k"
  have len: "length (ssi_cache ctx) = 64" "ssi_cacheOffset ctx \<le> 64" and st: "ssi_ssiState ctx = 2" using s by (simp_all add: in_state_def)
  have in_arr: "\<not> length (ssi_cache ctx) \<le> k" using k len by simp
  have u: "unread ctx k = ?c # unread ctx (Suc k)" using unread_nth [OF k] len by simp
  have join: "\<not> prefix tagEnd (unread ctx k @ fut) \<Longrightarrow> (ssi_turn g M (ctx, [], k) = do { ctx \<leftarrow> ssi_append_name ?c ctx; Some (ctx, [], Suc k, False, True) })
    \<Longrightarrow> thesis"
  proof -
    assume np: "\<not> prefix tagEnd (unread ctx k @ fut)"
      and turn: "ssi_turn g M (ctx, [], k) = do { ctx \<leftarrow> ssi_append_name ?c ctx; Some (ctx, [], Suc k, False, True) }"
    from e np u have x: "expand (tag_value g) (Some (n @ [?c])) (unread ctx (Suc k) @ fut) = Some t" "?c \<noteq> NUL" "length n < 62"
      using expand_name [of "tag_value g" n ?c "unread ctx (Suc k) @ fut" t] by auto
    from append_name [OF s x(3,2)] obtain ctx' where a: "ssi_append_name ?c ctx = Some ctx'" "in_state ctx' (Some (n @ [?c]))" "ssi_cache ctx' = ssi_cache ctx"
      "ssi_cacheOffset ctx' = ssi_cacheOffset ctx" "ssi_fp ctx' = ssi_fp ctx" "ssi_ssi ctx' = ssi_ssi ctx" .
    then have "same_cache ctx ctx'" by (simp add: same_cache_def)
    with a x turn show thesis by (intro joined [of ctx']) simp_all
  qed
  consider "?c \<noteq> CHR ''-''" | "?c = CHR ''-''" "int k \<le> ssi_cacheOffset ctx - 3" "\<not> prefix tagEnd (drop k (ssi_cache ctx))"
    | "?c = CHR ''-''" "int k \<le> ssi_cacheOffset ctx - 3" "prefix tagEnd (drop k (ssi_cache ctx))"
    | "?c = CHR ''-''" "\<not> int k \<le> ssi_cacheOffset ctx - 3" by blast
  then show ?thesis
  proof cases
    case 1
    then have "\<not> prefix tagEnd (unread ctx k @ fut)" unfolding u by (simp add: tagEnd_def)
    then show ?thesis by (rule join) (use 1 in_arr st in \<open>simp add: ssi_turn_def Let_def tags_length\<close>)
  next
    case 2
    then have "\<not> prefix tagEnd (unread ctx k @ fut)" using prefix_unread [of k ctx tagEnd fut] len by (simp add: tags_length)
    then show ?thesis
      by (rule join) (use 2 in_arr st at_tags(2) [of "drop k (ssi_cache ctx)"] in \<open>simp add: ssi_turn_def Let_def tags_length\<close>)
  next
    case 3
    then have p: "prefix tagEnd (unread ctx k @ fut)" using prefix_unread [of k ctx tagEnd fut] len by (simp add: tags_length)
    have "length tagEnd \<le> length (unread ctx k)" using 3(2) len by (simp add: length_unread tags_length)
    from unread_prefix [OF p this] have "unread ctx k = tagEnd @ unread ctx (k + 3)" by (simp add: tags_length)
    with e obtain t' where t: "expand (tag_value g) None (unread ctx (k + 3) @ fut) = Some t'" "t = tag_value g n @ t'"
      using expand_end [of "tag_value g" n "unread ctx (k + 3) @ fut" t] by auto
    let ?ctx = "ctx\<lparr>ssi_ssiState := 0, ssi_tagLength := 0, ssi_tagName := zeros 64\<rparr>"
    have "63 \<le> M - int (length ([] :: bytes)) - 50" using M by simp
    from ReplaceTag_room [OF this, of g n] have "ssi_turn g M (ctx, [], k) = Some (?ctx, tag_value g n, k + 3, False, True)"
      using 3 in_arr st at_tags(2) [of "drop k (ssi_cache ctx)"] name_read [OF s] by (simp add: ssi_turn_def Let_def tags_length)
    moreover have "in_state ?ctx None" "same_cache ctx ?ctx" using s by (simp_all add: in_state_def same_cache_def)
    ultimately show ?thesis using t 3(2) by (intro closed [of ?ctx t']) simp_all
  next
    case 4
    have "ssi_turn g M (ctx, [], k) = Some (ctx, [], k, False, False)"
      using 4 in_arr st by (simp add: ssi_turn_def Let_def tags_length)
    moreover have "length (unread ctx k) < 5" using 4(2) len k by (simp add: length_unread)
    ultimately show ?thesis by (rule blocked)
  qed
qed

section \<open>One pass over the cache\<close>

text \<open>
  The pass ends with something ready to be sent, having consumed a character, or with at most
  four characters left; in a tag nothing was written before.
\<close>

lemma ssi_pass_ok:
  assumes "reads_on g fut t ctx st out k" and "st \<noteq> None \<longrightarrow> out = []" and "int (length out) < M" and "113 \<le> M"
  shows "\<exists>ctx' out' k' ready st'. ssi_pass g M (ctx, out, k) = Some (ctx', out', k', ready) \<and> same_cache ctx ctx'
    \<and> reads_on g fut t ctx' st' out' k' \<and> int (length out') \<le> M
    \<and> (if ready then k < k' else length (unread ctx' k') < 5 \<and> int (length out') < M \<and> k \<le> k' \<and> (st' \<noteq> None \<longrightarrow> out' = []))"
  using assms
proof (induction g M "(ctx, out, k)" arbitrary: ctx out k st rule: ssi_pass.induct)
  case (1 g M ctx out k)
  from 1(2) have s: "in_state ctx st" "int k \<le> ssi_cacheOffset ctx" by (simp_all add: reads_on_def)
  from 1(2) obtain t' where e: "expand (tag_value g) st (unread ctx k @ fut) = Some t'" and t: "out @ t' = t" by (auto simp: reads_on_def)
  show ?case
  proof (cases "int k < ssi_cacheOffset ctx")
    case False
    then have "length (unread ctx k) < 5" using s by (simp add: unread_def in_state_def)
    then show ?thesis using False 1(2-5)
      by (intro exI [of _ ctx] exI [of _ out] exI [of _ k] exI [of _ False] exI [of _ st])
        (simp add: ssi_pass.simps [of g M ctx out k] same_cache_def)
  next
    case True
    text \<open>The three ways a turn ends the pass or lets it go on.\<close>
    have stop: ?thesis if "ssi_turn g M (ctx, out, k) = Some (ctx', out', k', r, False)" "same_cache ctx ctx'" "reads_on g fut t ctx' st' out' k'"
      "int (length out') \<le> M" "if r then k < k' else length (unread ctx' k') < 5 \<and> int (length out') < M \<and> k \<le> k' \<and> (st' \<noteq> None \<longrightarrow> out' = [])"
      for ctx' out' k' r st'
      using that True
      by (intro exI [of _ ctx'] exI [of _ out'] exI [of _ k'] exI [of _ r] exI [of _ st']) (simp add: ssi_pass.simps [of g M ctx out k])
    have go: ?thesis if turn: "ssi_turn g M (ctx, out, k) = Some (ctx', out', k', r, True)" and same: "same_cache ctx ctx'"
      and on: "reads_on g fut t ctx' st' out' k'" "st' \<noteq> None \<longrightarrow> out' = []" "int (length out') < M" and "k < k'"
      for ctx' out' k' r st'
    proof -
      have p: "ssi_pass g M (ctx, out, k) = ssi_pass g M (ctx', out', k')" using turn True by (simp add: ssi_pass.simps [of g M ctx out k])
      from 1(1) [OF True turn refl refl refl refl TrueI on 1(5)] same \<open>k < k'\<close> show ?thesis
        unfolding p by (fastforce simp: same_cache_def split: if_splits)
    qed
    show ?thesis
    proof (cases st)
      case None
      have s0: "in_state ctx None" and e0: "expand (tag_value g) None (unread ctx k @ fut) = Some t'" using s(1) e None by simp_all
      from s0 True e0 show ?thesis
      proof (cases rule: ssi_turn_text [where M = M and out = out])
        case (copied ctx' t'')
        have on: "reads_on g fut t ctx' None (out @ [ssi_cache ctx ! k]) (Suc k)"
          using copied t True same_cache_unread [OF copied(2)] by (auto simp: reads_on_def same_cache_def)
        show ?thesis
        proof (cases "int (Suc (length out)) \<ge> M")
          case True
          with copied(1) have "ssi_turn g M (ctx, out, k) = Some (ctx', out @ [ssi_cache ctx ! k], Suc k, True, False)" by simp
          from stop [OF this copied(2) on] 1(4) show ?thesis by simp
        next
          case False
          with copied(1) have "ssi_turn g M (ctx, out, k) = Some (ctx', out @ [ssi_cache ctx ! k], Suc k, False, True)" by simp
          from go [OF this copied(2) on] False show ?thesis by simp
        qed
      next
        case (tag ctx')
        have "reads_on g fut t ctx' (Some []) out (k + 5)"
          using tag t same_cache_unread [OF tag(2)] by (auto simp: reads_on_def same_cache_def)
        from stop [OF tag(1,2) this] 1(4) show ?thesis by simp
      next
        case (blocked ctx')
        have "reads_on g fut t ctx' None out k"
          using blocked t e0 s(2) same_cache_unread [OF blocked(2)] by (auto simp: reads_on_def same_cache_def)
        from stop [OF blocked(1,2) this] 1(4) blocked(4) same_cache_unread [OF blocked(2)] show ?thesis by simp
      qed
    next
      case (Some n)
      with 1(3) have o: "out = []" by simp
      have sn: "in_state ctx (Some n)" and en: "expand (tag_value g) (Some n) (unread ctx k @ fut) = Some t'" using s(1) e Some by simp_all
      from sn True en 1(5) show ?thesis
      proof (cases rule: ssi_turn_name)
        case (joined ctx')
        have "reads_on g fut t ctx' (Some (n @ [ssi_cache ctx ! k])) [] (Suc k)"
          using joined t o True same_cache_unread [OF joined(2)] by (auto simp: reads_on_def same_cache_def)
        from go [OF joined(1) [folded o] joined(2) this [folded o]] o 1(5) show ?thesis by simp
      next
        case (closed ctx' t'')
        have on: "reads_on g fut t ctx' None (tag_value g n) (k + 3)"
          using closed t o same_cache_unread [OF closed(2)] by (auto simp: reads_on_def same_cache_def)
        have "ssi_turn g M (ctx, out, k) = Some (ctx', tag_value g n, k + 3, False, True)" using closed(1) o by simp
        from go [OF this closed(2) on] length_tag_value [of g n] 1(5) show ?thesis by simp
      next
        case blocked
        have "ssi_turn g M (ctx, out, k) = Some (ctx, out, k, False, False)" using blocked(1) o by simp
        from stop [OF this _ 1(2)] 1(3,4) blocked(2) show ?thesis by (simp add: same_cache_def)
      qed
    qed
  qed
qed

section \<open>Filling the cache and taking the consumed part out\<close>

lemma unread_fill:
  assumes "0 \<le> ssi_cacheOffset ctx" and "ssi_cacheOffset ctx + int (length bs) \<le> int (length (ssi_cache ctx))"
  obtains cache where "blit (ssi_cache ctx) (ssi_cacheOffset ctx) bs = Some cache" "length cache = length (ssi_cache ctx)"
    "unread (ctx\<lparr>ssi_cache := cache, ssi_cacheOffset := ssi_cacheOffset ctx + int (length bs)\<rparr>) 0 = unread ctx 0 @ bs"
proof -
  have "in_arr (ssi_cache ctx) (ssi_cacheOffset ctx) (int (length bs))" using assms by (simp add: in_arr_def)
  then obtain cache where b: "blit (ssi_cache ctx) (ssi_cacheOffset ctx) bs = Some cache" by (simp add: blit_def)
  have "take (nat (ssi_cacheOffset ctx) + length bs) cache = take (nat (ssi_cacheOffset ctx)) (ssi_cache ctx) @ bs" by (rule take_blit [OF b])
  moreover have "nat (ssi_cacheOffset ctx + int (length bs)) = nat (ssi_cacheOffset ctx) + length bs" using assms(1) by (simp add: nat_add_distrib)
  ultimately show ?thesis using b length_blit [OF b] by (intro that [of cache]) (simp_all add: unread_def)
qed

lemma unread_shift:
  assumes "int k \<le> ssi_cacheOffset ctx" and "ssi_cacheOffset ctx \<le> int (length (ssi_cache ctx))"
  obtains cache where "(if ssi_cacheOffset ctx - int k > 0 then memmove (ssi_cache ctx) 0 (int k) (ssi_cacheOffset ctx - int k) else Some (ssi_cache ctx)) = Some cache"
    "length cache = length (ssi_cache ctx)" "unread (ctx\<lparr>ssi_cacheOffset := ssi_cacheOffset ctx - int k, ssi_cache := cache\<rparr>) 0 = unread ctx k"
proof (cases "ssi_cacheOffset ctx - int k > 0")
  case False
  with assms show ?thesis by (intro that [of "ssi_cache ctx"]) (simp_all add: unread_def)
next
  case True
  let ?n = "ssi_cacheOffset ctx - int k" and ?a = "ssi_cache ctx"
  have m: "memmove ?a 0 (int k) ?n = Some (take (nat ?n) (drop k ?a) @ drop (nat ?n) ?a)"
    using memmove_down [of "int k" ?n ?a] True assms by simp
  have l: "length (take (nat ?n) (drop k ?a)) = nat ?n" using assms True by simp
  have "nat ?n = nat (ssi_cacheOffset ctx) - k" using assms True by simp
  then have "take (nat ?n) (drop k ?a) = unread ctx k" by (simp add: unread_def drop_take)
  then have "unread (ctx\<lparr>ssi_cacheOffset := ?n, ssi_cache := take (nat ?n) (drop k ?a) @ drop (nat ?n) ?a\<rparr>) 0 = unread ctx k"
    using l by (simp add: unread_def)
  moreover have "(if ?n > 0 then memmove ?a 0 (int k) ?n else Some ?a) = Some (take (nat ?n) (drop k ?a) @ drop (nat ?n) ?a)" using True m by simp
  ultimately show ?thesis using length_memmove [OF m] by (rule that [rotated 2])
qed

text \<open>The characters of the page that are not consumed.\<close>

definition rest :: "SSI_Context \<Rightarrow> nat \<Rightarrow> bytes \<Rightarrow> nat" where
  "rest ctx idx content = length (unread ctx 0) + (length content - idx)"

lemma in_state_cache:
  "in_state ctx st \<Longrightarrow> length cache = MAX_TAG_LEN \<Longrightarrow> 0 \<le> off \<Longrightarrow> off \<le> int MAX_TAG_LEN
    \<Longrightarrow> in_state (ctx\<lparr>ssi_cache := cache, ssi_cacheOffset := off\<rparr>) st
      \<and> in_state (ctx\<lparr>ssi_cacheOffset := off, ssi_cache := cache\<rparr>) st"
  by (cases st) (simp_all add: in_state_def)

text \<open>One round of the outer loop: fill, pass, shift.\<close>

lemma ssi_round:
  assumes on: "reads_on g (drop idx content) t ctx st out 0" and o: "st \<noteq> None \<longrightarrow> out = []" "int (length out) < M" "113 \<le> M"
    and f: "file_at e h 0 content idx (set_files fs g)" and fp: "ssi_fp ctx = Some h" and idx: "idx < length content" and off: "ssi_cacheOffset ctx < 64"
  obtains ctx' fs' idx' out' st' ready where
    "ssi_read e g M (int (length content)) ctx fs (int idx) out
      = (if ready then Some (ctx', fs', int idx', out', True) else ssi_read e g M (int (length content)) ctx' fs' (int idx') out')"
    "reads_on g (drop idx' content) t ctx' st' out' 0" "int (length out') \<le> M" "ssi_fp ctx' = Some h" "ssi_ssi ctx' = ssi_ssi ctx"
    "file_at e h 0 content idx' (set_files fs' g)" "idx < idx'" "idx' \<le> length content" "ssi_cacheOffset ctx' < 64"
    "rest ctx' idx' content \<le> rest ctx idx content" "ready \<longrightarrow> rest ctx' idx' content < rest ctx idx content"
    "\<not> ready \<longrightarrow> int (length out') < M \<and> (st' \<noteq> None \<longrightarrow> out' = [])"
proof -
  let ?w = "int (length content)" and ?off = "ssi_cacheOffset ctx"
  from on have s: "in_state ctx st" by (simp add: reads_on_def)
  from on obtain t' where e: "expand (tag_value g) st (unread ctx 0 @ drop idx content) = Some t'" "out @ t' = t" by (auto simp: reads_on_def)
  have c: "0 \<le> ?off" "?off \<le> 64" "length (ssi_cache ctx) = 64" using s by (simp_all add: in_state_def)
  define n where "n = min (length content - idx) (64 - nat ?off)"
  have n: "0 < n" "n \<le> length content - idx" "?off + int n \<le> 64" "min (?w - int idx) (64 - ?off) = int n"
    using idx off c unfolding n_def by arith+
  from file_at_read [OF f _ n(2)] idx obtain fs1 where
    r: "WEB_fread e (Some h) (int n) fs = Some (fs1, take n (drop idx content), 0)" "file_at e h 0 content (idx + n) (set_files fs1 g)"
    by (auto simp: set_files_def)
  define bs where "bs = take n (drop idx content)"
  have lb: "length bs = n" using n(2) by (simp add: bs_def)
  from unread_fill [OF c(1), of bs] c(3) n(3) lb obtain cache where
    b: "blit (ssi_cache ctx) ?off bs = Some cache" "length cache = 64"
      "unread (ctx\<lparr>ssi_cache := cache, ssi_cacheOffset := ?off + int n\<rparr>) 0 = unread ctx 0 @ bs" by auto
  define ctx1 where "ctx1 = ctx\<lparr>ssi_cache := cache, ssi_cacheOffset := ?off + int n\<rparr>"
  have s1: "in_state ctx1 st" unfolding ctx1_def using in_state_cache [OF s, of cache "?off + int n"] b(2) c(1) n(3) by simp
  have u1: "unread ctx1 0 = unread ctx 0 @ bs" using b(3) by (simp add: ctx1_def)
  have "unread ctx1 0 @ drop (idx + n) content = unread ctx 0 @ drop idx content"
    unfolding u1 bs_def by (metis append.assoc append_take_drop_id drop_drop add.commute)
  then have on1: "reads_on g (drop (idx + n) content) t ctx1 st out 0" using s1 e c(1) by (auto simp: reads_on_def ctx1_def)
  from ssi_pass_ok [OF on1 o] obtain ctx2 out2 k ready st2 where
    p: "ssi_pass g M (ctx1, out, 0) = Some (ctx2, out2, k, ready)" "same_cache ctx1 ctx2" "reads_on g (drop (idx + n) content) t ctx2 st2 out2 k"
      "int (length out2) \<le> M" "if ready then 0 < k else length (unread ctx2 k) < 5 \<and> int (length out2) < M \<and> (st2 \<noteq> None \<longrightarrow> out2 = [])" by fastforce
  from p(3) have s2: "in_state ctx2 st2" and k: "int k \<le> ssi_cacheOffset ctx2" by (simp_all add: reads_on_def)
  have c2: "length (ssi_cache ctx2) = 64" "ssi_cacheOffset ctx2 \<le> 64" using s2 by (simp_all add: in_state_def)
  from unread_shift [OF k] c2 obtain cache2 where m: "(if ssi_cacheOffset ctx2 - int k > 0 then memmove (ssi_cache ctx2) 0 (int k) (ssi_cacheOffset ctx2 - int k)
      else Some (ssi_cache ctx2)) = Some cache2" "length cache2 = 64"
      "unread (ctx2\<lparr>ssi_cacheOffset := ssi_cacheOffset ctx2 - int k, ssi_cache := cache2\<rparr>) 0 = unread ctx2 k" by auto
  define ctx3 where "ctx3 = ctx2\<lparr>ssi_cacheOffset := ssi_cacheOffset ctx2 - int k, ssi_cache := cache2\<rparr>"
  have s3: "in_state ctx3 st2" unfolding ctx3_def using in_state_cache [OF s2, of cache2 "ssi_cacheOffset ctx2 - int k"] m(2) k c2 by simp
  have u3: "unread ctx3 0 = unread ctx2 k" using m(3) by (simp add: ctx3_def)
  have on3: "reads_on g (drop (idx + n) content) t ctx3 st2 out2 0" using p(3) s3 u3 k by (auto simp: reads_on_def ctx3_def)
  have "ssi_read e g M ?w ctx fs (int idx) out
      = (if ready then Some (ctx3, fs1, int (idx + n), out2, True) else ssi_read e g M ?w ctx3 fs1 (int (idx + n)) out2)"
    using idx fp r(1) b(1) p(1) m(1) lb n(4)
    by (subst ssi_read.simps) (simp add: bs_def [symmetric] ctx1_def [symmetric] ctx3_def)
  moreover have "ssi_fp ctx3 = Some h" "ssi_ssi ctx3 = ssi_ssi ctx" using p(2) fp by (simp_all add: ctx3_def ctx1_def same_cache_def)
  moreover have off2: "ssi_cacheOffset ctx2 = ?off + int n" using p(2) by (simp add: ctx1_def same_cache_def)
  have l3: "length (unread ctx3 0) = nat (ssi_cacheOffset ctx2) - k" unfolding u3 by (rule length_unread) (use c2 in simp)
  moreover have "ssi_cacheOffset ctx3 < 64"
  proof (cases ready)
    case True
    then show ?thesis using p(5) c2 by (simp add: ctx3_def)
  next
    case False
    then have "nat (ssi_cacheOffset ctx2) - k < 5" using p(5) l3 u3 by simp
    then show ?thesis using k by (simp add: ctx3_def)
  qed
  moreover have "length (unread ctx 0) = nat ?off" using length_unread [of ctx 0] c by simp
  then have "rest ctx3 (idx + n) content + k = rest ctx idx content"
    using l3 off2 k n(2) c(1) by (simp add: rest_def nat_add_distrib)
  ultimately show ?thesis
    using on3 p(4,5) r(2) n(1,2) by (intro that [of ready ctx3 fs1 "idx + n" out2 st2]) (auto split: if_splits)
qed

section \<open>A block of the page\<close>

text \<open>What holds after a block was read: the context and the file agree, and something was done.\<close>

lemma ssi_read_end: "ssi_read e g M (int (length content)) ctx fs (int (length content)) out = Some (ctx, fs, int (length content), out, True)"
  by (subst ssi_read.simps) simp

lemma ssi_read_ok:
  assumes "reads_on g (drop idx content) t ctx st out 0" and "st \<noteq> None \<longrightarrow> out = []" and "int (length out) < M" and "113 \<le> M"
    and "file_at e h 0 content idx (set_files fs g)" and "ssi_fp ctx = Some h" and "idx < length content" and "ssi_cacheOffset ctx < 64"
  shows "\<exists>ctx' fs' idx' out' st'. ssi_read e g M (int (length content)) ctx fs (int idx) out = Some (ctx', fs', int idx', out', True)
    \<and> reads_on g (drop idx' content) t ctx' st' out' 0 \<and> int (length out') \<le> M \<and> ssi_fp ctx' = Some h \<and> ssi_ssi ctx' = ssi_ssi ctx
    \<and> file_at e h 0 content idx' (set_files fs' g) \<and> idx' \<le> length content \<and> ssi_cacheOffset ctx' < 64
    \<and> rest ctx' idx' content \<le> rest ctx idx content \<and> (idx' = length content \<or> rest ctx' idx' content < rest ctx idx content)"
  using assms
proof (induction "length content - idx" arbitrary: idx ctx st out fs rule: less_induct)
  case less
  from ssi_round [OF less.prems(1-4) less.prems(5-8)] obtain ctx1 fs1 idx1 out1 st1 ready where
    r: "ssi_read e g M (int (length content)) ctx fs (int idx) out
      = (if ready then Some (ctx1, fs1, int idx1, out1, True) else ssi_read e g M (int (length content)) ctx1 fs1 (int idx1) out1)"
    "reads_on g (drop idx1 content) t ctx1 st1 out1 0" "int (length out1) \<le> M" "ssi_fp ctx1 = Some h" "ssi_ssi ctx1 = ssi_ssi ctx"
    "file_at e h 0 content idx1 (set_files fs1 g)" "idx < idx1" "idx1 \<le> length content" "ssi_cacheOffset ctx1 < 64"
    "rest ctx1 idx1 content \<le> rest ctx idx content" "ready \<longrightarrow> rest ctx1 idx1 content < rest ctx idx content"
    "\<not> ready \<longrightarrow> int (length out1) < M \<and> (st1 \<noteq> None \<longrightarrow> out1 = [])" .
  show ?case
  proof (cases "ready \<or> idx1 = length content")
    case True
    then have "ssi_read e g M (int (length content)) ctx fs (int idx) out = Some (ctx1, fs1, int idx1, out1, True)"
      using r(1) ssi_read_end by auto
    with r True show ?thesis
      by (intro exI [of _ ctx1] exI [of _ fs1] exI [of _ idx1] exI [of _ out1] exI [of _ st1]) auto
  next
    case False
    then have n: "idx1 < length content" "length content - idx1 < length content - idx" using r(7,8) by auto
    from False r(12) have o: "st1 \<noteq> None \<longrightarrow> out1 = []" "int (length out1) < M" by auto
    have p: "ssi_read e g M (int (length content)) ctx fs (int idx) out = ssi_read e g M (int (length content)) ctx1 fs1 (int idx1) out1"
      using r(1) False by simp
    from less.hyps [OF n(2) r(2) o less.prems(4) r(6,4) n(1) r(9)] obtain ctx' fs' idx' out' st' where
      q: "ssi_read e g M (int (length content)) ctx1 fs1 (int idx1) out1 = Some (ctx', fs', int idx', out', True)"
      "reads_on g (drop idx' content) t ctx' st' out' 0" "int (length out') \<le> M" "ssi_fp ctx' = Some h" "ssi_ssi ctx' = ssi_ssi ctx1"
      "file_at e h 0 content idx' (set_files fs' g)" "idx' \<le> length content" "ssi_cacheOffset ctx' < 64"
      "rest ctx' idx' content \<le> rest ctx1 idx1 content" "idx' = length content \<or> rest ctx' idx' content < rest ctx1 idx1 content" by blast
    show ?thesis unfolding p
      using q r(5,10) by (intro exI [of _ ctx'] exI [of _ fs'] exI [of _ idx'] exI [of _ out'] exI [of _ st'] conjI) auto
  qed
qed

section \<open>The blocks of a page\<close>

text \<open>
  The reader stands at some place of the page, and the reference makes \<open>t\<close> of what follows. Each
  block takes from the characters that are not consumed, or is the one that reads the last of the file.
\<close>

definition reading :: "env \<Rightarrow> nat \<Rightarrow> bytes \<Rightarrow> string \<Rightarrow> nat \<Rightarrow> REQUEST_CONTEXT \<Rightarrow> glob \<Rightarrow> bool" where
  "reading e h content t n q g \<longleftrightarrow> (q_requestMethod q = METHOD_GET \<or> q_requestMethod q = METHOD_POST)
     \<and> p_dwTotal (ctxResponse q) = int (length content)
     \<and> (\<exists>ctx idx st. p_appContext (ctxResponse q) = App_SSI ctx \<and> ssi_ssi ctx > 0 \<and> ssi_fp ctx = Some h
         \<and> p_dwOperIndex (ctxResponse q) = int idx \<and> idx \<le> length content \<and> file_at e h 0 content idx g \<and> ssi_cacheOffset ctx < 64
         \<and> reads_on g (drop idx content) t ctx st [] 0 \<and> n = rest ctx idx content + (if idx < length content then 1 else 0))"

lemma reads_on_files: "reads_on (set_files fs g) fut t ctx st out k = reads_on g fut t ctx st out k"
proof -
  have "tag_value (set_files fs g) = tag_value g" by (rule ext) (rule tag_value_files)
  then show ?thesis by (simp add: reads_on_def)
qed

lemma reads_on_rest:
  assumes "reads_on g fut t ctx st out 0"
  obtains t' where "t = out @ t'" "reads_on g fut t' ctx st [] 0"
  using assms by (auto simp: reads_on_def)

lemma reads_on_over:
  assumes "reads_on g [] t ctx st [] 0" and "ssi_cacheOffset ctx < 64"
  shows "t = take (nat (ssi_cacheOffset ctx)) (ssi_cache ctx)"
proof -
  from assms(1) have e: "expand (tag_value g) st (unread ctx 0) = Some t" and s: "in_state ctx st" by (auto simp: reads_on_def)
  have "length (unread ctx 0) \<le> MAX_TAG_LEN" using length_unread [of ctx 0] s assms(2) by (simp add: in_state_def)
  from expand_short [OF e this] show ?thesis by (simp add: unread_def)
qed

lemma page_block:
  assumes r: "reading e h content t n q g" and m: "113 \<le> m"
  shows "\<exists>q' g' bs k. WEB_ReadContent e q g m = Some (q', g', bs, k) \<and> int (length bs) \<le> m \<and> q_result q' = q_result q
    \<and> ((p_dwOperStage (ctxResponse q') = STAGE_END \<and> bs = t)
      \<or> (p_dwOperStage (ctxResponse q') = p_dwOperStage (ctxResponse q) + 1 \<and> (\<exists>t' n'. t = bs @ t' \<and> 0 < n' \<and> n' < n \<and> reading e h content t' n' q' g')))"
proof -
  from r obtain ctx idx st where c: "q_requestMethod q = METHOD_GET \<or> q_requestMethod q = METHOD_POST"
    "p_dwTotal (ctxResponse q) = int (length content)" "p_appContext (ctxResponse q) = App_SSI ctx" "ssi_ssi ctx > 0" "ssi_fp ctx = Some h"
    "p_dwOperIndex (ctxResponse q) = int idx" "idx \<le> length content" "file_at e h 0 content idx g" "ssi_cacheOffset ctx < 64"
    "reads_on g (drop idx content) t ctx st [] 0" "n = rest ctx idx content + (if idx < length content then 1 else 0)"
    by (auto simp: reading_def)
  have off: "0 \<le> ssi_cacheOffset ctx" "length (ssi_cache ctx) = 64" using c(10) by (auto simp: reads_on_def in_state_def)
  show ?thesis
  proof (cases "idx < length content")
    case False
    then have over: "t = take (nat (ssi_cacheOffset ctx)) (ssi_cache ctx)" using reads_on_over [of g t ctx st] c(9,10) by simp
    show ?thesis
    proof (cases "ssi_cacheOffset ctx > 0")
      case True
      then show ?thesis using c(1-7,9) False off over m by (simp add: WEB_ReadContent_def Let_def set_ssi_def upd_resp_def)
    next
      case none: False
      then show ?thesis using c(1-7) False off over m by (simp add: WEB_ReadContent_def Let_def upd_resp_def)
    qed
  next
    case True
    have "file_at e h 0 content idx (set_files (g_FileOpened g) g)" using c(8) by (simp add: set_files_def)
    from ssi_read_ok [OF c(10) _ _ m this c(5) True c(9)] m obtain ctx' fs' idx' out st' where
      b: "ssi_read e g m (int (length content)) ctx (g_FileOpened g) (int idx) [] = Some (ctx', fs', int idx', out, True)"
      "reads_on g (drop idx' content) t ctx' st' out 0" "int (length out) \<le> m" "ssi_fp ctx' = Some h" "ssi_ssi ctx' = ssi_ssi ctx"
      "file_at e h 0 content idx' (set_files fs' g)" "idx' \<le> length content" "ssi_cacheOffset ctx' < 64"
      "rest ctx' idx' content \<le> rest ctx idx content" "idx' = length content \<or> rest ctx' idx' content < rest ctx idx content" by auto
    define q' where "q' = read_stage ctx' (upd_resp (\<lambda>r. r\<lparr>p_dwOperIndex := int idx'\<rparr>) (set_ssi ctx' q))"
    have rc: "WEB_ReadContent e q g m = Some (q', set_files fs' g, out, int (length out))"
      using c(1-6) True b(1) by (simp add: WEB_ReadContent_def Let_def q'_def)
    have q': "q_requestMethod q' = q_requestMethod q" "q_result q' = q_result q" "p_dwTotal (ctxResponse q') = int (length content)"
      "p_appContext (ctxResponse q') = App_SSI ctx'" "p_dwOperIndex (ctxResponse q') = int idx'"
      "p_dwOperStage (ctxResponse q') = (if idx' = length content \<and> ssi_cacheOffset ctx' \<le> 0 then STAGE_END else p_dwOperStage (ctxResponse q) + 1)"
      using c(2,4) b(5,7) by (auto simp: q'_def read_stage_def upd_resp_def set_ssi_def)
    from reads_on_rest [OF b(2)] obtain t' where t': "t = out @ t'" "reads_on g (drop idx' content) t' ctx' st' [] 0" .
    show ?thesis
    proof (cases "idx' = length content \<and> ssi_cacheOffset ctx' \<le> 0")
      case e: True
      then have "t' = []" using reads_on_over [of g t' ctx' st'] t'(2) b(8) by simp
      with rc b(3) q' e t' show ?thesis by auto
    next
      case False
      define n' where "n' = rest ctx' idx' content + (if idx' < length content then 1 else 0)"
      have "n' < n" using c(11) True b(9,10) by (auto simp: n'_def)
      moreover have "0 < n'"
      proof -
        have "length (unread ctx' 0) = nat (ssi_cacheOffset ctx')"
          using length_unread [of ctx' 0] b(2,8) by (simp add: reads_on_def in_state_def)
        then show ?thesis using False b(7) by (auto simp: n'_def rest_def)
      qed
      moreover have "reading e h content t' n' q' (set_files fs' g)"
        unfolding reading_def using q' c(1,4) b(4-8) t'(2)
        by (auto intro!: exI [of _ ctx'] exI [of _ idx'] exI [of _ st'] simp: n'_def reads_on_files)
      ultimately show ?thesis using rc b(3) q' False t'(1) by auto
    qed
  qed
qed

text \<open>The caller asks for blocks, each with the room it has, until the stage says that the page is over.\<close>

primrec page_reads :: "env \<Rightarrow> int list \<Rightarrow> REQUEST_CONTEXT \<Rightarrow> glob \<Rightarrow> (bytes \<times> REQUEST_CONTEXT \<times> glob) option" where
  "page_reads e [] q g = Some ([], q, g)"
| "page_reads e (m # ms) q g =
     (if p_dwOperStage (ctxResponse q) = STAGE_END then Some ([], q, g)
      else do {
        (q, g, bs, k) \<leftarrow> WEB_ReadContent e q g m;
        if int (length bs) > m then None
        else do {
          (bs', q, g) \<leftarrow> page_reads e ms q g;
          Some (bs @ bs', q, g) } })"

lemma page_reads_over: "p_dwOperStage (ctxResponse q) = STAGE_END \<Longrightarrow> page_reads e ms q g = Some ([], q, g)"
  by (cases ms) simp_all

lemma page_reads_all:
  assumes "reading e h content t n q g" and "p_dwOperStage (ctxResponse q) = word_of_nat k" and "k + n < 2 ^ 32 - 1"
    and "\<forall>m \<in> set ms. 113 \<le> m" and "n \<le> length ms" and "ms \<noteq> []"
  shows "\<exists>q' g'. page_reads e ms q g = Some (t, q', g') \<and> p_dwOperStage (ctxResponse q') = STAGE_END \<and> q_result q' = q_result q"
  using assms
proof (induction ms arbitrary: t n q g k)
  case (Cons m ms)
  have "unat (p_dwOperStage (ctxResponse q)) = k" using Cons.prems(2,3) by (simp add: unsigned_of_nat take_bit_nat_eq_self)
  then have ne: "p_dwOperStage (ctxResponse q) \<noteq> STAGE_END" using Cons.prems(3) by auto
  from Cons.prems(4) have m: "113 \<le> m" by simp
  from page_block [OF Cons.prems(1) m] obtain q1 g1 bs j where
    b: "WEB_ReadContent e q g m = Some (q1, g1, bs, j)" "int (length bs) \<le> m" "q_result q1 = q_result q"
    "(p_dwOperStage (ctxResponse q1) = STAGE_END \<and> bs = t)
      \<or> (p_dwOperStage (ctxResponse q1) = p_dwOperStage (ctxResponse q) + 1 \<and> (\<exists>t' n'. t = bs @ t' \<and> 0 < n' \<and> n' < n \<and> reading e h content t' n' q1 g1))" by blast
  from b(4) show ?case
  proof (elim disjE conjE exE)
    assume "p_dwOperStage (ctxResponse q1) = STAGE_END" "bs = t"
    then show ?thesis using ne b(1-3) page_reads_over [of q1 e ms g1] by simp
  next
    fix t' n' assume s: "p_dwOperStage (ctxResponse q1) = p_dwOperStage (ctxResponse q) + 1" "t = bs @ t'" "n' < n" "reading e h content t' n' q1 g1" "0 < n'"
    have "p_dwOperStage (ctxResponse q1) = word_of_nat (Suc k)" using s(1) Cons.prems(2) by (simp add: add.commute)
    moreover have "Suc k + n' < 2 ^ 32 - 1" "\<forall>m \<in> set ms. 113 \<le> m" "n' \<le> length ms" using Cons.prems(3-5) s(3) by simp_all
    moreover have "ms \<noteq> []" using Cons.prems(5) s(3,5) by auto
    ultimately have "\<exists>q' g'. page_reads e ms q1 g1 = Some (t', q', g') \<and> p_dwOperStage (ctxResponse q') = STAGE_END \<and> q_result q' = q_result q1"
      by (rule Cons.IH [OF s(4)])
    then show ?thesis using ne b(1-3) s(2) by auto
  qed
qed simp

section \<open>A page from its first block to its last\<close>

text \<open>
  \<open>WEB_RequestReceived\<close> opens a page with tags, and the blocks are read with rooms of at least 113
  bytes, the 50 bytes the reader keeps free and the 63 of the longest value.
\<close>

definition tag_request :: "env \<Rightarrow> nat \<Rightarrow> REQUEST_CONTEXT \<Rightarrow> bool" where
  "tag_request e k q \<longleftrightarrow> (q_requestMethod q = METHOD_GET \<or> q_requestMethod q = METHOD_POST) \<and> q_responsePath q \<noteq> ''/''
     \<and> find_web e (q_responsePath q) = Some k \<and> ssi_extension (cstr (q_extension q))
     \<and> p_dwOperIndex (ctxResponse q) = 0 \<and> p_dwOperStage (ctxResponse q) = 0"

lemma page_starts:
  assumes req: "tag_request e k q" and wf: "webroot_wf e" and inv: "files_inv e (g_FileOpened g)"
    and free: "free_handle (g_FileOpened g) = Some h" and len: "3 \<le> f_nSize (web_entries e ! k)"
    and shown: "expand (tag_value g) None (f_data (web_entries e ! k)) = Some shown"
  obtains q1 g1 n where "WEB_RequestReceived e q g = Some (q1, g1)" "reading e h (f_data (web_entries e ! k)) shown n q1 g1"
    "n \<le> Suc (length (f_data (web_entries e ! k)))" "n < 2 ^ 32 - 1" "p_dwOperStage (ctxResponse q1) = 0" "q_result q1 = q_result q"
proof -
  let ?content = "f_data (web_entries e ! k)"
  from req have k: "find_web e (q_responsePath q) = Some k" by (simp add: tag_request_def)
  obtain fs1 fs2 where f: "WEB_fopen e (q_responsePath q) ''rb'' (g_FileOpened g) = (fs1, Some h)"
    "WEB_fread e (Some h) 3 fs1 = Some (fs2, take 3 ?content, 0)" "gzip_magic (take 3 ?content) = Some (gzipped ?content)"
    "file_at e h 0 ?content 0 (set_files (fst (WEB_fseek (Some h) 0 fs2)) g)"
    "WEB_fsize e (Some h) (fst (WEB_fseek (Some h) 0 fs2)) = int (length ?content)" "length ?content < 2 ^ 31"
    by (rule page_probe [OF k wf inv free len])
  let ?ctx = "zero_ssi\<lparr>ssi_valid := 1, ssi_ssi := 1, ssi_fp := Some h\<rparr>"
  define fs3 where "fs3 = fst (WEB_fseek (Some h) 0 fs2)"
  define q0 where "q0 = (if q_handler q \<noteq> None then q\<lparr>q_options := q_options q OR CGI_OPT_CHUNK_ENABLED\<rparr> else q)"
  define q1 where "q1 = upd_resp (\<lambda>r. r\<lparr>p_dwTotal := int (length ?content)\<rparr>) (set_ssi ?ctx
     ((if gzipped ?content then q0\<lparr>q_options := q_options q0 OR CGI_OPT_GZIP\<rparr> else q0)\<lparr>q_fileHandle := Some h\<rparr>))"
  have r: "WEB_RequestReceived e q g = Some (q1, set_files fs3 g)"
    using req f unfolding WEB_RequestReceived_def Let_def
    by (simp add: tag_request_def default_path_def q0_def q1_def fs3_def)
  have s: "in_state ?ctx None" by (simp add: in_state_def zero_ssi_def zeros_def)
  have u: "unread ?ctx 0 = []" by (simp add: unread_def zero_ssi_def)
  have "reads_on g (drop 0 ?content) shown ?ctx None [] 0" using s shown u by (simp add: reads_on_def zero_ssi_def)
  then have "reading e h ?content shown (rest ?ctx 0 ?content + (if 0 < length ?content then 1 else 0)) q1 (set_files fs3 g)"
    using req f(4) unfolding reading_def
    by (auto simp: q1_def q0_def set_ssi_def upd_resp_def tag_request_def reads_on_files fs3_def zero_ssi_def
        intro!: exI [of _ ?ctx] exI [of _ 0] exI [of _ None])
  then show ?thesis using r f(6) u req
    by (intro that [of q1 "set_files fs3 g" "rest ?ctx 0 ?content + (if 0 < length ?content then 1 else 0)"])
      (simp_all add: q1_def q0_def set_ssi_def upd_resp_def tag_request_def rest_def)
qed


text \<open>A page that names the vendor of the device, followed by as much text as the cache holds.\<close>

definition sample_tag_page :: string where
  "sample_tag_page = ''<p>Made by <!--#DEV_VENDOR-->.</p>'' @ replicate 70 CHR ''.''"

definition sample_tag_env :: env where
  "sample_tag_env = sample_env\<lparr>e_webroot := [\<lparr>f_name = ''/app/a.shtml'', f_nSize = 104, f_tLastModified = 1591802842, f_data = sample_tag_page\<rparr>]\<rparr>"

definition sample_tag_request :: REQUEST_CONTEXT where
  "sample_tag_request = sample_context\<lparr>q_handler := Some g_cgiWebApp, q_requestMethod := METHOD_GET, q_responsePath := ''/app/a.shtml'',
     q_extension := ''shtml'' @ zeros 3\<rparr>"

lemma sample_tag_entries: "web_entries sample_tag_env = e_webroot sample_tag_env"
  by (simp add: web_entries_def sample_tag_env_def sample_env_def)

lemma sample_tag_find: "find_web sample_tag_env ''/app/a.shtml'' = Some 0"
  unfolding find_web_def sample_tag_entries by (simp add: sample_tag_env_def)

lemma sample_tag_data: "f_data (web_entries sample_tag_env ! 0) = sample_tag_page" "f_nSize (web_entries sample_tag_env ! 0) = 104"
  unfolding sample_tag_entries by (simp_all add: sample_tag_env_def)

lemma sample_tag_length: "length sample_tag_page = 104"
  by (simp add: sample_tag_page_def)

lemma sample_tag_files: "webroot_wf sample_tag_env" "files_inv sample_tag_env (g_FileOpened sample_glob)"
  "free_handle (g_FileOpened sample_glob) = Some 0"
  by (auto simp: webroot_wf_def sample_tag_entries files_inv_def zero_handle_def sample_glob_def free_handle_def upt_rec)
    (simp_all add: sample_tag_env_def sample_tag_length)

lemma sample_tag_expand: "expand v None sample_tag_page = Some (''<p>Made by '' @ v ''DEV_VENDOR'' @ ''.</p>'' @ replicate 70 CHR ''.'')"
  by code_simp

lemma sample_tag_value: "tag_value sample_glob ''DEV_VENDOR'' = ''Straight''"
  by (simp add: tag_value_def g_Getters_def GetVendor_def)


end
