(* ===== verification/Chunked.thy ===== *)
theory Chunked
  imports Cgi Decoders
begin

text \<open>
  The content of a response, block by block, as a client decodes it. The reference is the
  chunked transfer coding of RFC 7230: a hexadecimal size, a line end, that many bytes, a
  line end, and so on, with a chunk of size zero and an empty line at the end.
\<close>

section \<open>The reference decoder\<close>

definition hex_value :: "string \<Rightarrow> int" where
  "hex_value s = foldl (\<lambda>v c. 16 * v + Hex2Int c) 0 s"

function unchunk :: "string \<Rightarrow> string option" where
  "unchunk s =
     (let h = takeWhile (\<lambda>c. c \<noteq> CR) s; r = drop (length h) s; n = nat (hex_value h); b = drop 2 r
      in if h = [] \<or> take 2 r \<noteq> CRLF \<or> list_ex (\<lambda>c. Hex2Int c < 0) h then None
         else if n = 0 then (if b = CRLF then Some [] else None)
         else if length b < n + 2 \<or> take 2 (drop n b) \<noteq> CRLF then None
         else map_option (append (take n b)) (unchunk (drop (n + 2) b)))"
  by pat_completeness auto
termination
  by (relation "measure length") auto

declare unchunk.simps [simp del]

section \<open>Numbers in hexadecimal\<close>

lemma hex_value_snoc: "hex_value (s @ [c]) = 16 * hex_value s + Hex2Int c"
  by (simp add: hex_value_def)

lemma base_digits_hex: "hex_value (base_digits 16 n) = int n \<and> list_all (\<lambda>c. 0 \<le> Hex2Int c \<and> c \<noteq> CR) (base_digits 16 n)"
proof (induction "16 :: nat" n rule: base_digits.induct)
  case (1 n)
  have digit: "Hex2Int (digit_char d) = int d \<and> digit_char d \<noteq> CR" if "d < 16" for d
  proof -
    have "\<forall>d \<in> set [0..<16]. digit_char d \<noteq> CR" by code_simp
    with that Hex2Int_digit_char [OF that] show ?thesis by simp
  qed
  show ?case
  proof (cases "n < 16")
    case True
    then show ?thesis using digit [of n] by (simp add: base_digits.simps hex_value_def)
  next
    case False
    then have "base_digits 16 n = base_digits 16 (n div 16) @ [digit_char (n mod 16)]" by (simp add: base_digits.simps)
    moreover have "16 * int (n div 16) + int (n mod 16) = int n" by presburger
    ultimately show ?thesis using 1 False digit [of "n mod 16"] by (simp add: hex_value_snoc)
  qed
qed

lemma fmt_X_props: "hex_value (fmt_X n) = int n" "\<forall>c \<in> set (fmt_X n). 0 \<le> Hex2Int c \<and> c \<noteq> CR" "fmt_X n \<noteq> []"
proof -
  show "hex_value (fmt_X n) = int n" "\<forall>c \<in> set (fmt_X n). 0 \<le> Hex2Int c \<and> c \<noteq> CR"
    using base_digits_hex [of n] by (simp_all add: fmt_X_def list_all_iff)
  show "fmt_X n \<noteq> []" unfolding fmt_X_def by (subst base_digits.simps) simp
qed

section \<open>A sequence of chunks\<close>

text \<open>The chunks of some blocks, the line end of each closed by the one that follows.\<close>

fun chunks :: "string list \<Rightarrow> string" where
  "chunks [] = []"
| "chunks (c # cs) = fmt_X (length c) @ CRLF @ c @ (if cs = [] then last_chunk else CRLF @ chunks cs)"

lemma unchunk_one:
  assumes "n = length c" and "c \<noteq> []"
  shows "unchunk (fmt_X n @ CRLF @ c @ CRLF @ r) = map_option (append c) (unchunk r)"
proof -
  let ?s = "fmt_X n @ CRLF @ c @ CRLF @ r"
  have "takeWhile (\<lambda>c. c \<noteq> CR) ?s = fmt_X n @ takeWhile (\<lambda>c. c \<noteq> CR) (CRLF @ c @ CRLF @ r)"
    by (rule takeWhile_append2) (use fmt_X_props(2) [of n] in blast)
  then have h: "takeWhile (\<lambda>c. c \<noteq> CR) ?s = fmt_X n" by (simp add: CRLF_def)
  have d: "drop (length (fmt_X n)) ?s = CRLF @ c @ CRLF @ r" by simp
  have two: "take 2 (CRLF @ x) = CRLF" "drop 2 (CRLF @ x) = x" for x by (simp_all add: CRLF_def)
  have digits: "\<not> list_ex (\<lambda>c. Hex2Int c < 0) (fmt_X n)"
    unfolding list_ex_iff using fmt_X_props(2) [of n] by (meson not_less)
  have rest: "take n (c @ x) = c" "drop n (c @ x) = x" "drop (n + 2) (c @ CRLF @ x) = x" for x
    using assms(1) by (simp_all add: CRLF_def)
  have size: "nat (hex_value (fmt_X n)) = n" using fmt_X_props(1) [of n] by simp
  have room: "n \<noteq> 0" "\<not> length (c @ CRLF @ r) < n + 2" using assms by (simp_all add: CRLF_def)
  show ?thesis
    unfolding unchunk.simps [of ?s] Let_def h d size two rest using room digits fmt_X_props(3) [of n]
    by (simp only: if_False simp_thms)
qed

lemma unchunk_end: "unchunk (''0'' @ CRLF @ CRLF) = Some []"
  by code_simp

lemma unchunk_chunks: "cs \<noteq> [] \<Longrightarrow> \<forall>c \<in> set cs. c \<noteq> [] \<Longrightarrow> unchunk (chunks cs) = Some (concat cs)"
proof (induction cs)
  case (Cons c cs)
  show ?case
  proof (cases "cs = []")
    case True
    then show ?thesis using Cons.prems unchunk_one [of "length c" c "''0'' @ CRLF @ CRLF"] unchunk_end by (simp add: last_chunk_def)
  next
    case False
    then show ?thesis using Cons unchunk_one [of "length c" c "chunks cs"] by simp
  qed
qed simp

section \<open>What the server sends\<close>

text \<open>
  A block is the send buffer with the content 10 bytes behind the place where the frame goes,
  that place, and the length of the content. The first block of a response has no line end
  before it, the last one, at which the handler reports the end, has the mark behind it.
\<close>

definition block_content :: "bytes \<times> int \<times> int \<Rightarrow> bytes" where
  "block_content = (\<lambda>(sb, pReadTo, n). take (nat n) (drop (nat pReadTo + 10) sb))"

definition block_fits :: "bytes \<times> int \<times> int \<Rightarrow> bool" where
  "block_fits = (\<lambda>(sb, pReadTo, n). length sb = 256 \<and> 0 \<le> pReadTo \<and> 0 < n \<and> pReadTo + 10 + n + 7 \<le> 256)"

fun send_frames :: "bool \<Rightarrow> (bytes \<times> int \<times> int) list \<Rightarrow> bytes option" where
  "send_frames first [] = Some []"
| "send_frames first ((sb, pReadTo, n) # blocks) = do {
     (sb, k) \<leftarrow> frame_chunk sb pReadTo first (blocks = []) n;
     out \<leftarrow> send_frames False blocks;
     Some (take (nat k) (drop (nat pReadTo) sb) @ out) }"

lemma send_frames_chunks:
  "blocks \<noteq> [] \<Longrightarrow> list_all block_fits blocks
    \<Longrightarrow> send_frames first blocks = Some ((if first then [] else CRLF) @ chunks (map block_content blocks))"
proof (induction blocks arbitrary: first)
  case (Cons b blocks)
  obtain sb d n where b: "b = (sb, d, n)" by (cases b) auto
  let ?c = "take (nat n) (drop (nat d + 10) sb)"
  let ?f = "(if first then [] else CRLF) @ fmt_X (nat n) @ CRLF @ ?c @ (if blocks = [] then CRLF @ ''0'' @ CRLF @ CRLF else [])"
  have fits: "length sb = 256" "0 \<le> d" "0 < n" "n < 256" "d + 10 + n + 7 \<le> 256" using Cons.prems by (auto simp: b block_fits_def)
  from frame_chunk_frame [OF this refl refl, of first "blocks = []"] obtain sb' where
    sb': "frame_chunk sb d first (blocks = []) n = Some (sb', int (length ?f))" "take (nat d + length ?f) sb' = take (nat d) sb @ ?f" by blast
  have "take (length ?f) (drop (nat d) sb') = drop (nat d) (take (nat d + length ?f) sb')" by (simp add: drop_take)
  also have "\<dots> = ?f" unfolding sb'(2) using fits by simp
  finally have frame: "take (length ?f) (drop (nat d) sb') = ?f" .
  have c: "length ?c = nat n" using fits by simp
  have sent: "send_frames first (b # blocks) = Option.bind (send_frames False blocks) (\<lambda>out. Some (?f @ out))"
    unfolding b send_frames.simps sb'(1) Option.bind.bind_lunit prod.case nat_int frame ..
  show ?case
  proof (cases "blocks = []")
    case True
    then show ?thesis using sent c by (simp add: b block_content_def last_chunk_def)
  next
    case False
    then have "send_frames False blocks = Some (CRLF @ chunks (map block_content blocks))" using Cons by simp
    with False show ?thesis using sent c by (simp add: b block_content_def)
  qed
qed simp

section \<open>Properties\<close>



end
