(* ===== verification/Emac.thy ===== *)
theory Emac
  imports Prelude
begin

text \<open>
  The driver of the Ethernet controller, \<^verbatim>\<open>drivers/source/lpc_emac.c\<close> with
  \<^verbatim>\<open>drivers/include/lpc_emac.h\<close>: its registers, the two rings of descriptors and frame buffers in
  the Ethernet memory, the management port to the PHY, and the functions that take a received
  frame out of its ring and put a frame to be sent into the other, with the packet buffers of
  the stack.

  The controller itself is not code. It moves \<^verbatim>\<open>RxProduceIndex\<close> and \<^verbatim>\<open>TxConsumeIndex\<close>, fills the
  buffers and answers the management port; what it does between two calls of the driver is a
  relation between states, and the answers of the management port are a function of the
  operations so far.
\<close>

section \<open>Registers and memory\<close>

type_synonym u16 = "16 word"

text \<open>The registers of the MAC and of the management port.\<close>

record mac_regs =
  MAC1 :: u32
  MAC2 :: u32
  IPGT :: u32
  IPGR :: u32
  CLRT :: u32
  MAXF :: u32
  SUPP :: u32
  MCFG :: u32
  MCMD :: u32
  MADR :: u32
  MWTD :: u32
  SA0 :: u32
  SA1 :: u32
  SA2 :: u32

text \<open>What the PHY and the clock are asked: register reads and writes, and readings of the tick counter.\<close>

datatype phy_op =
    Mii_write u16 u8 u16
  | Mii_read u16 u8
  | Tick_read

text \<open>
  The controller: its registers, the descriptors, the status words and the frame buffers. The
  fields of an array of descriptors are lists of their own. \<^verbatim>\<open>eth_ram\<close> is the Ethernet memory from
  the first receive buffer to its end. \<^verbatim>\<open>powered\<close> is the bit of the power register, \<^verbatim>\<open>irq_on\<close> that
  of the interrupt controller; \<^verbatim>\<open>phy_ops\<close> are the questions asked so far.
\<close>

record emac =
  mac :: mac_regs
  Command :: u32
  RxDescriptor :: u32
  RxStatus :: u32
  RxDescriptorNumber :: u32
  RxProduceIndex :: u32
  RxConsumeIndex :: u32
  TxDescriptor :: u32
  TxStatus :: u32
  TxDescriptorNumber :: u32
  TxProduceIndex :: u32
  TxConsumeIndex :: u32
  RxFilterCtrl :: u32
  RxFilterWoLClear :: u32
  HashFilterL :: u32
  HashFilterH :: u32
  IntEnable :: u32
  IntClear :: u32
  RX_DESC_PACKET :: "u32 list"
  RX_DESC_CTRL :: "u32 list"
  RX_STAT_INFO :: "u32 list"
  RX_STAT_HASHCRC :: "u32 list"
  TX_DESC_PACKET :: "u32 list"
  TX_DESC_CTRL :: "u32 list"
  TX_STAT_INFO :: "u32 list"
  eth_ram :: bytes
  g_lFrameCount :: int
  powered :: bool
  irq_on :: bool
  phy_ops :: "phy_op list"

text \<open>The answers of the hardware: a PHY register and the tick counter after some operations, and the CPU clock.\<close>

record hw_env =
  hw_MRDD :: "phy_op list \<Rightarrow> u16"
  hw_tick :: "phy_op list \<Rightarrow> u64"
  hw_clock :: u32

definition EMAC_NUM_RX_FRAG :: nat where "EMAC_NUM_RX_FRAG = 5"
definition EMAC_NUM_TX_FRAG :: nat where "EMAC_NUM_TX_FRAG = 5"
definition EMAC_ETH_MAX_FLEN :: nat where "EMAC_ETH_MAX_FLEN = 1536"
definition RX_DESC_BASE :: u32 where "RX_DESC_BASE = 0x20000000"
definition RX_STAT_BASE :: u32 where "RX_STAT_BASE = RX_DESC_BASE + of_nat (EMAC_NUM_RX_FRAG * 8)"
definition TX_DESC_BASE :: u32 where "TX_DESC_BASE = RX_STAT_BASE + of_nat (EMAC_NUM_RX_FRAG * 8)"
definition TX_STAT_BASE :: u32 where "TX_STAT_BASE = TX_DESC_BASE + of_nat (EMAC_NUM_TX_FRAG * 8)"
definition RX_BUF_BASE :: u32 where "RX_BUF_BASE = TX_STAT_BASE + of_nat (EMAC_NUM_TX_FRAG * 4)"
definition TX_BUF_BASE :: u32 where "TX_BUF_BASE = RX_BUF_BASE + of_nat (EMAC_NUM_RX_FRAG * EMAC_ETH_MAX_FLEN)"
definition RX_BUF :: "nat \<Rightarrow> u32" where "RX_BUF i = RX_BUF_BASE + of_nat (EMAC_ETH_MAX_FLEN * i)"
definition TX_BUF :: "nat \<Rightarrow> u32" where "TX_BUF i = TX_BUF_BASE + of_nat (EMAC_ETH_MAX_FLEN * i)"

text \<open>The memory is 16 KB; the descriptors and status words take its first 140 bytes.\<close>

definition ETH_RAM_SIZE :: nat where "ETH_RAM_SIZE = 16384 - 140"

abbreviation EMAC_RCTRL_INT :: u32 where "EMAC_RCTRL_INT \<equiv> 0x80000000"
abbreviation EMAC_RINFO_SIZE :: u32 where "EMAC_RINFO_SIZE \<equiv> 0x7FF"
abbreviation EMAC_RINFO_LAST_FLAG :: u32 where "EMAC_RINFO_LAST_FLAG \<equiv> 0x40000000"
definition EMAC_RINFO_ERR_MASK :: u32 where
  "EMAC_RINFO_ERR_MASK = 0x100000 OR 0x800000 OR 0x1000000 OR 0x2000000 OR 0x8000000 OR 0x10000000"
abbreviation EMAC_TCTRL_SIZE :: u32 where "EMAC_TCTRL_SIZE \<equiv> 0x7FF"
abbreviation EMAC_TCTRL_LAST :: u32 where "EMAC_TCTRL_LAST \<equiv> 0x40000000"
abbreviation EMAC_TCTRL_INT :: u32 where "EMAC_TCTRL_INT \<equiv> 0x80000000"

definition set_mac :: "(mac_regs \<Rightarrow> mac_regs) \<Rightarrow> emac \<Rightarrow> emac" where
  "set_mac f s = s\<lparr>mac := f (mac s)\<rparr>"

definition phy_do :: "phy_op \<Rightarrow> emac \<Rightarrow> emac" where
  "phy_do op s = s\<lparr>phy_ops := phy_ops s @ [op]\<rparr>"

text \<open>An element of an array of descriptors, and a stretch of the memory behind an address.\<close>

definition elem :: "'a list \<Rightarrow> u32 \<Rightarrow> 'a option" where
  "elem xs i = (if unat i < length xs then Some (xs ! unat i) else None)"

definition ram_off :: "u32 \<Rightarrow> nat" where
  "ram_off a = unat (a - RX_BUF_BASE)"

definition ram_at :: "emac \<Rightarrow> u32 \<Rightarrow> bytes option" where
  "ram_at s a = (if ram_off a \<le> length (eth_ram s) then Some (drop (ram_off a) (eth_ram s)) else None)"

section \<open>The management port\<close>

text \<open>
  The two functions wait for the operation to end, for a bounded number of readings of the busy
  bit, and go on whether it has ended or not; the wait changes nothing.
\<close>

definition EMAC_Write_PHY :: "u16 \<Rightarrow> u8 \<Rightarrow> u16 \<Rightarrow> emac \<Rightarrow> emac" where
  "EMAC_Write_PHY phyadd PhyReg Value s =
     phy_do (Mii_write phyadd PhyReg Value)
       (set_mac (\<lambda>m. m\<lparr>MADR := push_bit 8 (ucast phyadd AND 0x1F) OR (ucast PhyReg AND 0x1F), MWTD := ucast Value\<rparr>) s)"

definition EMAC_Read_PHY :: "hw_env \<Rightarrow> u16 \<Rightarrow> u8 \<Rightarrow> emac \<Rightarrow> u16 \<times> emac" where
  "EMAC_Read_PHY e phyadd PhyReg s =
     (let s = phy_do (Mii_read phyadd PhyReg)
                (set_mac (\<lambda>m. m\<lparr>MADR := push_bit 8 (ucast phyadd AND 0x1F) OR (ucast PhyReg AND 0x1F), MCMD := 0\<rparr>) s)
      in (hw_MRDD e (phy_ops s), s))"

definition BSP_GetTickCount :: "hw_env \<Rightarrow> emac \<Rightarrow> u64 \<times> emac" where
  "BSP_GetTickCount e s = (let s = phy_do Tick_read s in (hw_tick e (phy_ops s), s))"

section \<open>Configuration\<close>

definition setEmacAddr :: "u8 list \<Rightarrow> emac \<Rightarrow> emac" where
  "setEmacAddr a = set_mac (\<lambda>m. m\<lparr>
     SA0 := push_bit 8 (ucast (a ! 5)) OR ucast (a ! 4),
     SA1 := push_bit 8 (ucast (a ! 3)) OR ucast (a ! 2),
     SA2 := push_bit 8 (ucast (a ! 1)) OR ucast (a ! 0)\<rparr>)"

definition EMAC_SetFullDuplexMode :: "bool \<Rightarrow> emac \<Rightarrow> emac" where
  "EMAC_SetFullDuplexMode full_duplex s =
     (if full_duplex then (set_mac (\<lambda>m. m\<lparr>MAC2 := MAC2 m OR 1, IPGT := 0x15\<rparr>) s)\<lparr>Command := Command s OR 0x400\<rparr>
      else set_mac (\<lambda>m. m\<lparr>IPGT := 0x12\<rparr>) s)"

definition EMAC_SetPHYSpeed :: "bool \<Rightarrow> emac \<Rightarrow> emac" where
  "EMAC_SetPHYSpeed mode_100Mbps = set_mac (\<lambda>m. m\<lparr>SUPP := (if mode_100Mbps then 0x100 else 0)\<rparr>)"

definition EMAC_TxEnable :: "emac \<Rightarrow> emac" where
  "EMAC_TxEnable s = s\<lparr>Command := Command s OR 2\<rparr>"

definition EMAC_TxDisable :: "emac \<Rightarrow> emac" where
  "EMAC_TxDisable s = s\<lparr>Command := Command s AND NOT 2\<rparr>"

definition EMAC_RxEnable :: "emac \<Rightarrow> emac" where
  "EMAC_RxEnable s = set_mac (\<lambda>m. m\<lparr>MAC1 := MAC1 m OR 1\<rparr>) (s\<lparr>Command := Command s OR 1\<rparr>)"

definition EMAC_RxDisable :: "emac \<Rightarrow> emac" where
  "EMAC_RxDisable s = set_mac (\<lambda>m. m\<lparr>MAC1 := MAC1 m AND NOT 1\<rparr>) (s\<lparr>Command := Command s AND NOT 1\<rparr>)"

definition EMAC_IntCmd :: "u32 \<Rightarrow> bool \<Rightarrow> emac \<Rightarrow> emac" where
  "EMAC_IntCmd ulIntType NewState s =
     s\<lparr>IntEnable := (if NewState then IntEnable s OR ulIntType else IntEnable s AND NOT ulIntType)\<rparr>"

text \<open>A flag that is set is cleared and reported; the status is a reading of the register.\<close>

definition EMAC_IntGetStatus :: "u32 \<Rightarrow> u32 \<Rightarrow> emac \<Rightarrow> bool \<times> emac" where
  "EMAC_IntGetStatus IntStatus ulIntType s =
     (if IntStatus AND ulIntType \<noteq> 0 then (True, s\<lparr>IntClear := ulIntType\<rparr>) else (False, s))"

text \<open>The same for the frames that woke the controller.\<close>

definition EMAC_GetWoLStatus :: "u32 \<Rightarrow> u32 \<Rightarrow> emac \<Rightarrow> bool \<times> emac" where
  "EMAC_GetWoLStatus RxFilterWoLStatus ulWoLMode s =
     (if RxFilterWoLStatus AND ulWoLMode \<noteq> 0 then (True, s\<lparr>RxFilterWoLClear := ulWoLMode\<rparr>) else (False, s))"

definition EMAC_SetFilterMode :: "u32 \<Rightarrow> bool \<Rightarrow> emac \<Rightarrow> emac" where
  "EMAC_SetFilterMode ulFilterMode NewState s =
     (if NewState
      then (let s = s\<lparr>RxFilterCtrl := RxFilterCtrl s OR ulFilterMode\<rparr>;
                s = (if ulFilterMode AND 0x10 \<noteq> 0 \<and> ulFilterMode AND 4 = 0 then s\<lparr>RxFilterCtrl := RxFilterCtrl s AND NOT 4\<rparr> else s)
            in if ulFilterMode AND 8 \<noteq> 0 \<and> ulFilterMode AND 1 = 0 then s\<lparr>RxFilterCtrl := RxFilterCtrl s AND NOT 1\<rparr> else s)
      else s\<lparr>RxFilterCtrl := RxFilterCtrl s AND NOT ulFilterMode\<rparr>)"

end
