(* ===== verification/Emac_Ring.thy ===== *)
theory Emac_Ring
  imports Emac
begin

text \<open>
  The rings of \<^verbatim>\<open>drivers/source/lpc_emac.c\<close>: their set-up, the state of a ring, how a received
  frame is taken out with \<^verbatim>\<open>EMAC_ReceivePBuf\<close> and how a packet is put in with \<^verbatim>\<open>EMAC_SendPBuf\<close>. A
  chain of packet buffers is the list of their payloads.
\<close>

section \<open>Operations\<close>

definition rx_descr_init :: "emac \<Rightarrow> emac" where
  "rx_descr_init s =
     s\<lparr>RX_DESC_PACKET := map RX_BUF [0..<EMAC_NUM_RX_FRAG],
       RX_DESC_CTRL := replicate EMAC_NUM_RX_FRAG (EMAC_RCTRL_INT OR of_nat (EMAC_ETH_MAX_FLEN - 1)),
       RX_STAT_INFO := replicate EMAC_NUM_RX_FRAG 0,
       RX_STAT_HASHCRC := replicate EMAC_NUM_RX_FRAG 0,
       RxDescriptor := RX_DESC_BASE,
       RxStatus := RX_STAT_BASE,
       RxDescriptorNumber := of_nat (EMAC_NUM_RX_FRAG - 1),
       RxConsumeIndex := 0\<rparr>"

definition tx_descr_init :: "emac \<Rightarrow> emac" where
  "tx_descr_init s =
     s\<lparr>TX_DESC_PACKET := map TX_BUF [0..<EMAC_NUM_TX_FRAG],
       TX_DESC_CTRL := replicate EMAC_NUM_TX_FRAG 0,
       TX_STAT_INFO := replicate EMAC_NUM_TX_FRAG 0,
       TxDescriptor := TX_DESC_BASE,
       TxStatus := TX_STAT_BASE,
       TxDescriptorNumber := of_nat (EMAC_NUM_TX_FRAG - 1),
       TxProduceIndex := 0\<rparr>"

datatype EMAC_BUFF_STATUS = EMAC_BUFF_EMPTY | EMAC_BUFF_PARTIAL_FULL | EMAC_BUFF_FULL
datatype EMAC_BUFF_IDX = EMAC_TX_BUFF | EMAC_RX_BUFF

definition EMAC_GetBufferSts :: "EMAC_BUFF_IDX \<Rightarrow> emac \<Rightarrow> EMAC_BUFF_STATUS" where
  "EMAC_GetBufferSts idx s =
     (let (consume_idx, produce_idx, max_frag_num) =
            (case idx of EMAC_TX_BUFF \<Rightarrow> (TxConsumeIndex s, TxProduceIndex s, TxDescriptorNumber s + 1)
             | EMAC_RX_BUFF \<Rightarrow> (RxConsumeIndex s, RxProduceIndex s, RxDescriptorNumber s + 1))
      in if consume_idx = produce_idx then EMAC_BUFF_EMPTY
         else if consume_idx = 0 \<and> produce_idx = max_frag_num - 1 then EMAC_BUFF_FULL
         else if consume_idx = produce_idx + 1 then EMAC_BUFF_FULL
         else EMAC_BUFF_PARTIAL_FULL)"

definition EMAC_UpdateTxProduceIndex :: "emac \<Rightarrow> emac" where
  "EMAC_UpdateTxProduceIndex s =
     (let idx = TxProduceIndex s + 1
      in s\<lparr>TxProduceIndex := (if idx = TxDescriptorNumber s + 1 then 0 else idx)\<rparr>)"

definition EMAC_GetTxFrameStatus :: "emac \<Rightarrow> u32 option" where
  "EMAC_GetTxFrameStatus s = elem (TX_STAT_INFO s) (TxProduceIndex s)"

definition EMAC_GetRxFrameStatus :: "emac \<Rightarrow> u32 option" where
  "EMAC_GetRxFrameStatus s = elem (RX_STAT_INFO s) (RxConsumeIndex s)"

definition EMAC_GetRxFrameSize :: "emac \<Rightarrow> u32 option" where
  "EMAC_GetRxFrameSize s = map_option (\<lambda>info. (info AND EMAC_RINFO_SIZE) + 1) (elem (RX_STAT_INFO s) (RxConsumeIndex s))"

definition EMAC_GetRxBuffer :: "emac \<Rightarrow> u32 option" where
  "EMAC_GetRxBuffer s = elem (RX_DESC_PACKET s) (RxConsumeIndex s)"

definition EMAC_UpdateRxConsumeIndex :: "emac \<Rightarrow> emac" where
  "EMAC_UpdateRxConsumeIndex s =
     (let idx = RxConsumeIndex s + 1
      in s\<lparr>RxConsumeIndex := (if idx = of_nat EMAC_NUM_RX_FRAG then 0 else idx)\<rparr>)"

text \<open>
  The copy out of a receive buffer, two bytes at a time, into a chain of buffers: \<open>at\<close> is the
  place in the current one, \<open>left\<close> its room, \<open>rest\<close> the buffers behind it. A source that ends
  and a write past the end of a buffer are undefined.
\<close>

function rx_copy :: "bytes \<Rightarrow> int \<Rightarrow> bytes \<Rightarrow> nat \<Rightarrow> int \<Rightarrow> bytes list \<Rightarrow> bytes list option" where
  "rx_copy src rxLen cur at left rest =
     (if 0 < rxLen \<and> 0 < left
      then (if length src < 2 \<or> length cur < at + 2 then None
            else let cur = cur[at := src ! 0, at + 1 := src ! 1]; left = left - 2; src = drop 2 src; rxLen = rxLen - 2
                 in if left \<le> 0
                    then (case rest of [] \<Rightarrow> Some [cur]
                          | q # qs \<Rightarrow> map_option ((#) cur) (rx_copy src rxLen q 0 (int (length q)) qs))
                    else rx_copy src rxLen cur (at + 2) left rest)
      else Some (cur # rest))"
  by pat_completeness auto
termination
  by (relation "measure (\<lambda>(src, rxLen, _). nat rxLen)") auto

declare rx_copy.simps [simp del]

text \<open>
  \<^verbatim>\<open>pbuf_header\<close> with the two bytes of padding, down and up again: it does nothing when the
  first buffer has no room for them.
\<close>

definition pad_down :: "bytes list \<Rightarrow> bytes \<times> bytes list" where
  "pad_down p = (case p of [] \<Rightarrow> ([], [])
     | b # bs \<Rightarrow> if 2 \<le> length b then (take 2 b, drop 2 b # bs) else ([], b # bs))"

definition pad_up :: "bytes \<Rightarrow> bytes list \<Rightarrow> bytes list" where
  "pad_up pad p = (case p of [] \<Rightarrow> [] | b # bs \<Rightarrow> (pad @ b) # bs)"

text \<open>
  \<^verbatim>\<open>EMAC_ReceivePBuf\<close>. \<open>alloc\<close> is \<^verbatim>\<open>pbuf_alloc(PBUF_RAW, len, PBUF_RAM)\<close> of the stack, whose
  length is 16 bits wide.
\<close>

definition EMAC_ReceivePBuf :: "(nat \<Rightarrow> bytes list option) \<Rightarrow> emac \<Rightarrow> (bytes list option \<times> emac) option" where
  "EMAC_ReceivePBuf alloc s =
     (if EMAC_GetBufferSts EMAC_RX_BUFF s = EMAC_BUFF_EMPTY then Some (None, s)
      else do {
        frame_size \<leftarrow> EMAC_GetRxFrameSize s;
        let rxLen = sint frame_size;
        if 0 < rxLen
        then do {
          let rxLen = rxLen - 3;
          let len = (rxLen + 1) AND 0xFFFE;
          status \<leftarrow> EMAC_GetRxFrameStatus s;
          if status AND EMAC_RINFO_ERR_MASK = 0
          then do {
            let len = len + 2;
            let p = alloc (nat (len mod 65536));
            pSource \<leftarrow> EMAC_GetRxBuffer s;
            p \<leftarrow> (case p of None \<Rightarrow> Some None
                  | Some p \<Rightarrow> (case pad_down p of (pad, q # rest) \<Rightarrow> do {
                        src \<leftarrow> ram_at s pSource;
                        q \<leftarrow> rx_copy src rxLen q 0 (int (length q)) rest;
                        Some (Some (pad_up pad q)) }
                      | (_, []) \<Rightarrow> None));
            Some (p, EMAC_UpdateRxConsumeIndex s) }
          else Some (None, s) }
        else Some (None, s) })"

text \<open>
  The copy into a transmit buffer: two bytes at a time through \<open>wordBuf\<close>, whose byte \<open>count\<close> is
  filled next, over the buffers of the chain. The words are written from the address on; the
  result is what was written, \<open>wordBuf\<close> and \<open>count\<close>.
\<close>

fun tx_copy :: "bytes \<Rightarrow> char \<times> char \<Rightarrow> bool \<Rightarrow> bytes \<times> (char \<times> char) \<times> bool" where
  "tx_copy [] w half = ([], w, half)"
| "tx_copy (c # cs) (a, b) half =
     (if half then (let (out, r) = tx_copy cs (a, c) False in (a # c # out, r))
      else tx_copy cs (c, b) True)"

text \<open>The loops over the chain and its buffers visit the bytes of the packet in order.\<close>

definition tx_words :: "bytes list \<Rightarrow> char \<times> char \<Rightarrow> bytes" where
  "tx_words p w =
     (let (out, (a, b), half) = foldl (\<lambda>(out, w, half) block. let (o', r) = tx_copy block w half in (out @ o', r)) ([], w, False) p
      in if half then out @ [a, b] else out)"

definition ram_write :: "u32 \<Rightarrow> bytes \<Rightarrow> emac \<Rightarrow> emac option" where
  "ram_write a out s = map_option (\<lambda>ram. s\<lparr>eth_ram := ram\<rparr>) (blit (eth_ram s) (int (ram_off a)) out)"

definition tot_len :: "bytes list \<Rightarrow> nat" where
  "tot_len p = length (concat p)"

text \<open>
  \<^verbatim>\<open>EMAC_SendPBuf\<close>; \<open>w\<close> is what \<^verbatim>\<open>wordBuf\<close> holds at the start.
\<close>

definition EMAC_SendPBuf :: "char \<times> char \<Rightarrow> bytes list \<Rightarrow> emac \<Rightarrow> emac option" where
  "EMAC_SendPBuf w p s = do {
     let size = tot_len p;
     let idx = TxProduceIndex s;
     pCopyTo \<leftarrow> elem (TX_DESC_PACKET s) idx;
     _ \<leftarrow> elem (TX_DESC_CTRL s) idx;
     let s = s\<lparr>TX_DESC_CTRL := (TX_DESC_CTRL s)[unat idx := of_nat size OR EMAC_TCTRL_LAST]\<rparr>;
     s \<leftarrow> ram_write pCopyTo (tx_words p w) s;
     let idx = TxProduceIndex s + 1;
     Some (s\<lparr>TxProduceIndex := (if idx = of_nat EMAC_NUM_TX_FRAG then 0 else idx)\<rparr>) }"

section \<open>The ring as a queue\<close>

text \<open>The indices from the consumer's to the producer's, and what they stand for.\<close>

definition ring_idx :: "nat \<Rightarrow> nat \<Rightarrow> nat list" where
  "ring_idx c p = map (\<lambda>k. (c + k) mod 5) [0..<(p + 5 - c) mod 5]"

lemma ring_cases: "(c :: nat) < 5 \<Longrightarrow> c = 0 \<or> c = 1 \<or> c = 2 \<or> c = 3 \<or> c = 4"
  by linarith

lemma ring_idx_props:
  assumes "c < 5" and "p < 5"
  shows ring_idx_Nil: "ring_idx c p = [] \<longleftrightarrow> c = p"
    and ring_idx_Cons: "c \<noteq> p \<Longrightarrow> ring_idx c p = c # ring_idx ((c + 1) mod 5) p"
    and ring_idx_snoc: "(p + 1) mod 5 \<noteq> c \<Longrightarrow> ring_idx c ((p + 1) mod 5) = ring_idx c p @ [p]"
    and ring_idx_set: "i \<in> set (ring_idx c p) \<Longrightarrow> i < 5 \<and> i \<noteq> p"
  using ring_cases [OF assms(1)] ring_cases [OF assms(2)]
  by (elim disjE; auto simp: ring_idx_def upt_conv_Cons)+

lemma ring_index: "unat (i :: u32) < 5 \<Longrightarrow> i = 0 \<or> i = 1 \<or> i = 2 \<or> i = 3 \<or> i = 4"
  using ring_cases [of "unat i"] by (auto dest!: arg_cong [where f = "of_nat :: nat \<Rightarrow> u32"])

lemma ring_next: "unat (i :: u32) < 5 \<Longrightarrow> unat (if i + 1 = 5 then 0 else i + 1) = (unat i + 1) mod 5"
  using ring_index [of i] by auto

text \<open>
  A ring that is set up, no frame in it larger than its buffer, and the frames in it: status
  word and bytes, oldest first.
\<close>

definition rx_size :: "u32 \<Rightarrow> nat" where
  "rx_size info = unat (info AND EMAC_RINFO_SIZE) + 1"

definition rx_ok :: "emac \<Rightarrow> bool" where
  "rx_ok s \<longleftrightarrow> unat (RxConsumeIndex s) < 5 \<and> unat (RxProduceIndex s) < 5 \<and> RX_DESC_PACKET s = map RX_BUF [0..<5]
     \<and> length (RX_STAT_INFO s) = 5 \<and> list_all (\<lambda>info. rx_size info \<le> 1536) (RX_STAT_INFO s) \<and> length (eth_ram s) = ETH_RAM_SIZE"

definition rx_frame :: "emac \<Rightarrow> nat \<Rightarrow> u32 \<times> bytes" where
  "rx_frame s i = (let info = RX_STAT_INFO s ! i in (info, take (rx_size info) (drop (1536 * i) (eth_ram s))))"

definition rx_queue :: "emac \<Rightarrow> (u32 \<times> bytes) list" where
  "rx_queue s = map (rx_frame s) (ring_idx (unat (RxConsumeIndex s)) (unat (RxProduceIndex s)))"

definition tx_ok :: "emac \<Rightarrow> bool" where
  "tx_ok s \<longleftrightarrow> unat (TxConsumeIndex s) < 5 \<and> unat (TxProduceIndex s) < 5 \<and> TX_DESC_PACKET s = map TX_BUF [0..<5]
     \<and> length (TX_DESC_CTRL s) = 5 \<and> list_all (\<lambda>c. unat (c AND EMAC_TCTRL_SIZE) < 1536) (TX_DESC_CTRL s)
     \<and> TxDescriptorNumber s = 4 \<and> length (eth_ram s) = ETH_RAM_SIZE"

text \<open>A frame to be sent has one byte more than the size field of its control word says.\<close>

definition tx_frame :: "emac \<Rightarrow> nat \<Rightarrow> bytes" where
  "tx_frame s i = take (unat ((TX_DESC_CTRL s ! i) AND EMAC_TCTRL_SIZE) + 1) (drop (7680 + 1536 * i) (eth_ram s))"

definition tx_queue :: "emac \<Rightarrow> bytes list" where
  "tx_queue s = map (tx_frame s) (ring_idx (unat (TxConsumeIndex s)) (unat (TxProduceIndex s)))"

text \<open>
  Both rings are queues: five slots, the index of the producer and that of the consumer. What
  the two have in common is stated over an invariant that bounds the indices, the indices, the
  content of a slot and the list of the frames.
\<close>

locale ring_queue =
  fixes inv :: "'s \<Rightarrow> bool" and consumer producer :: "'s \<Rightarrow> nat" and slot :: "'s \<Rightarrow> nat \<Rightarrow> 'f" and queue :: "'s \<Rightarrow> 'f list"
  assumes indices: "inv s \<Longrightarrow> consumer s < 5 \<and> producer s < 5"
    and contents: "queue s = map (slot s) (ring_idx (consumer s) (producer s))"
begin

lemma empty_iff: "inv s \<Longrightarrow> queue s = [] \<longleftrightarrow> consumer s = producer s"
  using indices [of s] by (simp add: contents ring_idx_Nil)

lemma oldest:
  assumes "inv s" and "queue s = f # fs"
  shows "consumer s \<noteq> producer s" and "f = slot s (consumer s)"
    and "fs = map (slot s) (ring_idx ((consumer s + 1) mod 5) (producer s))"
proof -
  show ne: "consumer s \<noteq> producer s" using assms empty_iff by fastforce
  show "f = slot s (consumer s)" "fs = map (slot s) (ring_idx ((consumer s + 1) mod 5) (producer s))"
    using assms indices [OF assms(1)] ring_idx_Cons [OF _ _ ne] by (simp_all add: contents)
qed

lemma taken:
  assumes "inv s" and "queue s = f # fs" and "consumer s' = (consumer s + 1) mod 5" and "producer s' = producer s"
    and "slot s' = slot s"
  shows "queue s' = fs"
  using oldest(3) [OF assms(1,2)] assms(3-5) by (simp add: contents)

lemma unchanged:
  assumes "inv s" and "consumer s' = consumer s" and "producer s' = producer s" and "\<And>i. i < 5 \<Longrightarrow> slot s' i = slot s i"
  shows "queue s' = queue s"
  using assms(2-4) indices [OF assms(1)] ring_idx_set by (auto simp: contents)

lemma put:
  assumes "inv s" and "consumer s' = consumer s" and "producer s' = (producer s + 1) mod 5"
    and "(producer s + 1) mod 5 \<noteq> consumer s" and "\<And>i. i < 5 \<Longrightarrow> i \<noteq> producer s \<Longrightarrow> slot s' i = slot s i"
  shows "queue s' = queue s @ [slot s' (producer s)]"
proof -
  have "ring_idx (consumer s) (producer s') = ring_idx (consumer s) (producer s) @ [producer s]"
    using ring_idx_snoc [of "consumer s" "producer s"] indices [OF assms(1)] assms(3,4) by simp
  moreover have "map (slot s') (ring_idx (consumer s) (producer s)) = map (slot s) (ring_idx (consumer s) (producer s))"
    by (rule map_cong) (use indices [OF assms(1)] ring_idx_set [of "consumer s" "producer s"] assms(5) in auto)
  ultimately show ?thesis using assms(2) by (simp add: contents)
qed

lemma overrun:
  assumes "inv s" and "(producer s + 1) mod 5 = consumer s"
  shows "length (queue s) = 4" and "consumer s' = consumer s \<Longrightarrow> producer s' = consumer s \<Longrightarrow> queue s' = []"
proof -
  show "length (queue s) = 4" using ring_cases [of "producer s"] indices [OF assms(1)] assms(2) by (auto simp: contents ring_idx_def)
  show "consumer s' = consumer s \<Longrightarrow> producer s' = consumer s \<Longrightarrow> queue s' = []" by (simp add: contents ring_idx_def)
qed

end

interpretation rx: ring_queue rx_ok "\<lambda>s. unat (RxConsumeIndex s)" "\<lambda>s. unat (RxProduceIndex s)" rx_frame rx_queue
  by unfold_locales (simp_all add: rx_ok_def rx_queue_def)

interpretation tx: ring_queue tx_ok "\<lambda>s. unat (TxConsumeIndex s)" "\<lambda>s. unat (TxProduceIndex s)" tx_frame tx_queue
  by unfold_locales (simp_all add: tx_ok_def tx_queue_def)

lemma ram_off_buf:
  assumes "i < 5"
  shows "ram_off (RX_BUF i) = 1536 * i" "ram_off (TX_BUF i) = 7680 + 1536 * i"
  using ring_cases [OF assms]
  by (auto simp: ram_off_def RX_BUF_def TX_BUF_def TX_BUF_BASE_def EMAC_ETH_MAX_FLEN_def EMAC_NUM_RX_FRAG_def)

lemma buffer_status_empty: "EMAC_GetBufferSts EMAC_RX_BUFF s = EMAC_BUFF_EMPTY \<longleftrightarrow> RxConsumeIndex s = RxProduceIndex s"
  by (simp add: EMAC_GetBufferSts_def Let_def)

section \<open>Copying\<close>

text \<open>Into one buffer that is just large enough, the copy fills it with the source.\<close>

lemma rx_copy_fills:
  assumes "length cur = at + 2 * k" and "2 * k \<le> length src" and "2 * int k - 1 \<le> n" and "n \<le> 2 * int k"
  shows "rx_copy src n cur at (2 * int k) [] = Some [take at cur @ take (2 * k) src]"
  using assms
proof (induction k arbitrary: src n cur at)
  case 0
  then show ?case by (simp add: rx_copy.simps)
next
  case (Suc k)
  then obtain a b src' where src: "src = a # b # src'" by (cases src; cases "tl src") auto
  let ?cur = "cur[at := a, at + 1 := b]"
  have room: "length cur = at + 2 + 2 * k" using Suc.prems(1) by simp
  have pre: "take (at + 2) ?cur = take at cur @ [a, b]"
    using room by (simp add: take_Suc_conv_app_nth numeral_2_eq_2 take_update_cancel)
  show ?case
  proof (cases "k = 0")
    case True
    then show ?thesis using Suc.prems src room pre by (simp add: rx_copy.simps)
  next
    case False
    have "rx_copy src' (n - 2) ?cur (at + 2) (2 * int k) [] = Some [take (at + 2) ?cur @ take (2 * k) src']"
      by (rule Suc.IH) (use Suc.prems src in auto)
    then show ?thesis using Suc.prems src room pre False by (subst rx_copy.simps) (simp add: algebra_simps)
  qed
qed

lemma tx_copy_out:
  "tx_copy cs (a, b) half = (out, (a', b'), half')
    \<Longrightarrow> (if half then [a] else []) @ cs = out @ (if half' then [a'] else []) \<and> even (length out)"
  by (induction cs "(a, b)" half arbitrary: a b out rule: tx_copy.induct) (auto split: if_splits prod.splits)

lemma tx_words_out: "\<exists>x. tx_words p w = concat p \<and> even (length (concat p)) \<or> tx_words p w = concat p @ [x] \<and> odd (length (concat p))"
proof -
  let ?step = "\<lambda>(out, w, half) block. let (o', r) = tx_copy block w half in (out @ o', r)"
  have fold: "foldl ?step (out0, w0, half0) p = (out, (a, b), half) \<Longrightarrow> even (length out0)
      \<Longrightarrow> out0 @ (if half0 then [fst w0] else []) @ concat p = out @ (if half then [a] else []) \<and> even (length out)"
    for out0 w0 half0 out a b half
  proof (induction p arbitrary: out0 w0 half0)
    case (Cons block p)
    obtain o' a' b' half' where c: "tx_copy block w0 half0 = (o', (a', b'), half')" by (metis prod.exhaust)
    with tx_copy_out [of block "fst w0" "snd w0" half0 o' a' b' half']
    have o': "(if half0 then [fst w0] else []) @ block = o' @ (if half' then [a'] else [])" "even (length o')" by simp_all
    with Cons.IH [of "out0 @ o'" "(a', b')" half'] Cons.prems c
    have "(out0 @ o') @ (if half' then [a'] else []) @ concat p = out @ (if half then [a] else []) \<and> even (length out)"
      by (cases half') simp_all
    with o' show ?case by (metis append.assoc concat.simps(2))
  qed simp
  obtain out a b half where f: "foldl ?step ([], w, False) p = (out, (a, b), half)" by (metis prod.exhaust)
  with fold [OF f] show ?thesis unfolding tx_words_def f by (cases half) auto
qed

section \<open>Receiving\<close>

text \<open>
  A frame without an error bit, what of a frame is passed on, and what the stack promises of a
  new buffer: it is one block of the size asked for.
\<close>

definition rx_good :: "u32 \<times> bytes \<Rightarrow> bool" where
  "rx_good f \<longleftrightarrow> fst f AND EMAC_RINFO_ERR_MASK = 0"

definition rx_content :: "u32 \<times> bytes \<Rightarrow> bytes" where
  "rx_content f = take (2 * ((length (snd f) - 2) div 2)) (snd f)"

definition pbuf_ram :: "(nat \<Rightarrow> bytes list option) \<Rightarrow> bool" where
  "pbuf_ram alloc \<longleftrightarrow> (\<forall>n p. alloc n = Some p \<longrightarrow> (\<exists>b. p = [b] \<and> length b = n))"

lemma sint_of_nat_small: "n < 2 ^ 31 \<Longrightarrow> sint (of_nat n :: u32) = int n"
  by (simp add: signed_of_nat signed_take_bit_int_eq_self)

lemma rx_size_bounds: "0 < rx_size info" "rx_size info \<le> 2048" "sint ((info AND EMAC_RINFO_SIZE) + 1) = int (rx_size info)"
proof -
  have "info AND EMAC_RINFO_SIZE \<le> 0x7FF" by (rule word_and_le1)
  then show "0 < rx_size info" and le: "rx_size info \<le> 2048"
    using word_le_nat_alt [of "info AND EMAC_RINFO_SIZE" "0x7FF"] by (simp_all add: rx_size_def)
  have "(info AND EMAC_RINFO_SIZE) + 1 = of_nat (rx_size info)" by (simp add: rx_size_def)
  then show "sint ((info AND EMAC_RINFO_SIZE) + 1) = int (rx_size info)"
    using sint_of_nat_small [of "rx_size info"] le by simp
qed

lemma rx_queue_Cons:
  assumes "rx_ok s" and "rx_queue s = f # fs"
  shows "RxConsumeIndex s \<noteq> RxProduceIndex s" and "f = rx_frame s (unat (RxConsumeIndex s))"
    and "rx_queue (EMAC_UpdateRxConsumeIndex s) = fs" and "rx_ok (EMAC_UpdateRxConsumeIndex s)"
proof -
  have step: "unat (RxConsumeIndex (EMAC_UpdateRxConsumeIndex s)) = (unat (RxConsumeIndex s) + 1) mod 5"
    using assms(1) ring_next by (simp add: rx_ok_def EMAC_UpdateRxConsumeIndex_def EMAC_NUM_RX_FRAG_def Let_def)
  show "RxConsumeIndex s \<noteq> RxProduceIndex s" "f = rx_frame s (unat (RxConsumeIndex s))"
    using rx.oldest [OF assms] by auto
  show "rx_queue (EMAC_UpdateRxConsumeIndex s) = fs"
    by (rule rx.taken [OF assms step]) (simp_all add: EMAC_UpdateRxConsumeIndex_def rx_frame_def fun_eq_iff Let_def)
  show "rx_ok (EMAC_UpdateRxConsumeIndex s)" using assms(1) step by (simp add: rx_ok_def EMAC_UpdateRxConsumeIndex_def Let_def)
qed

lemma receive_empty:
  assumes "rx_ok s" and "rx_queue s = []"
  shows "EMAC_ReceivePBuf alloc s = Some (None, s)"
proof -
  have "unat (RxConsumeIndex s) = unat (RxProduceIndex s)"
    using assms by (simp add: rx.empty_iff)
  then have "RxConsumeIndex s = RxProduceIndex s" by (rule unsigned_word_eqI)
  then show ?thesis by (simp add: EMAC_ReceivePBuf_def buffer_status_empty)
qed

lemma receive_head:
  assumes "rx_ok s" and "rx_queue s = f # fs"
  shows "EMAC_GetBufferSts EMAC_RX_BUFF s \<noteq> EMAC_BUFF_EMPTY"
    and "EMAC_GetRxFrameSize s = Some ((fst f AND EMAC_RINFO_SIZE) + 1)" and "EMAC_GetRxFrameStatus s = Some (fst f)"
    and "EMAC_GetRxBuffer s = Some (RX_BUF (unat (RxConsumeIndex s)))"
    and "ram_at s (RX_BUF (unat (RxConsumeIndex s))) = Some (drop (1536 * unat (RxConsumeIndex s)) (eth_ram s))"
    and "snd f = take (rx_size (fst f)) (drop (1536 * unat (RxConsumeIndex s)) (eth_ram s))"
    and "length (snd f) = rx_size (fst f)"
proof -
  note q = rx_queue_Cons [OF assms]
  have c: "unat (RxConsumeIndex s) < 5" using assms(1) by (simp add: rx_ok_def)
  show "EMAC_GetBufferSts EMAC_RX_BUFF s \<noteq> EMAC_BUFF_EMPTY" using q(1) by (simp add: buffer_status_empty)
  show "EMAC_GetRxFrameSize s = Some ((fst f AND EMAC_RINFO_SIZE) + 1)" "EMAC_GetRxFrameStatus s = Some (fst f)"
    "EMAC_GetRxBuffer s = Some (RX_BUF (unat (RxConsumeIndex s)))"
    using assms(1) q(2) c
    by (simp_all add: EMAC_GetRxFrameSize_def EMAC_GetRxFrameStatus_def EMAC_GetRxBuffer_def elem_def rx_ok_def rx_frame_def Let_def)
  have "1536 * unat (RxConsumeIndex s) + 2048 \<le> length (eth_ram s)" using assms(1) c by (simp add: rx_ok_def ETH_RAM_SIZE_def)
  then show "ram_at s (RX_BUF (unat (RxConsumeIndex s))) = Some (drop (1536 * unat (RxConsumeIndex s)) (eth_ram s))"
    "length (snd f) = rx_size (fst f)"
    using ram_off_buf(1) [OF c] q(2) rx_size_bounds(2) [of "fst f"] by (simp_all add: ram_at_def rx_frame_def Let_def)
  show "snd f = take (rx_size (fst f)) (drop (1536 * unat (RxConsumeIndex s)) (eth_ram s))"
    using q(2) by (simp add: rx_frame_def Let_def)
qed

text \<open>A damaged frame stays where it is.\<close>

lemma receive_damaged:
  assumes "rx_ok s" and "rx_queue s = f # fs" and "\<not> rx_good f"
  shows "EMAC_ReceivePBuf alloc s = Some (None, s)"
  using receive_head [OF assms(1,2)] rx_size_bounds(1,3) [of "fst f"] assms(3)
  by (simp add: EMAC_ReceivePBuf_def rx_good_def Let_def)

text \<open>
  Any other frame of at least four bytes is passed on in a block of its own, two bytes of
  padding before it, when the stack has memory, and is released in any case.
\<close>

lemma and_push_mask: "(x :: int) AND push_bit n (mask k) = push_bit n (take_bit k (drop_bit n x))"
  by (rule bit_eqI) (auto simp: bit_simps)

lemma and_even_mask:
  assumes "0 \<le> x" and "x < 65536"
  shows "(x :: int) AND 0xFFFE = 2 * (x div 2)"
proof -
  have "x AND 0xFFFE = push_bit 1 (take_bit 15 (drop_bit 1 x))"
    using and_push_mask [of x 1 15] by (simp add: mask_eq_exp_minus_1 push_bit_eq_mult)
  also have "take_bit 15 (drop_bit 1 x) = drop_bit 1 x"
    using assms by (simp add: take_bit_int_eq_self drop_bit_eq_div)
  finally show ?thesis by (simp add: drop_bit_eq_div push_bit_eq_mult)
qed

lemma rx_block_size:
  assumes "4 \<le> m" and "m \<le> 2048"
  shows "(int m - 3 + 1) AND 0xFFFE = 2 * int ((m - 2) div 2)"
  using assms and_even_mask [of "int m - 2"] by (simp add: zdiv_int of_nat_diff)

lemma receive_good:
  assumes "rx_ok s" and "rx_queue s = f # fs" and "rx_good f" and "4 \<le> length (snd f)" and "pbuf_ram alloc"
  shows "EMAC_ReceivePBuf alloc s =
     Some (map_option (\<lambda>p. [take 2 (hd p) @ rx_content f]) (alloc (length (rx_content f) + 2)), EMAC_UpdateRxConsumeIndex s)"
proof -
  let ?m = "length (snd f)" and ?k = "(length (snd f) - 2) div 2"
  let ?src = "drop (1536 * unat (RxConsumeIndex s)) (eth_ram s)"
  note h = receive_head [OF assms(1,2)]
  have m: "?m = rx_size (fst f)" "?m \<le> 2048" using h(7) rx_size_bounds(2) by simp_all
  have c: "length (rx_content f) = 2 * ?k" using m by (simp add: rx_content_def)
  have len: "(int ?m - 3 + 1) AND 0xFFFE = 2 * int ?k" by (rule rx_block_size [OF assms(4) m(2)])
  have alloc_len: "nat ((2 * int ?k + 2) mod 65536) = length (rx_content f) + 2" using c m(2) by (simp add: nat_add_distrib)
  have copy: "rx_copy ?src (int ?m - 3) (drop 2 b) 0 (int (length (drop 2 b))) [] = Some [rx_content f]"
    if "length b = length (rx_content f) + 2" for b
  proof -
    have "rx_copy ?src (int ?m - 3) (drop 2 b) 0 (2 * int ?k) [] = Some [take 0 (drop 2 b) @ take (2 * ?k) ?src]"
      using that c assms(4) h(6) m by (intro rx_copy_fills) (auto simp: h(6))
    moreover have "take (2 * ?k) ?src = rx_content f" using h(6) m by (simp add: rx_content_def min_def)
    ultimately show ?thesis using that c by simp
  qed
  show ?thesis
  proof (cases "alloc (length (rx_content f) + 2)")
    case None
    then show ?thesis using h(1-4) rx_size_bounds [of "fst f"] assms(3) len alloc_len m(1)
      by (simp add: EMAC_ReceivePBuf_def rx_good_def Let_def)
  next
    case (Some p)
    with assms(5) obtain b where b: "p = [b]" "length b = length (rx_content f) + 2" unfolding pbuf_ram_def by blast
    with copy [OF b(2)] Some show ?thesis using h(1-5) rx_size_bounds [of "fst f"] assms(3) len alloc_len m(1)
      by (simp add: EMAC_ReceivePBuf_def rx_good_def Let_def pad_down_def pad_up_def)
  qed
qed

section \<open>Runs of the receiver\<close>

text \<open>
  What the controller may do between two calls: store further frames, each with its four bytes
  of checksum, behind those in the ring. It leaves the consumer's index alone.
\<close>

definition hw_arrive :: "emac \<Rightarrow> (u32 \<times> bytes) list \<Rightarrow> emac \<Rightarrow> bool" where
  "hw_arrive s fs s' \<longleftrightarrow> rx_ok s' \<and> RxConsumeIndex s' = RxConsumeIndex s \<and> rx_queue s' = rx_queue s @ fs
     \<and> list_all (\<lambda>f. 4 \<le> length (snd f)) fs"

text \<open>
  Arrivals and calls of \<^verbatim>\<open>EMAC_ReceivePBuf\<close> in any order, the stack with or without memory at each
  of them: the frames that arrived, and the contents passed on, without their padding.
\<close>

inductive nic_run :: "emac \<Rightarrow> (u32 \<times> bytes) list \<Rightarrow> bytes list \<Rightarrow> emac \<Rightarrow> bool" for s0 :: emac where
  start: "nic_run s0 [] [] s0"
| arrive: "nic_run s0 a d s \<Longrightarrow> hw_arrive s fs s' \<Longrightarrow> nic_run s0 (a @ fs) d s'"
| poll: "nic_run s0 a d s \<Longrightarrow> pbuf_ram alloc \<Longrightarrow> EMAC_ReceivePBuf alloc s = Some (r, s')
    \<Longrightarrow> nic_run s0 a (d @ (case r of None \<Rightarrow> [] | Some p \<Rightarrow> [drop 2 (concat p)])) s'"

lemma receive_step:
  assumes "rx_ok s" and "list_all (\<lambda>f. 4 \<le> length (snd f)) (rx_queue s)" and "pbuf_ram alloc"
  obtains "EMAC_ReceivePBuf alloc s = Some (None, s)"
  | f fs r where "rx_queue s = f # fs" "rx_good f" "EMAC_ReceivePBuf alloc s = Some (r, EMAC_UpdateRxConsumeIndex s)"
      "\<forall>p. r = Some p \<longrightarrow> drop 2 (concat p) = rx_content f"
proof (cases "rx_queue s")
  case Nil
  then show thesis using receive_empty assms(1) that(1) by blast
next
  case (Cons f fs)
  show thesis
  proof (cases "rx_good f")
    case True
    let ?r = "map_option (\<lambda>p. [take 2 (hd p) @ rx_content f]) (alloc (length (rx_content f) + 2))"
    have "\<forall>p. ?r = Some p \<longrightarrow> drop 2 (concat p) = rx_content f"
      using assms(3) unfolding pbuf_ram_def by fastforce
    with receive_good [OF assms(1) Cons True _ assms(3)] assms(2) Cons show thesis
      by (intro that(2) [OF Cons True]) auto
  next
    case False
    then show thesis using receive_damaged [OF assms(1) Cons] that(1) by blast
  qed
qed

lemma nic_run_inv:
  assumes "nic_run s0 a d s" and "rx_ok s0" and "list_all (\<lambda>f. 4 \<le> length (snd f)) (rx_queue s0)"
  shows "rx_ok s \<and> list_all (\<lambda>f. 4 \<le> length (snd f)) (rx_queue s)
    \<and> (\<exists>taken. rx_queue s0 @ a = taken @ rx_queue s \<and> list_all rx_good taken \<and> subseq d (map rx_content taken))"
  using assms
proof (induction rule: nic_run.induct)
  case start
  then show ?case by force
next
  case (arrive a d s fs s')
  then show ?case by (auto simp: hw_arrive_def)
next
  case (poll a d s alloc r s')
  then have ok: "rx_ok s" "list_all (\<lambda>f. 4 \<le> length (snd f)) (rx_queue s)" by simp_all
  from poll obtain taken where t: "rx_queue s0 @ a = taken @ rx_queue s" "list_all rx_good taken" "subseq d (map rx_content taken)"
    by auto
  from receive_step [OF ok poll.hyps(2)] show ?case
  proof cases
    case 1
    then show ?thesis using poll.hyps(3) ok t by auto
  next
    case (2 f fs r')
    then have r: "r = r'" "s' = EMAC_UpdateRxConsumeIndex s" using poll.hyps(3) by simp_all
    note q = rx_queue_Cons [OF ok(1) 2(1)]
    have "subseq (d @ (case r of None \<Rightarrow> [] | Some p \<Rightarrow> [drop 2 (concat p)])) (map rx_content (taken @ [f]))"
      using t(3) 2(4) r(1) by (cases r) (auto intro: list_emb_append_mono subseq_append' list_emb_append2)
    moreover have "rx_queue s0 @ a = (taken @ [f]) @ rx_queue s'" using t(1) 2(1) q(3) r(2) by simp
    ultimately show ?thesis using q(3,4) r(2) t(2) 2(1,2) ok(2) by (intro conjI exI [of _ "taken @ [f]"]) auto
  qed
qed

section \<open>Sending\<close>

lemma slice_blit_other:
  assumes "blit a (int d) src = Some b" and "i + n \<le> d \<or> d + length src \<le> i"
  shows "take n (drop i b) = take n (drop i a)"
proof -
  have b: "b = take d a @ src @ drop (d + length src) a" "d + length src \<le> length a"
    using assms(1) by (auto simp: blit_eq_Some in_arr_def)
  from assms(2) show ?thesis
  proof
    assume "i + n \<le> d"
    then have "take (n + i) b = take (n + i) a" using b by (simp add: min_def)
    then show ?thesis by (simp add: take_drop)
  next
    assume "d + length src \<le> i"
    then have "drop i b = drop i a" using b by (simp add: add.commute)
    then show ?thesis by simp
  qed
qed

lemma send_size:
  assumes "n \<le> 2047"
  shows "unat ((of_nat n OR EMAC_TCTRL_LAST) AND EMAC_TCTRL_SIZE) = n"
proof -
  have "((of_nat n :: u32) OR EMAC_TCTRL_LAST) AND EMAC_TCTRL_SIZE = of_nat n AND mask 11"
    by (simp add: bit.conj_disj_distrib2 mask_eq_exp_minus_1)
  also have "\<dots> = of_nat (take_bit 11 n)" by (simp add: take_bit_of_nat flip: take_bit_eq_mask)
  also have "take_bit 11 n = n" using assms by (simp add: take_bit_nat_eq_self)
  finally show ?thesis using assms by (simp add: unat_of_nat)
qed

text \<open>What a call does to the memory and the ring, the packet being smaller than a buffer.\<close>

lemma send_effect:
  assumes "tx_ok s" and "tot_len p \<le> 1535" and "i = unat (TxProduceIndex s)"
  obtains ram x where "EMAC_SendPBuf w p s = Some (s\<lparr>TX_DESC_CTRL := (TX_DESC_CTRL s)[i := of_nat (tot_len p) OR EMAC_TCTRL_LAST],
        eth_ram := ram, TxProduceIndex := (if TxProduceIndex s + 1 = 5 then 0 else TxProduceIndex s + 1)\<rparr>)"
    and "length ram = ETH_RAM_SIZE" and "take (tot_len p + 1) (drop (7680 + 1536 * i) ram) = concat p @ [x]"
    and "\<And>k n. k + n \<le> 7680 + 1536 * i \<or> 7680 + 1536 * (i + 1) \<le> k \<Longrightarrow> take n (drop k ram) = take n (drop k (eth_ram s))"
proof -
  let ?out = "tx_words p w" and ?d = "7680 + 1536 * i"
  have i: "i < 5" using assms(1,3) by (simp add: tx_ok_def)
  have room: "?d + 1536 \<le> length (eth_ram s)" using assms(1) i by (simp add: tx_ok_def ETH_RAM_SIZE_def)
  obtain x where x: "?out = concat p \<and> even (length (concat p)) \<or> ?out = concat p @ [x] \<and> odd (length (concat p))"
    using tx_words_out by blast
  have "length ?out \<le> 1536" using x assms(2) by (auto simp: tot_len_def)
  then obtain ram where ram: "blit (eth_ram s) (int ?d) ?out = Some ram"
    using room by (auto simp: blit_def in_arr_def)
  then have ram_eq: "ram = take ?d (eth_ram s) @ ?out @ drop (?d + length ?out) (eth_ram s)"
    unfolding blit_eq_Some nat_int by blast
  show thesis
  proof (rule that)
    show "EMAC_SendPBuf w p s = Some (s\<lparr>TX_DESC_CTRL := (TX_DESC_CTRL s)[i := of_nat (tot_len p) OR EMAC_TCTRL_LAST],
        eth_ram := ram, TxProduceIndex := (if TxProduceIndex s + 1 = 5 then 0 else TxProduceIndex s + 1)\<rparr>)"
      using assms(1,3) i ram ram_off_buf(2) [OF i]
      by (simp add: EMAC_SendPBuf_def elem_def tx_ok_def ram_write_def EMAC_NUM_TX_FRAG_def Let_def)
    show "length ram = ETH_RAM_SIZE" using length_blit [OF ram] assms(1) by (simp add: tx_ok_def)
    have "drop ?d ram = ?out @ drop (?d + length ?out) (eth_ram s)" using room by (simp add: ram_eq)
    then show "take (tot_len p + 1) (drop ?d ram) = concat p @ [if even (tot_len p) then eth_ram s ! (?d + tot_len p) else x]"
      using x room assms(2) by (auto simp: tot_len_def take_Suc_conv_app_nth hd_drop_conv_nth take_Suc)
    show "take n (drop k ram) = take n (drop k (eth_ram s))" if "k + n \<le> ?d \<or> 7680 + 1536 * (i + 1) \<le> k" for k n
      using slice_blit_other [OF ram, of k n] that \<open>length ?out \<le> 1536\<close> by auto
  qed
qed

lemma tx_full:
  assumes "tx_ok s"
  shows "EMAC_GetBufferSts EMAC_TX_BUFF s = EMAC_BUFF_FULL
    \<longleftrightarrow> (unat (TxProduceIndex s) + 1) mod 5 = unat (TxConsumeIndex s)"
proof -
  let ?c = "TxConsumeIndex s" and ?p = "TxProduceIndex s"
  have "?c = 0 \<or> ?c = 1 \<or> ?c = 2 \<or> ?c = 3 \<or> ?c = 4" "?p = 0 \<or> ?p = 1 \<or> ?p = 2 \<or> ?p = 3 \<or> ?p = 4"
    using assms ring_index by (simp_all add: tx_ok_def)
  moreover have "TxDescriptorNumber s = 4" using assms by (simp add: tx_ok_def)
  ultimately show ?thesis by (auto simp: EMAC_GetBufferSts_def Let_def)
qed

text \<open>The other ring is not touched, and the frame is appended when there is room.\<close>

lemma send_keeps_rx:
  assumes "tx_ok s" and "rx_ok s" and "tot_len p \<le> 1535" and "EMAC_SendPBuf w p s = Some s'"
  shows "rx_ok s' \<and> rx_queue s' = rx_queue s"
proof -
  from send_effect [OF assms(1,3) refl, of w] obtain ram x where
    e: "EMAC_SendPBuf w p s = Some (s\<lparr>TX_DESC_CTRL := (TX_DESC_CTRL s)[unat (TxProduceIndex s) := of_nat (tot_len p) OR EMAC_TCTRL_LAST],
        eth_ram := ram, TxProduceIndex := (if TxProduceIndex s + 1 = 5 then 0 else TxProduceIndex s + 1)\<rparr>)"
    "length ram = ETH_RAM_SIZE"
    "\<And>k n. k + n \<le> 7680 + 1536 * unat (TxProduceIndex s) \<or> 7680 + 1536 * (unat (TxProduceIndex s) + 1) \<le> k
       \<Longrightarrow> take n (drop k ram) = take n (drop k (eth_ram s))"
    by blast
  have s': "RX_STAT_INFO s' = RX_STAT_INFO s" "RxConsumeIndex s' = RxConsumeIndex s" "RxProduceIndex s' = RxProduceIndex s"
    "RX_DESC_PACKET s' = RX_DESC_PACKET s" "eth_ram s' = ram"
    using assms(4) e(1) by auto
  have frame: "rx_frame s' i = rx_frame s i" if "i < 5" for i
  proof -
    have "rx_size (RX_STAT_INFO s ! i) \<le> 1536" using assms(2) that by (simp add: rx_ok_def list_all_length)
    with that e(3) [of "1536 * i"] show ?thesis by (simp add: rx_frame_def s' Let_def)
  qed
  have "rx_queue s' = rx_queue s" by (rule rx.unchanged [OF assms(2)]) (simp_all add: s' frame)
  with assms(2) s' e(2) show ?thesis by (simp add: rx_ok_def)
qed

lemma send_appends:
  assumes "tx_ok s" and "tot_len p \<le> 1535" and "EMAC_GetBufferSts EMAC_TX_BUFF s \<noteq> EMAC_BUFF_FULL"
  shows "\<exists>s' x. EMAC_SendPBuf w p s = Some s' \<and> tx_ok s' \<and> tx_queue s' = tx_queue s @ [concat p @ [x]]"
proof -
  let ?c = "unat (TxConsumeIndex s)" and ?p = "unat (TxProduceIndex s)"
  from send_effect [OF assms(1,2) refl, of w] obtain ram x where
    e: "EMAC_SendPBuf w p s = Some (s\<lparr>TX_DESC_CTRL := (TX_DESC_CTRL s)[?p := of_nat (tot_len p) OR EMAC_TCTRL_LAST],
        eth_ram := ram, TxProduceIndex := (if TxProduceIndex s + 1 = 5 then 0 else TxProduceIndex s + 1)\<rparr>)"
    "length ram = ETH_RAM_SIZE" "take (tot_len p + 1) (drop (7680 + 1536 * ?p) ram) = concat p @ [x]"
    "\<And>k n. k + n \<le> 7680 + 1536 * ?p \<or> 7680 + 1536 * (?p + 1) \<le> k \<Longrightarrow> take n (drop k ram) = take n (drop k (eth_ram s))"
    by blast
  let ?s = "s\<lparr>TX_DESC_CTRL := (TX_DESC_CTRL s)[?p := of_nat (tot_len p) OR EMAC_TCTRL_LAST],
        eth_ram := ram, TxProduceIndex := (if TxProduceIndex s + 1 = 5 then 0 else TxProduceIndex s + 1)\<rparr>"
  have cp: "?c < 5" "?p < 5" using assms(1) by (simp_all add: tx_ok_def)
  have size: "unat ((of_nat (tot_len p) OR EMAC_TCTRL_LAST) AND EMAC_TCTRL_SIZE) = tot_len p"
    using assms(2) by (intro send_size) simp
  have new: "tx_frame ?s ?p = concat p @ [x]"
    using assms(1) cp e(3) by (simp add: tx_frame_def tx_ok_def size)
  have old: "tx_frame ?s i = tx_frame s i" if "i < 5" "i \<noteq> ?p" for i
  proof -
    have "unat ((TX_DESC_CTRL s ! i) AND EMAC_TCTRL_SIZE) < 1536" using assms(1) that by (simp add: tx_ok_def list_all_length)
    then have "take (unat ((TX_DESC_CTRL s ! i) AND EMAC_TCTRL_SIZE) + 1) (drop (7680 + 1536 * i) ram)
       = take (unat ((TX_DESC_CTRL s ! i) AND EMAC_TCTRL_SIZE) + 1) (drop (7680 + 1536 * i) (eth_ram s))"
      using that(2) by (intro e(4)) (cases "i < ?p"; simp)
    with that show ?thesis by (simp add: tx_frame_def)
  qed
  have room: "(?p + 1) mod 5 \<noteq> ?c" using assms(1,3) cp by (auto simp: tx_full)
  have "tx_queue ?s = tx_queue s @ [concat p @ [x]]"
    using tx.put [OF assms(1) _ _ room, of ?s] ring_next [OF cp(2)] old new by simp
  moreover have "tx_ok ?s" using assms(1,2) cp e(2) size ring_next [OF cp(2)]
    by (auto simp: tx_ok_def list_all_length nth_list_update)
  ultimately show ?thesis using e(1) by blast
qed

section \<open>Set-up\<close>

lemma rx_descr_init_ok: "unat (RxProduceIndex s) < 5 \<Longrightarrow> length (eth_ram s) = ETH_RAM_SIZE \<Longrightarrow> rx_ok (rx_descr_init s)"
  by (simp add: rx_ok_def rx_descr_init_def EMAC_NUM_RX_FRAG_def rx_size_def list_all_length)

lemma tx_descr_init_ok: "unat (TxConsumeIndex s) < 5 \<Longrightarrow> length (eth_ram s) = ETH_RAM_SIZE \<Longrightarrow> tx_ok (tx_descr_init s)"
  by (simp add: tx_ok_def tx_descr_init_def EMAC_NUM_TX_FRAG_def list_all_length)

text \<open>A controller after its reset, and with its rings set up.\<close>

definition emac_reset :: emac where
  "emac_reset = \<lparr>mac = \<lparr>MAC1 = 0, MAC2 = 0, IPGT = 0, IPGR = 0, CLRT = 0, MAXF = 0, SUPP = 0, MCFG = 0, MCMD = 0, MADR = 0,
       MWTD = 0, SA0 = 0, SA1 = 0, SA2 = 0\<rparr>,
     Command = 0, RxDescriptor = 0, RxStatus = 0, RxDescriptorNumber = 0, RxProduceIndex = 0, RxConsumeIndex = 0,
     TxDescriptor = 0, TxStatus = 0, TxDescriptorNumber = 0, TxProduceIndex = 0, TxConsumeIndex = 0,
     RxFilterCtrl = 0, RxFilterWoLClear = 0, HashFilterL = 0, HashFilterH = 0, IntEnable = 0, IntClear = 0,
     RX_DESC_PACKET = [], RX_DESC_CTRL = [], RX_STAT_INFO = [], RX_STAT_HASHCRC = [],
     TX_DESC_PACKET = [], TX_DESC_CTRL = [], TX_STAT_INFO = [], eth_ram = zeros ETH_RAM_SIZE,
     g_lFrameCount = 0, powered = False, irq_on = False, phy_ops = []\<rparr>"

definition emac_up :: emac where
  "emac_up = tx_descr_init (rx_descr_init emac_reset)"

lemma emac_up_ok: "rx_ok emac_up" "tx_ok emac_up" "rx_queue emac_up = []" "tx_queue emac_up = []"
proof -
  show "tx_ok emac_up" unfolding emac_up_def by (rule tx_descr_init_ok) (simp_all add: emac_reset_def rx_descr_init_def)
  have "rx_ok (rx_descr_init emac_reset)" by (rule rx_descr_init_ok) (simp_all add: emac_reset_def)
  then show "rx_ok emac_up" by (simp add: emac_up_def rx_ok_def tx_descr_init_def)
  show "rx_queue emac_up = []" "tx_queue emac_up = []"
    by (simp_all add: rx_queue_def tx_queue_def emac_up_def tx_descr_init_def rx_descr_init_def emac_reset_def ring_idx_def)
qed

text \<open>A frame of 60 bytes and its checksum in the first receive buffer, with a status word.\<close>

definition emac_rx :: "u32 \<Rightarrow> emac" where
  "emac_rx info = emac_up\<lparr>RX_STAT_INFO := [info, 0, 0, 0, 0], RxProduceIndex := 1\<rparr>"

lemma emac_rx_ok:
  assumes "info = 63 \<or> info = 0x80003F"
  shows "rx_ok (emac_rx info)" "rx_queue (emac_rx info) = [(info, zeros 64)]"
proof -
  have up: "rx_ok emac_up" "RxConsumeIndex emac_up = 0" "eth_ram emac_up = zeros ETH_RAM_SIZE"
    using emac_up_ok(1) by (simp_all add: emac_up_def tx_descr_init_def rx_descr_init_def emac_reset_def)
  have size: "rx_size info = 64" using assms by (auto simp: rx_size_def)
  show "rx_ok (emac_rx info)" using up size by (simp add: emac_rx_def rx_ok_def rx_size_def)
  have "ring_idx 0 1 = [0]" by (simp add: ring_idx_def)
  then show "rx_queue (emac_rx info) = [(info, zeros 64)]"
    using up size by (simp add: rx_queue_def emac_rx_def rx_frame_def zeros_def ETH_RAM_SIZE_def)
qed

definition pbuf_zeros :: "nat \<Rightarrow> bytes list option" where
  "pbuf_zeros n = Some [zeros n]"

lemma pbuf_zeros_ram: "pbuf_ram pbuf_zeros"
  by (simp add: pbuf_ram_def pbuf_zeros_def)

lemma emac_rx_poll:
  "EMAC_ReceivePBuf pbuf_zeros (emac_rx 63) = Some (Some [zeros 64], EMAC_UpdateRxConsumeIndex (emac_rx 63))"
proof -
  have good: "rx_good (63, zeros 64)" by (simp add: rx_good_def EMAC_RINFO_ERR_MASK_def)
  have content: "rx_content (63, zeros 64) = zeros 62" by (simp add: rx_content_def zeros_def)
  have "zeros 2 @ zeros 62 = zeros 64" by (simp add: zeros_def flip: replicate_add)
  then have two: "take 2 (hd [zeros 64]) @ zeros 62 = zeros 64" by (simp add: zeros_def)
  show ?thesis
    using receive_good [OF emac_rx_ok(1) emac_rx_ok(2) good _ pbuf_zeros_ram] two by (simp add: content pbuf_zeros_def)
qed

section \<open>Properties\<close>

text \<open>
  C10: Frames are received in the order in which they arrive. However the controller and the
  calls of the driver alternate, and whether the stack has memory or not, the ring holds the
  frames that have not been taken, the ones that were taken were sound, and what was passed on
  is the contents of some of them in order, each at most once.
\<close>

theorem frames_received_in_order:
  assumes "rx_ok s0" and "rx_queue s0 = []" and "nic_run s0 arrived passed s"
  shows "\<exists>taken. arrived = taken @ rx_queue s \<and> list_all rx_good taken \<and> subseq passed (map rx_content taken)"
  using nic_run_inv [OF assms(3,1)] assms(2) by simp

lemma nic_run_sample: "nic_run emac_up [(63, zeros 64)] [zeros 62] (EMAC_UpdateRxConsumeIndex (emac_rx 63))"
proof -
  have "hw_arrive emac_up [(63, zeros 64)] (emac_rx 63)"
    using emac_rx_ok [of 63] emac_up_ok by (simp add: hw_arrive_def emac_rx_def)
  from nic_run.poll [OF nic_run.arrive [OF nic_run.start this] pbuf_zeros_ram emac_rx_poll] show ?thesis
    by (simp add: zeros_def)
qed

theorem frames_received_in_order_witness:
  "\<exists>taken. [(63, zeros 64)] = taken @ rx_queue (EMAC_UpdateRxConsumeIndex (emac_rx 63)) \<and> list_all rx_good taken
    \<and> subseq [zeros 62] (map rx_content taken)"
  using frames_received_in_order [OF emac_up_ok(1,3) nic_run_sample] .

text \<open>
  C13: One damaged frame stops reception for good. A frame whose status word has an error bit is
  not released, so every later call finds it again: whatever arrives behind it, nothing is
  passed on any more, and the ring keeps the frame and everything behind it.
\<close>

theorem damaged_frame_blocks:
  assumes "rx_ok s0" and "rx_queue s0 = f # fs" and "\<not> rx_good f" and "list_all (\<lambda>f. 4 \<le> length (snd f)) (f # fs)"
    and "nic_run s0 arrived passed s"
  shows "passed = [] \<and> rx_queue s = rx_queue s0 @ arrived \<and> EMAC_ReceivePBuf alloc s = Some (None, s)"
proof -
  from nic_run_inv [OF assms(5,1)] assms(2,4) obtain taken where ok: "rx_ok s"
    and t: "rx_queue s0 @ arrived = taken @ rx_queue s" "list_all rx_good taken" "subseq passed (map rx_content taken)" by auto
  have "taken = []" using t(1,2) assms(2,3) by (cases taken) auto
  with t have "passed = []" "rx_queue s = f # fs @ arrived" using assms(2) by simp_all
  with receive_damaged [OF ok _ assms(3)] assms(2) show ?thesis by simp
qed

theorem damaged_frame_blocks_witness:
  "EMAC_ReceivePBuf pbuf_zeros (emac_rx 0x80003F) = Some (None, emac_rx 0x80003F)"
proof -
  have bad: "\<not> rx_good (0x80003F, zeros 64)" by (simp add: rx_good_def EMAC_RINFO_ERR_MASK_def)
  show ?thesis
    using damaged_frame_blocks [OF emac_rx_ok(1) emac_rx_ok(2) bad _ nic_run.start] by simp
qed

text \<open>
  C18: The ring of frames to be sent is a queue, and every frame is one byte too long. With room
  in the ring, a packet of at most 1535 bytes is appended to it, the frames before it and the
  other ring staying as they are; the controller sends the bytes of the packet, over all its
  buffers in order, and one byte more, because the size field holds the size instead of the
  size less one.
\<close>

theorem packet_sent_with_extra_byte:
  assumes "tx_ok s" and "rx_ok s" and "tot_len p \<le> 1535" and "EMAC_GetBufferSts EMAC_TX_BUFF s \<noteq> EMAC_BUFF_FULL"
  shows "\<exists>s' x. EMAC_SendPBuf w p s = Some s' \<and> tx_queue s' = tx_queue s @ [concat p @ [x]] \<and> tx_ok s'
    \<and> rx_ok s' \<and> rx_queue s' = rx_queue s"
  using send_appends [OF assms(1,3,4)] send_keeps_rx [OF assms(1-3)] by metis

theorem packet_sent_with_extra_byte_witness:
  "\<exists>s' x. EMAC_SendPBuf (NUL, NUL) [''abc'', ''defgh''] emac_up = Some s' \<and> tx_queue s' = [''abcdefgh'' @ [x]]"
proof -
  have "EMAC_GetBufferSts EMAC_TX_BUFF emac_up \<noteq> EMAC_BUFF_FULL"
    by (simp add: EMAC_GetBufferSts_def emac_up_def tx_descr_init_def rx_descr_init_def emac_reset_def)
  with packet_sent_with_extra_byte [OF emac_up_ok(2,1), of "[''abc'', ''defgh'']" "(NUL, NUL)"] emac_up_ok(4)
  show ?thesis by (auto simp: tot_len_def)
qed

text \<open>
  A packet sent while the ring is full loses all frames. The ring is not checked: the
  producer's index reaches the consumer's, the ring counts as empty, and none of the four
  frames in it nor the new one is left to be sent.
\<close>

theorem full_ring_loses_frames:
  assumes "tx_ok s" and "tot_len p \<le> 1535" and "EMAC_GetBufferSts EMAC_TX_BUFF s = EMAC_BUFF_FULL"
  shows "\<exists>s'. EMAC_SendPBuf w p s = Some s' \<and> length (tx_queue s) = 4 \<and> tx_queue s' = []
    \<and> EMAC_GetBufferSts EMAC_TX_BUFF s' = EMAC_BUFF_EMPTY"
proof -
  let ?c = "unat (TxConsumeIndex s)" and ?p = "unat (TxProduceIndex s)"
  have cp: "?c < 5" "?p < 5" using assms(1) by (simp_all add: tx_ok_def)
  have full: "(?p + 1) mod 5 = ?c" using assms(1,3) by (simp add: tx_full)
  let ?i = "if TxProduceIndex s + 1 = 5 then 0 else TxProduceIndex s + 1"
  from send_effect [OF assms(1,2) refl, of w] obtain ram where
    "EMAC_SendPBuf w p s = Some (s\<lparr>TX_DESC_CTRL := (TX_DESC_CTRL s)[?p := of_nat (tot_len p) OR EMAC_TCTRL_LAST],
       eth_ram := ram, TxProduceIndex := ?i\<rparr>)" by blast
  then obtain s' where s': "EMAC_SendPBuf w p s = Some s'" "TxProduceIndex s' = ?i" "TxConsumeIndex s' = TxConsumeIndex s" by simp
  then have "unat (TxProduceIndex s') = ?c" using ring_next [OF cp(2)] full by simp
  then have idx: "TxProduceIndex s' = TxConsumeIndex s'" using s'(3) by (metis unsigned_word_eqI)
  have "length (tx_queue s) = 4" "tx_queue s' = []" using tx.overrun(1) [OF assms(1) full] tx.overrun(2) [OF assms(1) full, of s'] s'(3) idx by simp_all
  then show ?thesis using s'(1) idx by (auto simp: EMAC_GetBufferSts_def)
qed

theorem full_ring_loses_frames_witness:
  "\<exists>s'. EMAC_SendPBuf (NUL, NUL) [''abc''] (emac_up\<lparr>TxProduceIndex := 4\<rparr>) = Some s' \<and> tx_queue s' = []"
proof -
  have "tx_ok (emac_up\<lparr>TxProduceIndex := 4\<rparr>)" using emac_up_ok(2) by (simp add: tx_ok_def)
  moreover have "EMAC_GetBufferSts EMAC_TX_BUFF (emac_up\<lparr>TxProduceIndex := 4\<rparr>) = EMAC_BUFF_FULL"
    by (simp add: EMAC_GetBufferSts_def emac_up_def tx_descr_init_def rx_descr_init_def emac_reset_def EMAC_NUM_TX_FRAG_def)
  ultimately show ?thesis using full_ring_loses_frames [of "emac_up\<lparr>TxProduceIndex := 4\<rparr>" "[''abc'']" "(NUL, NUL)"]
    by (auto simp: tot_len_def)
qed

end
