(* ===== verification/Emac_Filter.thy ===== *)
theory Emac_Filter
  imports Emac
begin

text \<open>
  The hash filter of \<^verbatim>\<open>drivers/source/lpc_emac.c\<close>: the checksum of an address, computed four bits
  at a time, and the bit of the 64-bit filter that it selects. The reference is the division of
  the bits of a frame, each byte from its lowest bit on, by the generator of IEEE 802.3.
\<close>

section \<open>The checksum\<close>

text \<open>Half a byte: \<open>crc >> n\<close> is the shift of a signed \<^verbatim>\<open>int\<close>, \<open>byte\<close> an unsigned \<^verbatim>\<open>char\<close>.\<close>

definition crc_tap :: "nat \<Rightarrow> nat \<Rightarrow> u32 \<Rightarrow> u32 \<Rightarrow> u8 \<Rightarrow> u32" where
  "crc_tap n m q crc byte =
     (if (signed_drop_bit n crc XOR ucast (drop_bit m byte)) AND 1 \<noteq> 0 then q else 0)"

definition crc_nibble :: "u32 \<Rightarrow> u8 \<Rightarrow> u32" where
  "crc_nibble crc byte =
     (let q3 = crc_tap 28 3 0x04C11DB7 crc byte;
          q2 = crc_tap 29 2 0x09823B6E crc byte;
          q1 = crc_tap 30 1 0x130476DC crc byte;
          q0 = crc_tap 31 0 0x2608EDB8 crc byte
      in push_bit 4 crc XOR q3 XOR q2 XOR q1 XOR q0)"

definition crc_byte :: "u32 \<Rightarrow> u8 \<Rightarrow> u32" where
  "crc_byte crc byte = crc_nibble (crc_nibble crc byte) (drop_bit 4 byte)"

definition EMAC_CRCCalc :: "u8 list \<Rightarrow> u32" where
  "EMAC_CRCCalc frame_no_fcs = foldl crc_byte 0xFFFFFFFF frame_no_fcs"

definition EMAC_SetHashFilter :: "u8 list \<Rightarrow> bool \<Rightarrow> emac \<Rightarrow> emac" where
  "EMAC_SetHashFilter dstMAC_addr NewState s =
     (let crc = signed_drop_bit 23 (EMAC_CRCCalc (take 6 dstMAC_addr)) AND 0x3F;
          tmp = unat (if crc > 31 then crc - 32 else crc);
          set_reg = (\<lambda>r. if NewState then r OR push_bit tmp 1 else r AND NOT (push_bit tmp 1))
      in if crc > 31 then s\<lparr>HashFilterH := set_reg (HashFilterH s)\<rparr> else s\<lparr>HashFilterL := set_reg (HashFilterL s)\<rparr>)"

section \<open>The reference\<close>

definition crc_bit :: "u32 \<Rightarrow> bool \<Rightarrow> u32" where
  "crc_bit crc b = push_bit 1 crc XOR (if bit crc 31 \<noteq> b then 0x04C11DB7 else 0)"

definition frame_bits :: "u8 list \<Rightarrow> bool list" where
  "frame_bits bs = concat (map (\<lambda>b. map (bit b) [0..<8]) bs)"

lemma crc_tap_bit:
  assumes "n < 32"
  shows "crc_tap n m q crc byte = (if bit crc n \<noteq> bit byte m then q else 0)"
proof -
  have "(x AND 1 \<noteq> 0) = bit x 0" for x :: u32 by (simp add: and_one_eq bit_0 odd_iff_mod_2_eq_one)
  then show ?thesis using assms by (simp add: crc_tap_def bit_simps)
qed

lemma crc_bit_step:
  assumes "j < 32"
  shows "crc_bit (push_bit j c XOR r) b
     = push_bit (j + 1) c XOR (push_bit 1 r XOR (if (bit c (31 - j) \<noteq> bit r 31) \<noteq> b then 0x04C11DB7 else 0))"
proof -
  have "push_bit 1 (push_bit j c) = push_bit (j + 1) c" by (simp only: push_bit_push_bit add.commute)
  moreover have "bit (push_bit j c XOR r) 31 = (bit c (31 - j) \<noteq> bit r 31)" using assms by (auto simp: bit_simps)
  ultimately show ?thesis by (simp only: crc_bit_def push_bit_xor xor.assoc)
qed

text \<open>The generator, shifted at most three times, does not reach the bit that decides the next step.\<close>

lemma crc_nibble_bits: "crc_nibble crc byte = foldl crc_bit crc [bit byte 0, bit byte 1, bit byte 2, bit byte 3]"
proof -
  define d where "d k = (bit crc (31 - k) \<noteq> bit byte k)" for k
  let ?P = "0x04C11DB7 :: u32"
  define r1 r2 r3 where "r1 = (if d 0 then ?P else 0)" and "r2 = push_bit 1 r1 XOR (if d 1 then ?P else 0)"
    and "r3 = push_bit 1 r2 XOR (if d 2 then ?P else 0)"
  note r_def = r1_def r2_def r3_def
  have top: "\<not> bit r1 31" "\<not> bit r2 31" "\<not> bit r3 31"
    by (cases "d 0"; cases "d 1"; cases "d 2"; simp add: r_def)+
  have step: "crc_bit (push_bit k crc XOR r) (bit byte k) = push_bit (k + 1) crc XOR (push_bit 1 r XOR (if d k then ?P else 0))"
    if "k < 4" "\<not> bit r 31" for k r
    using crc_bit_step [of k crc r] that by (simp add: d_def)
  have "foldl crc_bit crc [bit byte 0, bit byte 1, bit byte 2, bit byte 3]
      = push_bit 4 crc XOR (push_bit 1 r3 XOR (if d 3 then ?P else 0))"
    using step [of 0 0] step [of 1 r1] step [of 2 r2] step [of 3 r3] top
    by (simp add: r_def flip: One_nat_def)
  also have "push_bit 1 r3 XOR (if d 3 then ?P else 0)
      = (if d 3 then ?P else 0) XOR (if d 2 then 0x09823B6E else 0) XOR (if d 1 then 0x130476DC else 0) XOR (if d 0 then 0x2608EDB8 else 0)"
    by (cases "d 0"; cases "d 1"; cases "d 2"; cases "d 3"; simp add: r_def)
  finally show ?thesis by (simp add: crc_nibble_def crc_tap_bit Let_def d_def xor.assoc)
qed

lemma crc_byte_bits: "crc_byte crc b = foldl crc_bit crc (map (bit b) [0..<8])"
proof -
  have "map (bit b) [0..<8] = [bit b 0, bit b 1, bit b 2, bit b 3] @ map (bit (drop_bit 4 b)) [0, 1, 2, 3]"
    by (simp add: upt_conv_Cons bit_simps eval_nat_numeral)
  then show ?thesis by (simp only: crc_byte_def crc_nibble_bits foldl_append list.map)
qed

section \<open>Properties\<close>

text \<open>
  C31: The checksum, computed four bits at a time with the multiples of the generator put in by
  four tests, is the one of the bitwise definition: the remainder of the bits of the frame,
  each byte from its lowest bit on, with all ones as the start value.
\<close>

theorem crc_is_ieee: "EMAC_CRCCalc bs = foldl crc_bit 0xFFFFFFFF (frame_bits bs)"
proof -
  have "foldl crc_byte c bs = foldl crc_bit c (frame_bits bs)" for c
    by (induction bs arbitrary: c) (simp_all add: frame_bits_def crc_byte_bits)
  then show ?thesis by (simp add: EMAC_CRCCalc_def)
qed

end
