(* ===== verification/Phy.thy ===== *)
theory Phy
  imports Emac_Ring Emac_Filter Utils
begin

text \<open>
  The PHY, \<^verbatim>\<open>bsp/bsp_phy.c\<close>: which chip answers on the management port, its reset, the negotiation
  with its time limit, and what of it the controller is told; and the start-up of the controller,
  \<^verbatim>\<open>EMAC_Init\<close> of \<^verbatim>\<open>drivers/source/lpc_emac.c\<close> with \<^verbatim>\<open>bsp/bsp.c\<close>. The results are those of
  \<^verbatim>\<open>lpc_types.h\<close>: 1 for success, 0 for an error.
\<close>

section \<open>State\<close>

abbreviation SUCCESS :: int where "SUCCESS \<equiv> 1"
abbreviation ERROR :: int where "ERROR \<equiv> 0"

abbreviation PHY_DP83848C :: int where "PHY_DP83848C \<equiv> 0"
abbreviation PHY_KSZ8041NL :: int where "PHY_KSZ8041NL \<equiv> 1"
abbreviation PHY_DM9161A :: int where "PHY_DM9161A \<equiv> 2"

abbreviation PHY_REG_BMCR :: u8 where "PHY_REG_BMCR \<equiv> 0"
abbreviation PHY_REG_BMSR :: u8 where "PHY_REG_BMSR \<equiv> 1"
abbreviation PHY_REG_IDR1 :: u8 where "PHY_REG_IDR1 \<equiv> 2"
abbreviation PHY_REG_IDR2 :: u8 where "PHY_REG_IDR2 \<equiv> 3"
abbreviation PHY_REG_ANAR :: u8 where "PHY_REG_ANAR \<equiv> 4"

text \<open>
  The board: the controller, the variables of \<^verbatim>\<open>bsp_phy.c\<close> and \<^verbatim>\<open>bsp.c\<close>, and the address of the
  PHY and the frame size of \<^verbatim>\<open>g_EmacConfig\<close>, whose call-backs but \<^verbatim>\<open>PHY_Init\<close> are all null.
\<close>

record board =
  b_emac :: emac
  g_nModelPHY :: int
  g_nAddrPHY :: u32
  bPhyAddr :: u8
  nMaxFrameSize :: u16
  PhyCfg_Mode :: u32
  g_nLastLinkStatus :: u32
  g_luPartID :: u32
  g_luRevision :: u32
  g_luSN :: "u32 list"
  g_llTickCount :: u64
  NVIC_ST_CTRL :: u32
  NVIC_ST_RELOAD :: u32
  NVIC_SHPRI3 :: u32

definition MyMAC :: "u8 list" where
  "MyMAC = [0x1E, 0x30, 0x6C, 0xA2, 0x45, 0x5E]"

definition read_phy :: "hw_env \<Rightarrow> u16 \<Rightarrow> u8 \<Rightarrow> board \<Rightarrow> u16 \<times> board" where
  "read_phy e a r b = (let (v, s) = EMAC_Read_PHY e a r (b_emac b) in (v, b\<lparr>b_emac := s\<rparr>))"

definition on_emac :: "(emac \<Rightarrow> emac) \<Rightarrow> board \<Rightarrow> board" where
  "on_emac f b = b\<lparr>b_emac := f (b_emac b)\<rparr>"

section \<open>The chip\<close>

definition phy_model :: "u16 \<Rightarrow> u16 \<Rightarrow> int option" where
  "phy_model id1 id2 =
     (let w1 = push_bit 16 (ucast id1) :: u32; w2 = ucast id2 :: u32
      in if w1 OR (w2 AND 0xFFF0) = 0x20005C90 AND 0xFFFFFFF0 then Some PHY_DP83848C
         else if w1 OR (w2 AND 0xFC00) = (push_bit 16 0x0022) OR (0x1400 AND 0xFFFFFC00) then Some PHY_KSZ8041NL
         else if w1 OR (w2 AND 0xFFF0) = 0x0181B8A0 AND 0xFFFFFFF0 then Some PHY_DM9161A
         else None)"

fun detect_loop :: "hw_env \<Rightarrow> nat list \<Rightarrow> board \<Rightarrow> int \<times> board" where
  "detect_loop e [] b = (- 1, b\<lparr>bPhyAddr := 0, g_nAddrPHY := 0\<rparr>)"
| "detect_loop e (i # is) b =
     (let b = b\<lparr>bPhyAddr := of_nat i\<rparr>;
          (id1, b) = read_phy e (of_nat i) PHY_REG_IDR1 b;
          (id2, b) = read_phy e (of_nat i) PHY_REG_IDR2 b
      in case phy_model id1 id2 of
           Some m \<Rightarrow> (m, b\<lparr>g_nAddrPHY := of_nat i\<rparr>)
         | None \<Rightarrow> detect_loop e is b)"

definition PHY_Detect :: "hw_env \<Rightarrow> board \<Rightarrow> int \<times> board" where
  "PHY_Detect e = detect_loop e [1..<32]"

section \<open>Reset, link and mode\<close>

abbreviation EMAC_PHY_RESP_TOUT :: nat where "EMAC_PHY_RESP_TOUT \<equiv> 0x10000"

fun reset_loop :: "hw_env \<Rightarrow> u16 \<Rightarrow> nat \<Rightarrow> board \<Rightarrow> int \<times> board" where
  "reset_loop e phyadd tout b =
     (let (regv, b) = read_phy e phyadd PHY_REG_BMCR b
      in if regv AND (0x8000 OR 0x0800) = 0 then (SUCCESS, b)
         else (case tout of 0 \<Rightarrow> (ERROR, b) | Suc t \<Rightarrow> reset_loop e phyadd t b))"

declare reset_loop.simps [simp del]

definition PHY_Reset :: "hw_env \<Rightarrow> u16 \<Rightarrow> board \<Rightarrow> int \<times> board" where
  "PHY_Reset e phyadd b =
     reset_loop e phyadd EMAC_PHY_RESP_TOUT (on_emac (EMAC_Write_PHY phyadd PHY_REG_BMCR 0x8000) b)"

definition PHY_CheckStatus :: "hw_env \<Rightarrow> u16 \<Rightarrow> u32 \<Rightarrow> board \<Rightarrow> int \<times> board" where
  "PHY_CheckStatus e phyadd ulPHYState b =
     (let (regv, b) = read_phy e phyadd PHY_REG_BMSR b;
          tmp = (if ulPHYState = 0 then of_bool (regv AND 0x0004 \<noteq> 0)
                 else if ulPHYState = 1 then of_bool (regv AND 0x8000 \<noteq> 0 \<or> regv AND 0x4000 \<noteq> 0 \<or> regv AND 0x2000 \<noteq> 0)
                 else if ulPHYState = 2 then of_bool (regv AND 0x4000 \<noteq> 0 \<or> regv AND 0x1000 \<noteq> 0)
                 else - 1)
      in (tmp, b))"

definition IsLinkUp :: "hw_env \<Rightarrow> board \<Rightarrow> u32 \<times> board" where
  "IsLinkUp e b = (let (regv, b) = read_phy e (ucast (bPhyAddr b)) PHY_REG_BMSR b in (ucast regv AND 0x0004, b))"

definition GetLinkStatus :: "hw_env \<Rightarrow> board \<Rightarrow> u32 \<times> board" where
  "GetLinkStatus e b =
     (let (regv, b) = IsLinkUp e b
      in if regv \<noteq> g_nLastLinkStatus b then (regv OR 0x8000, b\<lparr>g_nLastLinkStatus := regv\<rparr>)
         else (g_nLastLinkStatus b, b))"

text \<open>
  Waiting for a bit of a register, for at most three seconds from the tick \<open>i\<close> on: whether it was
  seen. The loop ends only if the tick counter goes on.
\<close>

partial_function (option) wait_bit :: "hw_env \<Rightarrow> u16 \<Rightarrow> u8 \<Rightarrow> u16 \<Rightarrow> u32 \<Rightarrow> emac \<Rightarrow> (bool \<times> emac) option" where
  "wait_bit e a r m i s =
     (let (t, s) = BSP_GetTickCount e s
      in if TimeElapsed i (ucast t) < 3000
         then (let (v, s) = EMAC_Read_PHY e a r s in if v AND m \<noteq> 0 then Some (True, s) else wait_bit e a r m i s)
         else Some (False, s))"

definition wait_phy :: "hw_env \<Rightarrow> u16 \<Rightarrow> u8 \<Rightarrow> u16 \<Rightarrow> board \<Rightarrow> (bool \<times> board) option" where
  "wait_phy e a r m b =
     (let (t, s) = BSP_GetTickCount e (b_emac b)
      in map_option (\<lambda>(seen, s). (seen, b\<lparr>b_emac := s\<rparr>)) (wait_bit e a r m (ucast t) s))"

fun link_loop :: "hw_env \<Rightarrow> u16 \<Rightarrow> nat \<Rightarrow> board \<Rightarrow> u16 option \<times> board" where
  "link_loop e phyadd tout b =
     (let (regv, b) = read_phy e phyadd PHY_REG_BMSR b
      in if regv AND 0x0004 \<noteq> 0 then (Some regv, b)
         else (case tout of 0 \<Rightarrow> (None, b) | Suc t \<Rightarrow> link_loop e phyadd t b))"

declare link_loop.simps [simp del]

text \<open>
  The duplex mode is printed in any case, and undefined when no mode with a duplex is offered.
\<close>

definition PHY_UpdateStatus :: "hw_env \<Rightarrow> u16 \<Rightarrow> board \<Rightarrow> (int \<times> board) option" where
  "PHY_UpdateStatus e phyadd b =
     (case link_loop e phyadd EMAC_PHY_RESP_TOUT b of
        (None, b) \<Rightarrow> Some (ERROR, b)
      | (Some regv, b) \<Rightarrow>
          let full = (regv AND 0x4000 \<noteq> 0 \<or> regv AND 0x1000 \<noteq> 0);
              half = (regv AND 0x2000 \<noteq> 0 \<or> regv AND 0x0800 \<noteq> 0);
              b = (if full then on_emac (EMAC_SetFullDuplexMode True) b
                   else if half then on_emac (EMAC_SetFullDuplexMode False) b else b);
              b = (if regv AND 0x8000 \<noteq> 0 \<or> regv AND 0x4000 \<noteq> 0 \<or> regv AND 0x2000 \<noteq> 0 then on_emac (EMAC_SetPHYSpeed True) b
                   else if regv AND 0x1000 \<noteq> 0 \<or> regv AND 0x0800 \<noteq> 0 then on_emac (EMAC_SetPHYSpeed False) b else b)
          in if full \<or> half then Some (SUCCESS, b) else None)"

text \<open>
  \<^verbatim>\<open>PHY_SetMode\<close>: the modes offered to the other side, the mode asked for, then the wait for the
  end of the negotiation that the chip at hand reports in its own register.
\<close>

definition mode_bmcr :: "u32 \<Rightarrow> u16 option" where
  "mode_bmcr m = (if m = 0 then Some 0x1000 else if m = 1 then Some 0x0100 else if m = 2 then Some 0x0000
     else if m = 3 then Some 0x2100 else if m = 4 then Some 0x2000 else None)"

definition wait_negotiation :: "hw_env \<Rightarrow> u16 \<Rightarrow> board \<Rightarrow> (bool \<times> board) option" where
  "wait_negotiation e phyadd b =
     (if g_nModelPHY b = PHY_KSZ8041NL then wait_phy e phyadd 0x1F 0x80 b
      else if g_nModelPHY b = PHY_DP83848C then wait_phy e phyadd 0x10 0x0001 b
      else (let (regv, b) = read_phy e phyadd 0x10 b
            in wait_phy e phyadd 0x11 0x08 (on_emac (EMAC_Write_PHY phyadd 0x10 (regv AND NOT 0x0800)) b)))"

definition PHY_SetMode :: "hw_env \<Rightarrow> u16 \<Rightarrow> u32 \<Rightarrow> board \<Rightarrow> (int \<times> board) option" where
  "PHY_SetMode e phyadd ulPHYMode b = do {
     let b = on_emac (EMAC_Write_PHY phyadd PHY_REG_ANAR 0x01E1) b;
     case mode_bmcr ulPHYMode of None \<Rightarrow> Some (ERROR, b)
     | Some bmcr \<Rightarrow> do {
         let b = on_emac (EMAC_Write_PHY phyadd PHY_REG_BMCR bmcr) b;
         (done1, b) \<leftarrow> (if ulPHYMode = 0
            then (let (link, b) = IsLinkUp e b
                  in if link = 0 then Some (False, b) else wait_phy e phyadd PHY_REG_BMSR 0x0020 b)
            else Some (False, b));
         if g_nModelPHY b \<in> {PHY_KSZ8041NL, PHY_DP83848C, PHY_DM9161A}
         then do {
           (done2, b) \<leftarrow> wait_negotiation e phyadd b;
           if done1 \<or> done2 then PHY_UpdateStatus e phyadd b else Some (ERROR, b) }
         else Some (ERROR, b) } }"

definition PHY_Init :: "hw_env \<Rightarrow> u32 \<Rightarrow> board \<Rightarrow> (int \<times> board) option" where
  "PHY_Init e Mode b =
     (let (m, b) = PHY_Detect e b; b = b\<lparr>g_nModelPHY := m\<rparr>
      in if m < 0 then Some (- 1, b)
         else (let (r, b) = PHY_Reset e (ucast (bPhyAddr b)) b
               in if r = ERROR then Some (- 1, b)
                  else do {
                    (temp, b) \<leftarrow> PHY_SetMode e (ucast (bPhyAddr b)) Mode b;
                    if temp = SUCCESS then Some (SUCCESS, on_emac (setEmacAddr MyMAC) b) else Some (temp, b) }))"

section \<open>The start of the controller\<close>

definition EMAC_clkdiv :: "int list" where
  "EMAC_clkdiv = [4, 6, 8, 10, 14, 20, 28, 36, 40, 44, 48, 52, 56, 60, 64]"

definition EMAC_reset_regs :: "emac \<Rightarrow> emac" where
  "EMAC_reset_regs s =
     set_mac (\<lambda>m. m\<lparr>MAC1 := 2, MAC2 := 0x10 OR 0x20, MAXF := of_nat EMAC_ETH_MAX_FLEN\<rparr>)
       (s\<lparr>powered := True, Command := 8 OR 0x10 OR 0x20 OR 0x40\<rparr>)"

definition EMAC_clock_regs :: "nat \<Rightarrow> u16 \<Rightarrow> emac \<Rightarrow> emac" where
  "EMAC_clock_regs tout nMax s =
     (set_mac (\<lambda>m. m\<lparr>MAXF := ucast nMax, MCFG := (push_bit 2 (of_nat tout AND 0x0F) OR 0x8000) AND NOT 0x8000,
        CLRT := 0x0F OR push_bit 8 0x37, IPGR := 0x12\<rparr>) s)\<lparr>Command := 0x200 OR 0x40\<rparr>"

definition EMAC_enable :: "bool \<Rightarrow> emac \<Rightarrow> emac" where
  "EMAC_enable bIntEn s =
     (let s = tx_descr_init (rx_descr_init s);
          s = s\<lparr>RxFilterCtrl := 1 OR 2 OR 0x20\<rparr>;
          s = (if bIntEn then EMAC_IntCmd (1 OR 2 OR 4 OR 8 OR 0x10 OR 0x20 OR 0x40 OR 0x80) True s else s\<lparr>IntEnable := 8 OR 0x80\<rparr>);
          s = EMAC_RxEnable (EMAC_TxEnable (s\<lparr>IntClear := 0xFFFF\<rparr>))
      in if bIntEn then s\<lparr>irq_on := True\<rparr> else s)"

text \<open>
  \<^verbatim>\<open>EMAC_Init\<close>: a clock divider is looked up, and without one the function ends; the result of
  \<^verbatim>\<open>PHY_Init\<close> is returned, but what follows is done whatever it is.
\<close>

definition EMAC_Init :: "hw_env \<Rightarrow> bool \<Rightarrow> board \<Rightarrow> (int \<times> board) option" where
  "EMAC_Init e bIntEn b = do {
     let b = on_emac EMAC_reset_regs b;
     let tmp = uint (hw_clock e) div 2500000;
     case List.find (\<lambda>i. tmp \<le> EMAC_clkdiv ! i) [0..<length EMAC_clkdiv] of
       None \<Rightarrow> Some (- 1, b)
     | Some i \<Rightarrow> do {
         (tmp, b) \<leftarrow> PHY_Init e (PhyCfg_Mode b) (on_emac (EMAC_clock_regs (i + 1) (nMaxFrameSize b)) b);
         Some (tmp, on_emac (EMAC_enable bIntEn) b) } }"

definition EMAC_DeInit :: "emac \<Rightarrow> emac" where
  "EMAC_DeInit s = s\<lparr>IntEnable := 0, IntClear := 0xFF OR (0x1000 OR 0x2000), Command := 0, powered := False\<rparr>"

definition BSP_EMAC_Init :: "hw_env \<Rightarrow> board \<Rightarrow> (u32 \<times> board) option" where
  "BSP_EMAC_Init e b =
     map_option (\<lambda>(r, b). (of_int r, b)) (EMAC_Init e True (b\<lparr>PhyCfg_Mode := 0, nMaxFrameSize := of_nat EMAC_ETH_MAX_FLEN\<rparr>))"

section \<open>Identification and tick\<close>

text \<open>What the boot code reports: the part, its version and the serial number, or that it fails.\<close>

record iap_env =
  iap_part :: "u32 option"
  iap_boot :: "(u8 \<times> u8) option"
  iap_serial :: "u32 list option"

definition BSP_IAP_Init :: "iap_env \<Rightarrow> board \<Rightarrow> u32 \<times> board" where
  "BSP_IAP_Init i b =
     (let b = b\<lparr>g_luPartID := 0, g_luRevision := 0, g_luSN := [0, 0, 0, 0]\<rparr>
      in case iap_part i of None \<Rightarrow> (0, b)
       | Some p \<Rightarrow> let b = b\<lparr>g_luPartID := p\<rparr>
           in case iap_boot i of None \<Rightarrow> (0, b)
            | Some (major, minor) \<Rightarrow> let b = b\<lparr>g_luRevision := push_bit 8 (ucast major) OR ucast minor\<rparr>
                in case iap_serial i of None \<Rightarrow> (0, b) | Some sn \<Rightarrow> (1, b\<lparr>g_luSN := sn\<rparr>))"

definition SysTickInit :: "u32 \<Rightarrow> board \<Rightarrow> board" where
  "SysTickInit cnts b =
     b\<lparr>NVIC_ST_RELOAD := cnts - 1, NVIC_SHPRI3 := (NVIC_SHPRI3 b AND (24 - 1)) OR push_bit 24 0,
       NVIC_ST_CTRL := (NVIC_ST_CTRL b OR (4 OR 1)) OR 2\<rparr>"

definition BSP_SysTickInit :: "board \<Rightarrow> board" where
  "BSP_SysTickInit b = SysTickInit (120000000 div 1000) (b\<lparr>g_llTickCount := 0\<rparr>)"

definition SysTick_Handler :: "board \<Rightarrow> board" where
  "SysTick_Handler b = b\<lparr>g_llTickCount := g_llTickCount b + 1\<rparr>"

section \<open>What the PHY functions leave alone\<close>

text \<open>The parts of the state that only the controller, or the set-up of the rings, changes.\<close>

definition dma :: "emac \<Rightarrow> u32 \<times> u32 \<times> bytes" where
  "dma s = (RxProduceIndex s, TxConsumeIndex s, eth_ram s)"

named_theorems dma_simps \<open>operations that leave the indices and the memory of the controller alone\<close>

lemma dma_phy [dma_simps]:
  "dma (EMAC_Write_PHY a r v s) = dma s" "dma (snd (EMAC_Read_PHY e a r s)) = dma s" "dma (snd (BSP_GetTickCount e s)) = dma s"
  "dma (setEmacAddr m s) = dma s" "dma (EMAC_SetFullDuplexMode d s) = dma s" "dma (EMAC_SetPHYSpeed d s) = dma s"
  "dma (EMAC_reset_regs s) = dma s" "dma (EMAC_clock_regs t n s) = dma s"
  by (simp_all add: dma_def EMAC_Write_PHY_def EMAC_Read_PHY_def BSP_GetTickCount_def phy_do_def set_mac_def setEmacAddr_def
      EMAC_SetFullDuplexMode_def EMAC_SetPHYSpeed_def EMAC_reset_regs_def EMAC_clock_regs_def Let_def)

lemma dma_read [dma_simps]: "dma (b_emac (snd (read_phy e a r b))) = dma (b_emac b)"
  using dma_phy(2) [of e a r "b_emac b"] by (simp add: read_phy_def case_prod_beta)

lemma dma_read_eq: "read_phy e a r b = (v, b') \<Longrightarrow> dma (b_emac b') = dma (b_emac b)"
  using dma_read [of e a r b] by simp

lemma dma_on_emac: "(\<And>s. dma (f s) = dma s) \<Longrightarrow> dma (b_emac (on_emac f b)) = dma (b_emac b)"
  by (simp add: on_emac_def)

lemma dma_detect_loop [dma_simps]: "dma (b_emac (snd (detect_loop e is b))) = dma (b_emac b)"
  by (induction "is" arbitrary: b) (auto simp: Let_def case_prod_beta dma_read split: option.splits)

lemma dma_reset_loop [dma_simps]: "dma (b_emac (snd (reset_loop e a tout b))) = dma (b_emac b)"
  by (induction tout arbitrary: b) (subst reset_loop.simps, auto dest: dma_read_eq split: prod.splits)+

lemma dma_link_loop [dma_simps]: "dma (b_emac (snd (link_loop e a tout b))) = dma (b_emac b)"
  by (induction tout arbitrary: b) (subst link_loop.simps, auto dest: dma_read_eq split: prod.splits)+

section \<open>The waits end\<close>

text \<open>
  The tick counter goes on: three seconds after any reading are over when another \<open>2 * B + 1\<close>
  operations have been done.
\<close>

definition ticking :: "hw_env \<Rightarrow> nat \<Rightarrow> bool" where
  "ticking e B \<longleftrightarrow> (\<forall>ops tail. length tail = 2 * B + 1
     \<longrightarrow> 3000 \<le> TimeElapsed (ucast (hw_tick e ops)) (ucast (hw_tick e (ops @ tail))))"

lemma wait_bit_ends:
  assumes "ticking e B" and "phy_ops s = start @ tail" and "length tail = 2 * k" and "k \<le> B"
  shows "\<exists>seen s'. wait_bit e a r m (ucast (hw_tick e start)) s = Some (seen, s') \<and> dma s' = dma s"
  using assms(2-4)
proof (induction "B - k" arbitrary: k s tail)
  case 0
  then have "length (tail @ [Tick_read]) = 2 * B + 1" by simp
  with assms(1) have "\<not> TimeElapsed (ucast (hw_tick e start)) (ucast (hw_tick e (start @ tail @ [Tick_read]))) < 3000"
    unfolding ticking_def by (meson linorder_not_le)
  then show ?case using 0(2) dma_phy(3) [of e s]
    by (subst wait_bit.simps) (auto simp: BSP_GetTickCount_def phy_do_def Let_def)
next
  case (Suc n)
  obtain t s1 where t: "BSP_GetTickCount e s = (t, s1)" by fastforce
  obtain v s2 where v: "EMAC_Read_PHY e a r s1 = (v, s2)" by fastforce
  have d: "dma s1 = dma s" "dma s2 = dma s" using dma_phy(3) [of e s] dma_phy(2) [of e a r s1] t v by simp_all
  have ops: "phy_ops s2 = start @ (tail @ [Tick_read, Mii_read a r])"
    using t v Suc.prems(1) by (auto simp: BSP_GetTickCount_def EMAC_Read_PHY_def phy_do_def set_mac_def Let_def)
  have "\<exists>seen s'. wait_bit e a r m (ucast (hw_tick e start)) s2 = Some (seen, s') \<and> dma s' = dma s2"
    by (rule Suc.hyps(1) [where k = "Suc k", OF _ ops]) (use Suc.hyps(2) Suc.prems(2,3) in auto)
  then show ?case using d by (subst wait_bit.simps) (auto simp: t v)
qed

lemma wait_phy_ends:
  assumes "ticking e B"
  shows "\<exists>seen s'. wait_phy e a r m b = Some (seen, b\<lparr>b_emac := s'\<rparr>) \<and> dma s' = dma (b_emac b)"
proof -
  obtain t s1 where t: "BSP_GetTickCount e (b_emac b) = (t, s1)" by fastforce
  then have "t = hw_tick e (phy_ops s1)" "dma s1 = dma (b_emac b)"
    using dma_phy(3) [of e "b_emac b"] by (auto simp: BSP_GetTickCount_def Let_def)
  with wait_bit_ends [OF assms, of s1 "phy_ops s1" "[]" 0 a r m] show ?thesis
    unfolding wait_phy_def t by (auto simp: t)
qed

text \<open>What the PHY offers when its link is up: at least one mode of 10 or 100 Mbit/s over two pairs.\<close>

definition offers_mode :: "hw_env \<Rightarrow> bool" where
  "offers_mode e \<longleftrightarrow> (\<forall>ops a. let v = hw_MRDD e (ops @ [Mii_read a PHY_REG_BMSR])
     in v AND 0x0004 \<noteq> 0 \<longrightarrow> v AND 0x4000 \<noteq> 0 \<or> v AND 0x1000 \<noteq> 0 \<or> v AND 0x2000 \<noteq> 0 \<or> v AND 0x0800 \<noteq> 0)"

lemma read_phy_value: "read_phy e a r b = (v, b') \<Longrightarrow> \<exists>ops. v = hw_MRDD e (ops @ [Mii_read a r])"
  by (auto simp: read_phy_def EMAC_Read_PHY_def phy_do_def Let_def)

lemma link_loop_value:
  "link_loop e a tout b = (Some v, b') \<Longrightarrow> v AND 0x0004 \<noteq> 0 \<and> (\<exists>ops. v = hw_MRDD e (ops @ [Mii_read a PHY_REG_BMSR]))"
  by (induction tout arbitrary: b) (subst (asm) link_loop.simps, auto dest: read_phy_value split: prod.splits if_splits)+

lemma PHY_UpdateStatus_ends:
  assumes "offers_mode e"
  shows "\<exists>r b'. PHY_UpdateStatus e a b = Some (r, b') \<and> r \<in> {ERROR, SUCCESS} \<and> dma (b_emac b') = dma (b_emac b)"
proof (cases "link_loop e a EMAC_PHY_RESP_TOUT b")
  case (Pair v b1)
  have d: "dma (b_emac b1) = dma (b_emac b)" using dma_link_loop [of e a EMAC_PHY_RESP_TOUT b] Pair by simp
  show ?thesis
  proof (cases v)
    case None
    then show ?thesis using Pair d by (simp add: PHY_UpdateStatus_def)
  next
    case (Some regv)
    with Pair link_loop_value assms
    have "regv AND 0x4000 \<noteq> 0 \<or> regv AND 0x1000 \<noteq> 0 \<or> regv AND 0x2000 \<noteq> 0 \<or> regv AND 0x0800 \<noteq> 0"
      unfolding offers_mode_def Let_def by blast
    moreover have "dma (b_emac (on_emac (EMAC_SetFullDuplexMode f) c)) = dma (b_emac c)"
      "dma (b_emac (on_emac (EMAC_SetPHYSpeed f) c)) = dma (b_emac c)" for f c
      by (simp_all add: dma_on_emac dma_simps)
    ultimately show ?thesis using Pair Some d by (simp add: PHY_UpdateStatus_def Let_def)
  qed
qed

lemma wait_phy_cases:
  assumes "ticking e B"
  obtains seen b' where "wait_phy e a r m b = Some (seen, b')" "dma (b_emac b') = dma (b_emac b)"
    "g_nModelPHY b' = g_nModelPHY b"
  using wait_phy_ends [OF assms, of a r m b] by auto

lemma wait_negotiation_ends:
  assumes "ticking e B"
  obtains seen b' where "wait_negotiation e a b = Some (seen, b')" "dma (b_emac b') = dma (b_emac b)"
proof -
  obtain v b1 where r: "read_phy e a 0x10 b = (v, b1)" by fastforce
  let ?b2 = "on_emac (EMAC_Write_PHY a 0x10 (v AND NOT 0x0800)) b1"
  have d: "dma (b_emac ?b2) = dma (b_emac b)" using dma_read_eq [OF r] by (simp add: dma_on_emac dma_simps)
  show thesis
    using wait_phy_cases [OF assms, of a "0x1F" "0x80" b] wait_phy_cases [OF assms, of a "0x10" "0x0001" b]
      wait_phy_cases [OF assms, of a "0x11" "0x08" ?b2] d that
    by (smt (verit) wait_negotiation_def r prod.case Let_def)
qed

lemma IsLinkUp_frame: "IsLinkUp e b = (v, b') \<Longrightarrow> dma (b_emac b') = dma (b_emac b) \<and> g_nModelPHY b' = g_nModelPHY b"
  using dma_read [of e "ucast (bPhyAddr b)" PHY_REG_BMSR b]
  by (auto simp: IsLinkUp_def read_phy_def split: prod.splits)

lemma PHY_SetMode_ends:
  assumes "ticking e B" and "offers_mode e"
  shows "\<exists>r b'. PHY_SetMode e a m b = Some (r, b') \<and> r \<in> {ERROR, SUCCESS} \<and> dma (b_emac b') = dma (b_emac b)"
proof (cases "mode_bmcr m")
  case None
  then show ?thesis by (simp add: PHY_SetMode_def dma_on_emac dma_simps)
next
  case (Some bmcr)
  let ?b = "on_emac (EMAC_Write_PHY a PHY_REG_BMCR bmcr) (on_emac (EMAC_Write_PHY a PHY_REG_ANAR 0x01E1) b)"
  have d: "dma (b_emac ?b) = dma (b_emac b)" by (simp add: dma_on_emac dma_simps)
  obtain link b1 where l: "IsLinkUp e ?b = (link, b1)" by fastforce
  obtain seen b1' where w: "wait_phy e a PHY_REG_BMSR 0x0020 b1 = Some (seen, b1')" "dma (b_emac b1') = dma (b_emac b1)"
    using wait_phy_cases [OF assms(1)] by metis
  obtain done1 b2 where first: "(if m = 0 then (let (link, b) = IsLinkUp e ?b
        in if link = 0 then Some (False, b) else wait_phy e a PHY_REG_BMSR 0x0020 b) else Some (False, ?b)) = Some (done1, b2)"
    and d2: "dma (b_emac b2) = dma (b_emac b)"
    using w IsLinkUp_frame [OF l] d l by (cases "m = 0"; cases "link = 0") auto
  obtain done2 b3 where second: "wait_negotiation e a b2 = Some (done2, b3)" "dma (b_emac b3) = dma (b_emac b)"
    using wait_negotiation_ends [OF assms(1), of a b2] d2 by metis
  show ?thesis
    using PHY_UpdateStatus_ends [OF assms(2), of a b3] d2 second
    by (simp add: PHY_SetMode_def Some first Let_def)
qed

lemma PHY_Init_ends:
  assumes "ticking e B" and "offers_mode e"
  shows "\<exists>r b'. PHY_Init e m b = Some (r, b') \<and> r \<in> {- 1, ERROR, SUCCESS} \<and> dma (b_emac b') = dma (b_emac b)"
proof -
  obtain model b1 where det: "PHY_Detect e b = (model, b1)" by fastforce
  let ?b1 = "b1\<lparr>g_nModelPHY := model\<rparr>"
  have d1: "dma (b_emac b1) = dma (b_emac b)" using dma_detect_loop [of e "[1..<32]" b] det by (simp add: PHY_Detect_def)
  obtain r b2 where res: "PHY_Reset e (ucast (bPhyAddr b1)) ?b1 = (r, b2)" by fastforce
  then have "b2 = snd (reset_loop e (ucast (bPhyAddr b1)) EMAC_PHY_RESP_TOUT
      (on_emac (EMAC_Write_PHY (ucast (bPhyAddr b1)) PHY_REG_BMCR 0x8000) ?b1))"
    by (simp add: PHY_Reset_def)
  then have d2: "dma (b_emac b2) = dma (b_emac b)" using d1 by (simp add: dma_on_emac dma_simps)
  obtain t b3 where mode: "PHY_SetMode e (ucast (bPhyAddr b2)) m b2 = Some (t, b3)" "t \<in> {ERROR, SUCCESS}"
    "dma (b_emac b3) = dma (b_emac b)"
    using PHY_SetMode_ends [OF assms, of "ucast (bPhyAddr b2)" m b2] d2 by metis
  show ?thesis
    using d1 d2 mode by (auto simp: PHY_Init_def det res Let_def dma_on_emac dma_simps)
qed

section \<open>What the interface is told\<close>

text \<open>The registers of the identification answer alike at every reading.\<close>

definition answers_ids :: "hw_env \<Rightarrow> (nat \<Rightarrow> u16 \<times> u16) \<Rightarrow> bool" where
  "answers_ids e ids \<longleftrightarrow> (\<forall>ops i. hw_MRDD e (ops @ [Mii_read (of_nat i) PHY_REG_IDR1]) = fst (ids i)
     \<and> hw_MRDD e (ops @ [Mii_read (of_nat i) PHY_REG_IDR2]) = snd (ids i))"

definition phy_at :: "(nat \<Rightarrow> u16 \<times> u16) \<Rightarrow> nat \<Rightarrow> int option" where
  "phy_at ids i = phy_model (fst (ids i)) (snd (ids i))"

lemma detect_loop_find:
  assumes "answers_ids e ids"
  shows "\<exists>b'. detect_loop e is b = (case List.find (\<lambda>i. phy_at ids i \<noteq> None) is of
       None \<Rightarrow> (- 1, b'\<lparr>bPhyAddr := 0, g_nAddrPHY := 0\<rparr>)
     | Some i \<Rightarrow> (the (phy_at ids i), b'\<lparr>bPhyAddr := of_nat i, g_nAddrPHY := of_nat i\<rparr>))"
proof (induction "is" arbitrary: b)
  case (Cons i "is")
  have v: "fst (read_phy e (of_nat i) PHY_REG_IDR1 c) = fst (ids i)" "fst (read_phy e (of_nat i) PHY_REG_IDR2 c) = snd (ids i)" for c
    using assms by (simp_all add: answers_ids_def read_phy_def EMAC_Read_PHY_def phy_do_def set_mac_def Let_def)
  have keep: "\<exists>s. snd (read_phy e a r c) = c\<lparr>b_emac := s\<rparr>" for a r c by (auto simp: read_phy_def split: prod.splits)
  obtain s1 where s1: "snd (read_phy e (of_nat i) PHY_REG_IDR1 (b\<lparr>bPhyAddr := of_nat i\<rparr>)) = b\<lparr>bPhyAddr := of_nat i, b_emac := s1\<rparr>"
    using keep [of "of_nat i" PHY_REG_IDR1 "b\<lparr>bPhyAddr := of_nat i\<rparr>"] by auto
  obtain s2 where s2: "snd (read_phy e (of_nat i) PHY_REG_IDR2 (b\<lparr>bPhyAddr := of_nat i, b_emac := s1\<rparr>)) = b\<lparr>bPhyAddr := of_nat i, b_emac := s2\<rparr>"
    using keep [of "of_nat i" PHY_REG_IDR2 "b\<lparr>bPhyAddr := of_nat i, b_emac := s1\<rparr>"] by auto
  have step: "detect_loop e (i # is) b = (case phy_at ids i of
      Some m \<Rightarrow> (m, b\<lparr>bPhyAddr := of_nat i, b_emac := s2, g_nAddrPHY := of_nat i\<rparr>)
    | None \<Rightarrow> detect_loop e is (b\<lparr>bPhyAddr := of_nat i, b_emac := s2\<rparr>))"
    by (simp add: case_prod_beta Let_def v phy_at_def, simp only: s1, simp only: s2)
  show ?case
  proof (cases "phy_at ids i")
    case None
    then show ?thesis using Cons.IH [of "b\<lparr>bPhyAddr := of_nat i, b_emac := s2\<rparr>"] step by simp
  next
    case (Some m)
    then show ?thesis unfolding step by (auto intro!: exI [of _ "b\<lparr>b_emac := s2\<rparr>"])
  qed
qed auto

lemma PHY_SetMode_success:
  assumes "PHY_SetMode e a m b = Some (SUCCESS, b')"
  shows "\<exists>c. PHY_UpdateStatus e a c = Some (SUCCESS, b')"
  using assms unfolding PHY_SetMode_def Let_def
  by (auto split: option.splits bind_splits if_splits prod.splits)

lemma PHY_UpdateStatus_success:
  assumes "PHY_UpdateStatus e a c = Some (SUCCESS, b')"
  obtains regv b where "regv AND 0x0004 \<noteq> 0" "\<exists>ops. regv = hw_MRDD e (ops @ [Mii_read a PHY_REG_BMSR])"
    "regv AND 0x4000 \<noteq> 0 \<Longrightarrow> b' = on_emac (EMAC_SetPHYSpeed True) (on_emac (EMAC_SetFullDuplexMode True) b)"
proof (cases "link_loop e a EMAC_PHY_RESP_TOUT c")
  case (Pair v b1)
  with assms obtain regv where "v = Some regv" by (cases v) (auto simp: PHY_UpdateStatus_def)
  with Pair link_loop_value [of e a EMAC_PHY_RESP_TOUT c regv b1] assms that [of regv b1] show thesis
    by (auto simp: PHY_UpdateStatus_def Let_def split: if_splits)
qed

lemma PHY_Init_success:
  assumes "PHY_Init e m b = Some (SUCCESS, b')"
  obtains a c b1 where "PHY_UpdateStatus e a c = Some (SUCCESS, b1)" "b' = on_emac (setEmacAddr MyMAC) b1"
proof -
  have "\<exists>a b0 b1. PHY_SetMode e a m b0 = Some (SUCCESS, b1) \<and> b' = on_emac (setEmacAddr MyMAC) b1"
    using assms unfolding PHY_Init_def Let_def by (auto split: bind_splits if_splits prod.splits)
  then show thesis using PHY_SetMode_success that by metis
qed

lemma rx_descr_init_frame: "TxConsumeIndex (rx_descr_init s) = TxConsumeIndex s" "eth_ram (rx_descr_init s) = eth_ram s"
  by (simp_all add: rx_descr_init_def)

lemma EMAC_enable_fields:
  "RX_DESC_PACKET (EMAC_enable i s) = RX_DESC_PACKET (tx_descr_init (rx_descr_init s))"
  "RX_STAT_INFO (EMAC_enable i s) = RX_STAT_INFO (tx_descr_init (rx_descr_init s))"
  "RxConsumeIndex (EMAC_enable i s) = RxConsumeIndex (tx_descr_init (rx_descr_init s))"
  "RxProduceIndex (EMAC_enable i s) = RxProduceIndex (tx_descr_init (rx_descr_init s))"
  "TX_DESC_PACKET (EMAC_enable i s) = TX_DESC_PACKET (tx_descr_init (rx_descr_init s))"
  "TX_DESC_CTRL (EMAC_enable i s) = TX_DESC_CTRL (tx_descr_init (rx_descr_init s))"
  "TxConsumeIndex (EMAC_enable i s) = TxConsumeIndex (tx_descr_init (rx_descr_init s))"
  "TxProduceIndex (EMAC_enable i s) = TxProduceIndex (tx_descr_init (rx_descr_init s))"
  "TxDescriptorNumber (EMAC_enable i s) = TxDescriptorNumber (tx_descr_init (rx_descr_init s))"
  "eth_ram (EMAC_enable i s) = eth_ram (tx_descr_init (rx_descr_init s))"
  "RxFilterCtrl (EMAC_enable i s) = 0x23"
  unfolding EMAC_enable_def Let_def EMAC_TxEnable_def EMAC_RxEnable_def EMAC_IntCmd_def set_mac_def
  by (simp_all split: if_split)

lemma tx_descr_init_frame:
  "RX_DESC_PACKET (tx_descr_init s) = RX_DESC_PACKET s" "RX_STAT_INFO (tx_descr_init s) = RX_STAT_INFO s"
  "RxConsumeIndex (tx_descr_init s) = RxConsumeIndex s" "RxProduceIndex (tx_descr_init s) = RxProduceIndex s"
  "eth_ram (tx_descr_init s) = eth_ram s"
  by (simp_all add: tx_descr_init_def)

lemma EMAC_enable_ok:
  "rx_ok (rx_descr_init s) \<Longrightarrow> rx_ok (EMAC_enable i s)"
  "tx_ok (tx_descr_init (rx_descr_init s)) \<Longrightarrow> tx_ok (EMAC_enable i s)"
  by (simp_all only: rx_ok_def tx_ok_def EMAC_enable_fields tx_descr_init_frame)

lemma ucast_of_nat_tick: "ucast (of_nat n :: u64) = (of_nat n :: u32)"
  by (rule bit_word_eqI) (simp add: bit_simps)

lemma EMAC_Init_ends:
  assumes "ticking e B" and "offers_mode e"
  shows "\<exists>r b'. EMAC_Init e int_en b = Some (r, b') \<and> r \<in> {- 1, ERROR, SUCCESS}"
proof (cases "List.find (\<lambda>i. uint (hw_clock e) div 2500000 \<le> EMAC_clkdiv ! i) [0..<length EMAC_clkdiv]")
  case None
  then show ?thesis by (simp add: EMAC_Init_def Let_def)
next
  case (Some i)
  let ?b = "on_emac (EMAC_clock_regs (i + 1) (nMaxFrameSize (on_emac EMAC_reset_regs b))) (on_emac EMAC_reset_regs b)"
  obtain r b1 where "PHY_Init e (PhyCfg_Mode (on_emac EMAC_reset_regs b)) ?b = Some (r, b1)" "r \<in> {- 1, ERROR, SUCCESS}"
    using PHY_Init_ends [OF assms, of _ ?b] by blast
  then show ?thesis by (simp only: EMAC_Init_def Let_def Some option.case Option.bind.bind_lunit prod.case) blast
qed

section \<open>Properties\<close>

text \<open>A PHY that answers at address 3 as a KSZ8041NL, has its link up and the negotiation done; every operation takes a second.\<close>

definition sample_ids :: "nat \<Rightarrow> u16 \<times> u16" where
  "sample_ids i = (if of_nat i = (3 :: u16) then (0x0022, 0x1513) else (0xFFFF, 0xFFFF))"

definition sample_reg :: "u16 \<Rightarrow> u8 \<Rightarrow> u16" where
  "sample_reg a r = (if r = PHY_REG_IDR1 then (if a = 3 then 0x0022 else 0xFFFF)
     else if r = PHY_REG_IDR2 then (if a = 3 then 0x1513 else 0xFFFF)
     else if r = PHY_REG_BMCR then 0x1000 else if r = PHY_REG_BMSR then 0x782D else 0xFF)"

definition sample_hw :: hw_env where
  "sample_hw = \<lparr>hw_MRDD = (\<lambda>ops. case last ops of Mii_read a r \<Rightarrow> sample_reg a r | _ \<Rightarrow> 0),
     hw_tick = (\<lambda>ops. of_nat (1001 * length ops)), hw_clock = 120000000\<rparr>"

definition sample_board :: board where
  "sample_board = \<lparr>b_emac = emac_reset, g_nModelPHY = 0, g_nAddrPHY = 0, bPhyAddr = 0, nMaxFrameSize = 0, PhyCfg_Mode = 0,
     g_nLastLinkStatus = 0xFFFFFFFF, g_luPartID = 0, g_luRevision = 0, g_luSN = [0, 0, 0, 0], g_llTickCount = 0,
     NVIC_ST_CTRL = 0, NVIC_ST_RELOAD = 0, NVIC_SHPRI3 = 0\<rparr>"

text \<open>
  C30: The PHY that answers with the identifier of one of the three known chips at the lowest of
  the addresses 1 to 31 is used: the result is the kind of the chip there, and its address is
  kept for all later accesses; without one the result is -1 and the address 0.
\<close>

theorem phy_detected:
  assumes "answers_ids e ids"
  shows "\<exists>b'. PHY_Detect e b = (case List.find (\<lambda>i. phy_at ids i \<noteq> None) [1..<32] of
       None \<Rightarrow> (- 1, b'\<lparr>bPhyAddr := 0, g_nAddrPHY := 0\<rparr>)
     | Some i \<Rightarrow> (the (phy_at ids i), b'\<lparr>bPhyAddr := of_nat i, g_nAddrPHY := of_nat i\<rparr>))"
  unfolding PHY_Detect_def by (rule detect_loop_find [OF assms])

theorem phy_detected_witness:
  "fst (PHY_Detect sample_hw sample_board) = PHY_KSZ8041NL \<and> bPhyAddr (snd (PHY_Detect sample_hw sample_board)) = 3"
proof -
  have "answers_ids sample_hw sample_ids" by (simp add: answers_ids_def sample_hw_def sample_reg_def sample_ids_def)
  moreover have "List.find (\<lambda>i. phy_at sample_ids i \<noteq> None) [1..<32] = Some 3"
    by (simp add: upt_conv_Cons phy_at_def phy_model_def sample_ids_def)
  moreover have "phy_at sample_ids 3 = Some PHY_KSZ8041NL" by (simp add: phy_at_def phy_model_def sample_ids_def)
  ultimately show ?thesis using phy_detected [of sample_hw sample_ids sample_board] by auto
qed


lemma sample_hw_props: "ticking sample_hw 1" "offers_mode sample_hw" "uint (hw_clock sample_hw) < 162500000"
proof -
  have key: "3000 \<le> TimeElapsed t (t + 3003)" for t :: u32
    by (cases "t \<le> t + 3003") (simp_all add: TimeElapsed_def)
  show "ticking sample_hw 1"
    unfolding ticking_def
  proof (intro allI impI)
    fix ops tail :: "phy_op list"
    assume "length tail = 2 * 1 + 1"
    then have "(of_nat (1001 * length (ops @ tail)) :: u32) = of_nat (1001 * length ops) + 3003" by (simp add: algebra_simps)
    with key show "3000 \<le> TimeElapsed (ucast (hw_tick sample_hw ops)) (ucast (hw_tick sample_hw (ops @ tail)))"
      by (simp only: sample_hw_def hw_env.simps ucast_of_nat_tick)
  qed
  show "offers_mode sample_hw" by (simp add: offers_mode_def sample_hw_def sample_reg_def)
qed (simp add: sample_hw_def)


text \<open>With the sample hardware the PHY comes up, from any state.\<close>

lemma sample_read:
  "read_phy sample_hw a r b = (sample_reg a r, b\<lparr>b_emac := snd (EMAC_Read_PHY sample_hw a r (b_emac b))\<rparr>)"
  by (simp add: read_phy_def EMAC_Read_PHY_def phy_do_def set_mac_def sample_hw_def Let_def)

lemma sample_wait:
  assumes "sample_reg a r AND m \<noteq> 0"
  shows "\<exists>s. wait_phy sample_hw a r m b = Some (True, b\<lparr>b_emac := s\<rparr>)"
proof -
  let ?s = "phy_do Tick_read (b_emac b)"
  obtain s1 where s1: "BSP_GetTickCount sample_hw ?s = (hw_tick sample_hw (phy_ops ?s @ [Tick_read]), s1)"
    by (simp add: BSP_GetTickCount_def phy_do_def Let_def)
  have "ucast (hw_tick sample_hw (phy_ops ?s @ [Tick_read])) = (ucast (hw_tick sample_hw (phy_ops ?s)) + 1001 :: u32)"
    by (simp only: sample_hw_def hw_env.simps ucast_of_nat_tick) (simp add: algebra_simps)
  moreover have "TimeElapsed t (t + 1001) < 3000" for t :: u32
    by (cases "t \<le> t + 1001") (simp_all add: TimeElapsed_def)
  moreover obtain s2 where "EMAC_Read_PHY sample_hw a r s1 = (sample_reg a r, s2)"
    by (simp add: EMAC_Read_PHY_def phy_do_def sample_hw_def Let_def)
  ultimately have "wait_bit sample_hw a r m (ucast (hw_tick sample_hw (phy_ops ?s))) ?s = Some (True, s2)"
    using assms by (subst wait_bit.simps) (simp add: s1)
  then have "wait_phy sample_hw a r m b = Some (True, b\<lparr>b_emac := s2\<rparr>)"
    by (simp add: wait_phy_def BSP_GetTickCount_def Let_def)
  then show ?thesis ..
qed

lemma sample_phy_up: "\<exists>b'. PHY_Init sample_hw 0 b = Some (SUCCESS, b')"
proof -
  have regs: "sample_reg 3 PHY_REG_BMCR = 0x1000" "sample_reg 3 PHY_REG_BMSR = 0x782D" "sample_reg 3 0x1F = 0xFF"
    by (simp_all add: sample_reg_def)
  have ids: "answers_ids sample_hw sample_ids" by (simp add: answers_ids_def sample_hw_def sample_reg_def sample_ids_def)
  have find: "List.find (\<lambda>i. phy_at sample_ids i \<noteq> None) [1..<32] = Some 3"
    by (simp add: upt_conv_Cons phy_at_def phy_model_def sample_ids_def)
  have "phy_at sample_ids 3 = Some PHY_KSZ8041NL" by (simp add: phy_at_def phy_model_def sample_ids_def)
  with detect_loop_find [OF ids, of "[1..<32]" b] find obtain b1 where
    det: "PHY_Detect sample_hw b = (PHY_KSZ8041NL, b1\<lparr>bPhyAddr := 3, g_nAddrPHY := 3\<rparr>)" by (auto simp: PHY_Detect_def)
  have reset: "\<exists>s. PHY_Reset sample_hw 3 c = (SUCCESS, c\<lparr>b_emac := s\<rparr>)" for c
    using sample_read [of 3 PHY_REG_BMCR "on_emac (EMAC_Write_PHY 3 PHY_REG_BMCR 0x8000) c"]
    by (auto simp: PHY_Reset_def reset_loop.simps regs on_emac_def)
  have link: "\<exists>s. link_loop sample_hw 3 EMAC_PHY_RESP_TOUT c = (Some 0x782D, c\<lparr>b_emac := s\<rparr>)" for c
    using sample_read [of 3 PHY_REG_BMSR c] by (auto simp: link_loop.simps regs)
  have update: "\<exists>b'. PHY_UpdateStatus sample_hw 3 c = Some (SUCCESS, b')" for c
    using link [of c] by (auto simp: PHY_UpdateStatus_def Let_def)
  have mode: "\<exists>b'. PHY_SetMode sample_hw 3 0 c = Some (SUCCESS, b')" if c: "bPhyAddr c = 3" "g_nModelPHY c = PHY_KSZ8041NL" for c
  proof -
    let ?c = "on_emac (EMAC_Write_PHY 3 PHY_REG_BMCR 0x1000) (on_emac (EMAC_Write_PHY 3 PHY_REG_ANAR 0x01E1) c)"
    obtain s1 where l: "IsLinkUp sample_hw ?c = (4, c\<lparr>b_emac := s1\<rparr>)"
      using sample_read [of 3 PHY_REG_BMSR ?c] c(1) by (auto simp: IsLinkUp_def regs on_emac_def)
    obtain s2 where w1: "wait_phy sample_hw 3 PHY_REG_BMSR 0x0020 (c\<lparr>b_emac := s1\<rparr>) = Some (True, c\<lparr>b_emac := s2\<rparr>)"
      using sample_wait [of 3 PHY_REG_BMSR "0x0020" "c\<lparr>b_emac := s1\<rparr>"] regs by auto
    obtain s3 where w2: "wait_phy sample_hw 3 0x1F 0x80 (c\<lparr>b_emac := s2\<rparr>) = Some (True, c\<lparr>b_emac := s3\<rparr>)"
      using sample_wait [of 3 "0x1F" "0x80" "c\<lparr>b_emac := s2\<rparr>"] regs by auto
    have neg: "wait_negotiation sample_hw 3 (c\<lparr>b_emac := s2\<rparr>) = Some (True, c\<lparr>b_emac := s3\<rparr>)"
      using c(2) w2 by (simp add: wait_negotiation_def)
    show ?thesis using update [of "c\<lparr>b_emac := s3\<rparr>"] c(2) by (simp add: PHY_SetMode_def mode_bmcr_def l w1 neg Let_def)
  qed
  let ?b2 = "b1\<lparr>bPhyAddr := 3, g_nAddrPHY := 3, g_nModelPHY := PHY_KSZ8041NL\<rparr>"
  obtain s where r: "PHY_Reset sample_hw 3 ?b2 = (SUCCESS, ?b2\<lparr>b_emac := s\<rparr>)" using reset by blast
  obtain b' where "PHY_SetMode sample_hw 3 0 (?b2\<lparr>b_emac := s\<rparr>) = Some (SUCCESS, b')" using mode [of "?b2\<lparr>b_emac := s\<rparr>"] by auto
  then show ?thesis using r by (simp add: PHY_Init_def det Let_def)
qed

text \<open>
  Duplex mode and speed do not follow the negotiation. When the PHY reports that it
  is able to do 100 Mbit/s full duplex, then after a successful start the controller is
  set to that, whatever was agreed with the other side; and its station address is the one of
  the driver's own table, not the address of the interface.
\<close>

theorem mode_from_ability:
  assumes "\<forall>ops a. bit (hw_MRDD e (ops @ [Mii_read a PHY_REG_BMSR])) 14" and "PHY_Init e m b = Some (SUCCESS, b')"
  shows "bit (MAC2 (mac (b_emac b'))) 0 \<and> bit (Command (b_emac b')) 10 \<and> IPGT (mac (b_emac b')) = 0x15
    \<and> SUPP (mac (b_emac b')) = 0x100
    \<and> (SA0 (mac (b_emac b')), SA1 (mac (b_emac b')), SA2 (mac (b_emac b'))) = (0x5E45, 0xA26C, 0x301E)"
proof -
  obtain a c b1 where u: "PHY_UpdateStatus e a c = Some (SUCCESS, b1)" "b' = on_emac (setEmacAddr MyMAC) b1"
    using PHY_Init_success [OF assms(2)] .
  obtain regv b2 where r: "\<exists>ops. regv = hw_MRDD e (ops @ [Mii_read a PHY_REG_BMSR])"
    "regv AND 0x4000 \<noteq> 0 \<Longrightarrow> b1 = on_emac (EMAC_SetPHYSpeed True) (on_emac (EMAC_SetFullDuplexMode True) b2)"
    using PHY_UpdateStatus_success [OF u(1)] by metis
  from r(1) assms(1) have "bit regv 14" by auto
  then have "bit (regv AND 0x4000) 14" by (simp add: bit_simps)
  then have "regv AND 0x4000 \<noteq> 0" by auto
  then have b': "b_emac b' = setEmacAddr MyMAC (EMAC_SetPHYSpeed True (EMAC_SetFullDuplexMode True (b_emac b2)))"
    using u(2) r(2) by (simp add: on_emac_def)
  show ?thesis
    unfolding b' by (simp add: setEmacAddr_def EMAC_SetPHYSpeed_def EMAC_SetFullDuplexMode_def set_mac_def MyMAC_def bit_simps)
qed

theorem mode_from_ability_witness:
  "\<exists>b'. PHY_Init sample_hw 0 sample_board = Some (SUCCESS, b') \<and> SUPP (mac (b_emac b')) = 0x100"
proof -
  obtain b' where b': "PHY_Init sample_hw 0 sample_board = Some (SUCCESS, b')" using sample_phy_up by blast
  have "\<forall>ops a. bit (hw_MRDD sample_hw (ops @ [Mii_read a PHY_REG_BMSR])) 14" by (simp add: sample_hw_def sample_reg_def)
  from mode_from_ability [OF this b'] b' show ?thesis by blast
qed

end
