(* ===== verification/Ethernet.thy ===== *)
theory Ethernet
  imports Phy
begin

text \<open>
  The network interface, \<^verbatim>\<open>lwip-port/lpc407x/netif/ethernetif.c\<close>: its start, the packets it sends
  and the frames it passes to the stack, and the part of \<^verbatim>\<open>netif_add\<close> of the stack that looks at
  the result of the start.
\<close>

section \<open>State\<close>

text \<open>
  The fields of the interface that the start sets, whether it is in the list of the stack's
  interfaces, and the board behind it.
\<close>

record eth_netif =
  hwaddr :: bytes
  hwaddr_len :: u8
  mtu :: u16
  flags :: u8
  outputs_set :: bool
  listed :: bool
  eth_board :: board

text \<open>What happens to a buffer: it is given to the stack, or it is freed.\<close>

datatype pbuf_call =
    Netif_input "bytes list"
  | Eth_pbuf_free "bytes list"

section \<open>Start\<close>

text \<open>The result, a number of 32 bits, is returned as an \<^verbatim>\<open>err_t\<close> of eight.\<close>

definition low_level_init :: "hw_env \<Rightarrow> bytes \<Rightarrow> eth_netif \<Rightarrow> (int \<times> eth_netif) option" where
  "low_level_init e pMac n = do {
     let n = n\<lparr>hwaddr_len := 6, hwaddr := take 6 pMac, mtu := 1500, flags := 0x02 OR 0x08 OR 0x20 OR 0x04\<rparr>;
     (r, b) \<leftarrow> BSP_EMAC_Init e (eth_board n);
     Some (sint (ucast r :: u8), n\<lparr>eth_board := b\<rparr>) }"

definition ethernetif_init :: "hw_env \<Rightarrow> bytes \<Rightarrow> eth_netif \<Rightarrow> (int \<times> eth_netif) option" where
  "ethernetif_init e pMac n = low_level_init e pMac (n\<lparr>outputs_set := True\<rparr>)"

text \<open>\<^verbatim>\<open>netif_add\<close> as far as it depends on the start: whether it returns the interface.\<close>

definition netif_add :: "hw_env \<Rightarrow> bytes \<Rightarrow> eth_netif \<Rightarrow> (bool \<times> eth_netif) option" where
  "netif_add e pMac n = do {
     (err, n) \<leftarrow> ethernetif_init e pMac (n\<lparr>mtu := 0, flags := 0\<rparr>);
     if err \<noteq> 0 then Some (False, n) else Some (True, n\<lparr>listed := True\<rparr>) }"

section \<open>Packets\<close>

text \<open>The padding is taken off the packet while it is sent.\<close>

definition low_level_output :: "char \<times> char \<Rightarrow> bytes list \<Rightarrow> emac \<Rightarrow> (int \<times> emac) option" where
  "low_level_output w p s = map_option (\<lambda>s. (0, s)) (EMAC_SendPBuf w (snd (pad_down p)) s)"

definition low_level_input :: "(nat \<Rightarrow> bytes list option) \<Rightarrow> emac \<Rightarrow> (bytes list option \<times> emac) option" where
  "low_level_input = EMAC_ReceivePBuf"

text \<open>The type field, behind the padding and the two addresses; it may lie outside the buffer.\<close>

definition eth_type :: "bytes list \<Rightarrow> nat option" where
  "eth_type p = (case p of [] \<Rightarrow> None
     | b # _ \<Rightarrow> if 16 \<le> length b then Some (256 * ord (b ! 14) + ord (b ! 15)) else None)"

definition ethernetif_input ::
    "(nat \<Rightarrow> bytes list option) \<Rightarrow> (bytes list \<Rightarrow> int) \<Rightarrow> emac \<Rightarrow> (int \<times> pbuf_call list \<times> emac) option" where
  "ethernetif_input alloc input s = do {
     (p, s) \<leftarrow> low_level_input alloc s;
     case p of None \<Rightarrow> Some (0, [], s)
     | Some p \<Rightarrow> do {
         t \<leftarrow> eth_type p;
         if t \<in> {0x0800, 0x86DD, 0x0806}
         then Some (0, Netif_input p # (if input p \<noteq> 0 then [Eth_pbuf_free p] else []), s)
         else Some (0, [Eth_pbuf_free p], s) } }"

section \<open>Properties\<close>

lemma err_t_of_result: "r \<in> {- 1, ERROR, SUCCESS} \<Longrightarrow> sint (ucast (of_int r :: u32) :: u8) = r"
proof -
  have "sint (ucast (- 1 :: u32) :: u8) = - 1" by code_simp
  then show "r \<in> {- 1, ERROR, SUCCESS} \<Longrightarrow> sint (ucast (of_int r :: u32) :: u8) = r" by auto
qed


lemma sample_start: "\<exists>b'. EMAC_Init sample_hw True b = Some (SUCCESS, b')" if "PhyCfg_Mode b = 0"
proof -
  have find: "List.find (\<lambda>i. uint (hw_clock sample_hw) div 2500000 \<le> EMAC_clkdiv ! i) [0..<length EMAC_clkdiv] = Some 10"
    by (simp add: sample_hw_def EMAC_clkdiv_def upt_conv_Cons)
  let ?b = "on_emac (EMAC_clock_regs (10 + 1) (nMaxFrameSize (on_emac EMAC_reset_regs b))) (on_emac EMAC_reset_regs b)"
  obtain b1 where "PHY_Init sample_hw 0 ?b = Some (SUCCESS, b1)" using sample_phy_up by blast
  moreover have "PhyCfg_Mode (on_emac EMAC_reset_regs b) = 0" using that by (simp add: on_emac_def)
  ultimately have "EMAC_Init sample_hw True b = Some (SUCCESS, on_emac (EMAC_enable True) b1)"
    by (simp only: EMAC_Init_def Let_def find option.case Option.bind.bind_lunit prod.case)
  then show ?thesis ..
qed

text \<open>An interface before its start.\<close>

definition sample_netif :: eth_netif where
  "sample_netif = \<lparr>hwaddr = [], hwaddr_len = 0, mtu = 0, flags = 0, outputs_set = False, listed = False, eth_board = sample_board\<rparr>"


lemma ethernet_content:
  assumes "length crc = 4" and "2 \<le> length frame"
  shows "rx_content (info, frame @ crc) = frame @ take (if even (length frame) then 2 else 1) crc"
proof (cases "even (length frame)")
  case True
  then have "2 * ((length frame + 4 - 2) div 2) = length frame + 2" by (auto elim: evenE)
  with assms True show ?thesis by (simp add: rx_content_def)
next
  case False
  then have "2 * ((length frame + 4 - 2) div 2) = length frame + 1" by (auto elim: oddE)
  with assms False show ?thesis by (simp add: rx_content_def)
qed

text \<open>
  C16: A received frame is handed on once. The oldest frame in the ring, sound and at least as
  long as an Ethernet header, goes into a buffer behind two bytes of padding, followed by one
  or two bytes of its checksum, an odd frame by one; the buffer goes to the stack when the type
  is IP, IPv6 or ARP, and is freed when it is another or the stack refuses it.
\<close>

theorem frame_handed_on:
  assumes "rx_ok s" and "rx_queue s = (info, frame @ crc) # fs" and "rx_good (info, frame @ crc)"
    and "length crc = 4" and "14 \<le> length frame" and "pbuf_ram alloc"
    and "alloc (length frame + (if even (length frame) then 4 else 3)) \<noteq> None"
    and "ty = 256 * ord (frame ! 12) + ord (frame ! 13)"
  shows "\<exists>pad p. length pad = 2 \<and> p = [pad @ frame @ take (if even (length frame) then 2 else 1) crc]
    \<and> ethernetif_input alloc input s = Some (0,
        if ty \<in> {0x0800, 0x86DD, 0x0806} then Netif_input p # (if input p \<noteq> 0 then [Eth_pbuf_free p] else []) else [Eth_pbuf_free p],
        EMAC_UpdateRxConsumeIndex s)"
proof -
  let ?f = "(info, frame @ crc)"
  have c: "rx_content ?f = frame @ take (if even (length frame) then 2 else 1) crc"
    using ethernet_content assms(4,5) by simp
  have len: "length (rx_content ?f) + 2 = length frame + (if even (length frame) then 4 else 3)"
    unfolding c using assms(4) by simp
  obtain b where b: "alloc (length (rx_content ?f) + 2) = Some [b]" "length b = length (rx_content ?f) + 2"
    using assms(6,7) unfolding len pbuf_ram_def by blast
  let ?p = "[take 2 b @ rx_content ?f]"
  have recv: "EMAC_ReceivePBuf alloc s = Some (Some ?p, EMAC_UpdateRxConsumeIndex s)"
    using receive_good [OF assms(1-3) _ assms(6)] assms(4) b(1) by simp
  have pad: "length (take 2 b) = 2" using b(2) by simp
  have "eth_type ?p = Some ty"
    using assms(5,8) pad by (simp add: eth_type_def c nth_append)
  then have "ethernetif_input alloc input s = Some (0,
      if ty \<in> {0x0800, 0x86DD, 0x0806} then Netif_input ?p # (if input ?p \<noteq> 0 then [Eth_pbuf_free ?p] else []) else [Eth_pbuf_free ?p],
      EMAC_UpdateRxConsumeIndex s)"
    by (simp add: ethernetif_input_def low_level_input_def recv)
  with pad c show ?thesis by (intro exI [of _ "take 2 b"] exI [of _ ?p]) simp
qed

theorem frame_handed_on_witness:
  "\<exists>pad. length pad = 2 \<and> ethernetif_input pbuf_zeros (\<lambda>_. 0) (emac_rx 63)
     = Some (0, [Eth_pbuf_free [pad @ zeros 60 @ zeros 2]], EMAC_UpdateRxConsumeIndex (emac_rx 63))"
proof -
  have z: "zeros 64 = zeros 60 @ zeros 4" by (simp add: zeros_def flip: replicate_add)
  have q: "rx_queue (emac_rx 63) = (63, zeros 60 @ zeros 4) # []" using emac_rx_ok(2) [of 63] z by simp
  have good: "rx_good (63, zeros 60 @ zeros 4)" by (simp add: rx_good_def EMAC_RINFO_ERR_MASK_def)
  have ty: "0 = 256 * ord (zeros 60 ! 12) + ord (zeros 60 ! 13)" by (simp add: zeros_def ord_def)
  have "pbuf_zeros (length (zeros 60) + (if even (length (zeros 60)) then 4 else 3)) \<noteq> None" by (simp add: pbuf_zeros_def)
  from frame_handed_on [OF emac_rx_ok(1) q good _ _ pbuf_zeros_ram this ty, of "\<lambda>_. 0"] show ?thesis
    by (auto simp: zeros_def)
qed

text \<open>
  A frame so short that its type field is missing is not dropped: the type is read behind the
  end of the buffer.
\<close>

theorem runt_overreads:
  assumes "rx_ok s" and "rx_queue s = f # fs" and "rx_good f" and "4 \<le> length (snd f)" and "length (snd f) < 16"
    and "pbuf_ram alloc" and "alloc (length (rx_content f) + 2) \<noteq> None"
  shows "ethernetif_input alloc input s = None"
proof -
  obtain b where b: "alloc (length (rx_content f) + 2) = Some [b]" "length b = length (rx_content f) + 2"
    using assms(6,7) unfolding pbuf_ram_def by blast
  have "length (rx_content f) < 14" using assms(4,5) by (simp add: rx_content_def)
  then have "eth_type [take 2 b @ rx_content f] = None" by (simp add: eth_type_def)
  then show ?thesis using receive_good [OF assms(1-4,6)] b by (simp add: ethernetif_input_def low_level_input_def)
qed

lemma pad_down_concat: "2 \<le> length (hd p) \<Longrightarrow> p \<noteq> [] \<Longrightarrow> concat (snd (pad_down p)) = drop 2 (concat p)"
  by (cases p) (simp_all add: pad_down_def)

text \<open>
  C14: What one board sends, another receives. A packet given to the interface, behind its two
  bytes of padding and over any number of buffers, is appended to the frames to be sent; when
  the controller of the other board has stored that frame with a checksum as its oldest one,
  the buffer made of it there holds, behind its own padding, the bytes of the packet.
\<close>

theorem packet_crosses_the_wire:
  assumes "tx_ok a" and "EMAC_GetBufferSts EMAC_TX_BUFF a \<noteq> EMAC_BUFF_FULL"
    and "p \<noteq> []" and "2 \<le> length (hd p)" and "16 \<le> tot_len p" and "tot_len p \<le> 1516"
    and "low_level_output w p a = Some (0, a')"
    and "rx_ok b" and "rx_queue b = (info, last (tx_queue a') @ crc) # fs" and "info AND EMAC_RINFO_ERR_MASK = 0" and "length crc = 4"
    and "pbuf_ram alloc" and "\<forall>n. alloc n \<noteq> None"
  shows "tx_queue a' = tx_queue a @ [last (tx_queue a')]
    \<and> (\<exists>buf b'. low_level_input alloc b = Some (Some [buf], b') \<and> rx_queue b' = fs
         \<and> take (tot_len p - 2) (drop 2 buf) = drop 2 (concat p))"
proof -
  let ?q = "snd (pad_down p)"
  have q: "concat ?q = drop 2 (concat p)" by (rule pad_down_concat [OF assms(4,3)])
  then have "tot_len ?q \<le> 1535" using assms(6) by (simp add: tot_len_def)
  from send_appends [OF assms(1) this assms(2), of w] assms(7) obtain x where
    x: "tx_queue a' = tx_queue a @ [concat ?q @ [x]]" by (auto simp: low_level_output_def)
  let ?f = "(info, last (tx_queue a') @ crc)"
  have data: "snd ?f = concat ?q @ [x] @ crc" "length (concat ?q) = tot_len p - 2" using x q by (simp_all add: tot_len_def)
  have good: "rx_good ?f" using assms(10) by (simp add: rx_good_def)
  have len: "4 \<le> length (snd ?f)" using data assms(11) by simp
  have "alloc (length (rx_content ?f) + 2) \<noteq> None" using assms(13) by blast
  then obtain c where c: "alloc (length (rx_content ?f) + 2) = Some [c]" "length c = length (rx_content ?f) + 2"
    using assms(12) unfolding pbuf_ram_def by blast
  have content: "take (tot_len p - 2) (rx_content ?f) = concat ?q"
    using data assms(11) by (simp add: rx_content_def min_def)
  have "low_level_input alloc b = Some (Some [take 2 c @ rx_content ?f], EMAC_UpdateRxConsumeIndex b)"
    using receive_good [OF assms(8,9) good len assms(12)] c(1) by (simp add: low_level_input_def)
  moreover have "length (take 2 c) = 2" using c(2) by simp
  ultimately show ?thesis
    using x content q rx_queue_Cons(3) [OF assms(8,9)]
    by (intro conjI exI [of _ "take 2 c @ rx_content ?f"] exI [of _ "EMAC_UpdateRxConsumeIndex b"]) simp_all
qed

text \<open>A packet of 59 bytes in two buffers behind its padding, and a board that has just stored 64 bytes.\<close>

definition sample_packet :: "bytes list" where
  "sample_packet = [zeros 16, zeros 45]"

definition emac_holding :: "bytes \<Rightarrow> emac" where
  "emac_holding d = (emac_rx 63)\<lparr>eth_ram := d @ zeros (ETH_RAM_SIZE - 64)\<rparr>"

lemma emac_holding_ok:
  assumes "length d = 64"
  shows "rx_ok (emac_holding d)" "rx_queue (emac_holding d) = [(63, d)]"
proof -
  show "rx_ok (emac_holding d)" using emac_rx_ok(1) [of 63] assms by (simp add: emac_holding_def rx_ok_def ETH_RAM_SIZE_def)
  have "map fst (rx_queue (emac_rx 63)) = [63]" using emac_rx_ok(2) [of 63] by simp
  then have "RxConsumeIndex (emac_rx 63) = 0" "RxProduceIndex (emac_rx 63) = 1" "RX_STAT_INFO (emac_rx 63) ! 0 = 63"
    by (simp_all add: emac_rx_def emac_up_def tx_descr_init_def rx_descr_init_def)
  moreover have "ring_idx 0 1 = [0]" by (simp add: ring_idx_def)
  ultimately show "rx_queue (emac_holding d) = [(63, d)]"
    using assms by (simp add: emac_holding_def rx_queue_def rx_frame_def rx_size_def)
qed

theorem packet_crosses_the_wire_witness:
  "\<exists>a' x buf b'. low_level_output (NUL, NUL) sample_packet emac_up = Some (0, a') \<and> tx_queue a' = [zeros 59 @ [x]]
    \<and> low_level_input pbuf_zeros (emac_holding (zeros 59 @ [x] @ zeros 4)) = Some (Some [buf], b') \<and> take 59 (drop 2 buf) = zeros 59"
proof -
  have room: "EMAC_GetBufferSts EMAC_TX_BUFF emac_up \<noteq> EMAC_BUFF_FULL"
    by (simp add: EMAC_GetBufferSts_def emac_up_def tx_descr_init_def rx_descr_init_def emac_reset_def)
  have p: "sample_packet \<noteq> []" "2 \<le> length (hd sample_packet)" "16 \<le> tot_len sample_packet" "tot_len sample_packet \<le> 1516"
    "drop 2 (concat sample_packet) = zeros 59" "tot_len sample_packet - 2 = 59"
    by (simp_all add: sample_packet_def tot_len_def zeros_def flip: replicate_add)
  have cat: "concat (snd (pad_down sample_packet)) = zeros 59" using pad_down_concat [OF p(2,1)] p(5) by simp
  then have "tot_len (snd (pad_down sample_packet)) \<le> 1535" by (simp add: tot_len_def)
  from send_appends [OF emac_up_ok(2) this room, of "(NUL, NUL)"] obtain a' x where
    a': "low_level_output (NUL, NUL) sample_packet emac_up = Some (0, a')" "tx_queue a' = [zeros 59 @ [x]]"
    using cat emac_up_ok(4) by (auto simp: low_level_output_def)
  let ?d = "zeros 59 @ [x] @ zeros 4"
  have q: "rx_queue (emac_holding ?d) = (63, last (tx_queue a') @ zeros 4) # []" using emac_holding_ok(2) [of ?d] a'(2) by simp
  have good: "(63 :: u32) AND EMAC_RINFO_ERR_MASK = 0" by (simp add: EMAC_RINFO_ERR_MASK_def)
  have mem: "\<forall>n. pbuf_zeros n \<noteq> None" by (simp add: pbuf_zeros_def)
  have ok: "rx_ok (emac_holding ?d)" by (rule emac_holding_ok) simp
  from packet_crosses_the_wire [OF emac_up_ok(2) room p(1-4) a'(1) ok q good _ pbuf_zeros_ram mem] p(5,6) a'
  show ?thesis by fastforce
qed

end
