(* ===== verification/Emac_Irq.thy ===== *)
theory Emac_Irq
  imports Emac_Ring
begin

text \<open>
  The interrupt handler of \<^verbatim>\<open>drivers/source/lpc_emac.c\<close>, the count of received frames it keeps,
  and the error codes it reports. The interrupt is enabled, but the main loop polls.
\<close>

section \<open>The handler\<close>

text \<open>Which call-backs are installed, and the calls made.\<close>

record emac_callbacks =
  pfnErrorReceive :: bool
  pfnTransmitFinish :: bool
  pfnSoftInt :: bool
  pfnWakeup :: bool

datatype irq_call = Error_receive u32 | Transmit_finish | Soft_int | Wakeup_int

definition flag_code :: "u32 \<Rightarrow> (u32 \<times> u32) list \<Rightarrow> u32" where
  "flag_code sts table = foldl (\<lambda>code (flag, err). if sts AND flag \<noteq> 0 then code OR err else code) 0 table"

definition rx_error_code :: "u32 \<Rightarrow> u32" where
  "rx_error_code sts = flag_code sts
     [(0x800000, 0x10), (0x1000000, 0x08), (0x2000000, 0x04), (0x8000000, 0x01), (0x10000000, 0x40), (0x20000000, 0x20), (0x100000, 0x1000)]"

definition tx_error_code :: "u32 \<Rightarrow> u32" where
  "tx_error_code sts = flag_code sts
     [(0x4000000, 0x200), (0x8000000, 0x100), (0x10000000, 0x80), (0x20000000, 0x400), (0x40000000, 0x800)]"

text \<open>
  The error part of a turn for the receiver, which may take its flag back, and for the sender.
\<close>

definition irq_rx :: "emac_callbacks \<Rightarrow> u32 \<Rightarrow> emac \<Rightarrow> (u32 \<times> irq_call list) option" where
  "irq_rx cb int_stat s =
     (if int_stat AND (1 OR 2) \<noteq> 0
      then map_option (\<lambda>sts. let ulErrCode = rx_error_code sts
          in if ulErrCode = 0 then (int_stat AND NOT 2, [])
             else (int_stat, if pfnErrorReceive cb then [Error_receive ulErrCode] else [])) (EMAC_GetRxFrameStatus s)
      else Some (int_stat, []))"

definition irq_tx :: "emac_callbacks \<Rightarrow> u32 \<Rightarrow> emac \<Rightarrow> irq_call list option" where
  "irq_tx cb int_stat s =
     (if int_stat AND (0x10 OR 0x20) \<noteq> 0
      then map_option (\<lambda>sts. if pfnErrorReceive cb then [Error_receive (tx_error_code sts)] else []) (EMAC_GetTxFrameStatus s)
      else Some [])"

text \<open>One turn of the loop, with the enabled interrupts that are pending.\<close>

definition irq_turn :: "emac_callbacks \<Rightarrow> u32 \<Rightarrow> emac \<Rightarrow> (irq_call list \<times> emac) option" where
  "irq_turn cb int_stat s = do {
     let s = s\<lparr>IntClear := int_stat\<rparr>;
     (int_stat, rx_calls) \<leftarrow> irq_rx cb int_stat s;
     tx_calls \<leftarrow> irq_tx cb int_stat s;
     let s = (if int_stat AND 8 \<noteq> 0 then s\<lparr>g_lFrameCount := s32 (g_lFrameCount s + 1)\<rparr> else s);
     Some (rx_calls @ tx_calls @ (if int_stat AND 0x40 \<noteq> 0 \<and> pfnTransmitFinish cb then [Transmit_finish] else [])
             @ (if int_stat AND 0x1000 \<noteq> 0 \<and> pfnSoftInt cb then [Soft_int] else [])
             @ (if int_stat AND 0x2000 \<noteq> 0 \<and> pfnWakeup cb then [Wakeup_int] else []), s) }"

text \<open>The loop over the readings of the status register; behind the last one nothing is pending.\<close>

fun ENET_IRQHandler :: "emac_callbacks \<Rightarrow> u32 list \<Rightarrow> emac \<Rightarrow> (irq_call list \<times> emac) option" where
  "ENET_IRQHandler cb [] s = Some ([], s)"
| "ENET_IRQHandler cb (IntStatus # rs) s =
     (let int_stat = IntStatus AND IntEnable s
      in if int_stat = 0 then Some ([], s)
         else do {
           (calls, s) \<leftarrow> irq_turn cb int_stat s;
           (rest, s) \<leftarrow> ENET_IRQHandler cb rs s;
           Some (calls @ rest, s) })"

definition GetFrameCount :: "emac \<Rightarrow> int \<times> emac" where
  "GetFrameCount s = (let nCount = g_lFrameCount s
     in (nCount, if nCount > 0 then s\<lparr>g_lFrameCount := nCount - 1\<rparr> else s))"

section \<open>The count\<close>

text \<open>The pending interrupts that are served, and how many of them report a frame.\<close>

definition served :: "u32 \<Rightarrow> u32 list \<Rightarrow> u32 list" where
  "served enable rs = takeWhile (\<lambda>r. r \<noteq> 0) (map (\<lambda>r. r AND enable) rs)"

definition frames_reported :: "u32 \<Rightarrow> u32 list \<Rightarrow> nat" where
  "frames_reported enable rs = length (filter (\<lambda>r. r AND 8 \<noteq> 0) (served enable rs))"

lemma and_not_2_and_8: "(r AND - 3) AND 8 = (r :: u32) AND 8"
proof -
  have "- 3 AND 8 = (8 :: u32)" by simp
  then show ?thesis by (simp only: and.assoc)
qed

lemma irq_rx_ends:
  assumes "rx_ok s"
  shows "\<exists>r' calls. irq_rx cb r s = Some (r', calls) \<and> r' AND 8 = r AND 8"
proof -
  obtain sts where "EMAC_GetRxFrameStatus s = Some sts" using assms by (auto simp: EMAC_GetRxFrameStatus_def elem_def rx_ok_def)
  then show ?thesis by (simp add: irq_rx_def Let_def and_not_2_and_8)
qed

lemma irq_tx_ends:
  assumes "length (TX_STAT_INFO s) = 5" and "unat (TxProduceIndex s) < 5"
  shows "\<exists>calls. irq_tx cb r s = Some calls"
  using assms by (simp add: irq_tx_def EMAC_GetTxFrameStatus_def elem_def)

lemma irq_turn_effect:
  assumes "rx_ok s" and "length (TX_STAT_INFO s) = 5" and "unat (TxProduceIndex s) < 5"
  shows "\<exists>calls. irq_turn cb r s = Some (calls, s\<lparr>IntClear := r,
     g_lFrameCount := (if r AND 8 \<noteq> 0 then s32 (g_lFrameCount s + 1) else g_lFrameCount s)\<rparr>)"
proof -
  let ?s = "s\<lparr>IntClear := r\<rparr>"
  have "rx_ok ?s" using assms(1) by (simp add: rx_ok_def)
  then obtain r' rx where rx: "irq_rx cb r ?s = Some (r', rx)" "r' AND 8 = r AND 8"
    using irq_rx_ends by blast
  obtain tx where tx: "irq_tx cb r' ?s = Some tx" using irq_tx_ends [of ?s] assms(2,3) by auto
  show ?thesis
    by (cases "r AND 8 = 0") (simp_all add: irq_turn_def Let_def rx tx)
qed

lemma handler_counts:
  assumes "rx_ok s" and "length (TX_STAT_INFO s) = 5" and "unat (TxProduceIndex s) < 5"
    and "0 \<le> g_lFrameCount s" and "g_lFrameCount s + int (frames_reported (IntEnable s) rs) < 2 ^ 31"
  shows "\<exists>calls c. ENET_IRQHandler cb rs s = Some (calls, s\<lparr>IntClear := c,
     g_lFrameCount := g_lFrameCount s + int (frames_reported (IntEnable s) rs)\<rparr>)"
  using assms
proof (induction rs arbitrary: s)
  case Nil
  then show ?case by (auto simp: frames_reported_def served_def intro!: exI [of _ "IntClear s"])
next
  case (Cons r rs)
  let ?r = "r AND IntEnable s"
  show ?case
  proof (cases "?r = 0")
    case True
    then show ?thesis by (auto simp: frames_reported_def served_def intro!: exI [of _ "IntClear s"])
  next
    case False
    let ?n = "if ?r AND 8 \<noteq> 0 then 1 else 0 :: int"
    let ?s = "s\<lparr>IntClear := ?r, g_lFrameCount := g_lFrameCount s + ?n\<rparr>"
    have count: "int (frames_reported (IntEnable s) (r # rs)) = ?n + int (frames_reported (IntEnable s) rs)"
      using False by (simp add: frames_reported_def served_def)
    obtain calls where turn: "irq_turn cb ?r s = Some (calls, ?s)"
      using irq_turn_effect [OF Cons.prems(1-3), of cb ?r] Cons.prems(4,5) count by (auto split: if_splits)
    have "rx_ok ?s" using Cons.prems(1) by (simp add: rx_ok_def)
    with Cons.IH [of ?s] Cons.prems count obtain calls' c where
      "ENET_IRQHandler cb rs ?s = Some (calls', ?s\<lparr>IntClear := c, g_lFrameCount := g_lFrameCount ?s + int (frames_reported (IntEnable s) rs)\<rparr>)"
      by auto
    with turn False count show ?thesis by (auto simp: Let_def algebra_simps)
  qed
qed

end
