(* ===== verification/Emac_Write.thy ===== *)
theory Emac_Write
  imports Emac_Ring
begin

text \<open>
  The second way of \<^verbatim>\<open>drivers/source/lpc_emac.c\<close> to put a packet into the transmit ring:
  \<^verbatim>\<open>EMAC_WritePacketBuffer\<close> with \<^verbatim>\<open>EMAC_AllocTxBuff\<close>, which waits for room and divides a packet into
  frames of at most \<^verbatim>\<open>MAXF\<close> bytes. Nothing in the program calls it. What the controller does during a
  pause of the wait is a function between states, \<open>delay\<close>.
\<close>

section \<open>Operations\<close>

text \<open>The packet: its length, and the bytes from its pointer to the end of their object.\<close>

record EMAC_PACKETBUF_Type =
  ulDataLen :: u32
  pbDataBuf :: bytes

partial_function (option) tx_wait :: "(emac \<Rightarrow> emac) \<Rightarrow> emac \<Rightarrow> emac option" where
  "tx_wait delay s = (if EMAC_GetBufferSts EMAC_TX_BUFF s = EMAC_BUFF_FULL then tx_wait delay (delay s) else Some s)"

definition EMAC_AllocTxBuff :: "(emac \<Rightarrow> emac) \<Rightarrow> u16 \<Rightarrow> bool \<Rightarrow> emac \<Rightarrow> (u32 \<times> emac) option" where
  "EMAC_AllocTxBuff delay nFrameSize bLastFrame s = do {
     let idx = TxProduceIndex s;
     s \<leftarrow> tx_wait delay s;
     dp \<leftarrow> elem (TX_DESC_PACKET s) idx;
     _ \<leftarrow> elem (TX_DESC_CTRL s) idx;
     let ctrl = ((ucast nFrameSize - 1) AND EMAC_TCTRL_SIZE)
       OR (if bLastFrame then EMAC_TCTRL_INT OR EMAC_TCTRL_LAST else EMAC_TCTRL_INT);
     Some (dp, s\<lparr>TX_DESC_CTRL := (TX_DESC_CTRL s)[unat idx := ctrl]\<rparr>) }"

text \<open>
  The copy of a frame, two bytes at a time: what is written, the source behind it and the
  counter as the loop leaves it. An odd counter wraps around and runs past the source.
\<close>

fun copy_halves :: "u32 \<Rightarrow> bytes \<Rightarrow> (bytes \<times> bytes \<times> u32) option" where
  "copy_halves tmp (a # b # src) =
     (if tmp > 0 then map_option (\<lambda>(out, r). (a # b # out, r)) (copy_halves (tmp - 2) src)
      else Some ([], a # b # src, tmp))"
| "copy_halves tmp src = (if tmp > 0 then None else Some ([], src, tmp))"

text \<open>The loop over the frames; its argument is one more than \<^verbatim>\<open>frame_num\<close>.\<close>

primrec write_frames :: "(emac \<Rightarrow> emac) \<Rightarrow> u32 \<Rightarrow> nat \<Rightarrow> u32 \<Rightarrow> bytes \<Rightarrow> emac \<Rightarrow> emac option" where
  "write_frames delay max_frame_size 0 size' pSource s = Some s"
| "write_frames delay max_frame_size (Suc frame_num) size' pSource s =
     (let tmp = (if frame_num > 0 then max_frame_size else size') in
      if tmp = 0 then Some s
      else do {
        (pDest, s) \<leftarrow> EMAC_AllocTxBuff delay (ucast tmp) (frame_num = 0) s;
        (out, pSource, tmp) \<leftarrow> copy_halves tmp pSource;
        s \<leftarrow> ram_write pDest out s;
        write_frames delay max_frame_size frame_num (size' - tmp) pSource (EMAC_UpdateTxProduceIndex s) })"

text \<open>The number of frames is computed first; a \<^verbatim>\<open>MAXF\<close> of zero makes it a division by zero.\<close>

definition EMAC_WritePacketBuffer :: "(emac \<Rightarrow> emac) \<Rightarrow> EMAC_PACKETBUF_Type \<Rightarrow> emac \<Rightarrow> emac option" where
  "EMAC_WritePacketBuffer delay pDataStruct s =
     (let size' = (ulDataLen pDataStruct + 1) AND 0xFFFE; max_frame_size = MAXF (mac s) in
      if max_frame_size = 0 then None
      else if size' = 0 then Some s
      else write_frames delay max_frame_size (Suc (unat (size' div max_frame_size))) size' (pbDataBuf pDataStruct) s)"

section \<open>Correctness\<close>

lemma unat_small: "n < 2 ^ 32 \<Longrightarrow> unat (word_of_nat n :: u32) = n"
  by (simp add: unsigned_of_nat take_bit_nat_eq_self)

lemma copy_halves_even: "2 * k < 2 ^ 32 \<Longrightarrow> copy_halves (word_of_nat (2 * k)) src
   = (if 2 * k \<le> length src then Some (take (2 * k) src, drop (2 * k) src, 0) else None)"
proof (induction k arbitrary: src)
  case 0
  then show ?case by (cases src rule: remdups_adj.cases) auto
next
  case (Suc k)
  have "unat (word_of_nat (2 * Suc k) :: u32) = 2 * Suc k" by (rule unat_small) (use Suc.prems in simp)
  then have p: "(word_of_nat (2 * Suc k) :: u32) > 0" unfolding word_less_nat_alt by simp
  have d: "(word_of_nat (2 * Suc k) :: u32) - 2 = word_of_nat (2 * k)" by simp
  from Suc.IH Suc.prems have IH: "\<And>src. copy_halves (word_of_nat (2 * k)) src
    = (if 2 * k \<le> length src then Some (take (2 * k) src, drop (2 * k) src, 0) else None)" by simp
  show ?case
    by (cases src rule: remdups_adj.cases; use p in \<open>simp only: copy_halves.simps d IH\<close>) auto
qed

text \<open>The length is rounded up to an even number.\<close>

definition even_size :: "nat \<Rightarrow> nat" where
  "even_size n = 2 * ((n + 1) div 2)"

lemma round_up:
  assumes "n < 0xFFFE"
  shows "(word_of_nat n + 1) AND 0xFFFE = (word_of_nat (even_size n) :: u32)"
proof -
  have "unat (word_of_nat (Suc n) :: u32) = Suc n" by (rule unat_small) (use assms in simp)
  then have u: "uint (word_of_nat (Suc n) :: u32) = int (Suc n)" by (metis uint_nat)
  have "uint ((word_of_nat (Suc n) :: u32) AND 0xFFFE) = uint (word_of_nat (Suc n) :: u32) AND 0xFFFE" by (simp add: unsigned_and_eq)
  also have "\<dots> = 2 * (int (Suc n) div 2)" unfolding u by (rule and_even_mask) (use assms in simp_all)
  also have "\<dots> = int (even_size n)" by (simp add: even_size_def zdiv_int)
  also have "\<dots> = uint (word_of_nat (even_size n) :: u32)"
    using unat_small [of "even_size n"] assms by (simp add: uint_nat even_size_def)
  finally have "(word_of_nat (Suc n) :: u32) AND 0xFFFE = word_of_nat (even_size n)" by (simp only: word_uint_eq_iff)
  then show ?thesis by (simp add: add.commute)
qed

text \<open>In each pause the controller sends the oldest frame.\<close>

definition send_oldest :: "emac \<Rightarrow> emac" where
  "send_oldest s = s\<lparr>TxConsumeIndex := (if TxConsumeIndex s + 1 = 5 then 0 else TxConsumeIndex s + 1)\<rparr>"

lemma send_oldest_ok:
  assumes "tx_ok s" and "EMAC_GetBufferSts EMAC_TX_BUFF s = EMAC_BUFF_FULL"
  shows "tx_ok (send_oldest s)" "EMAC_GetBufferSts EMAC_TX_BUFF (send_oldest s) \<noteq> EMAC_BUFF_FULL"
    "tx_queue (send_oldest s) = tl (tx_queue s)"
proof -
  let ?c = "unat (TxConsumeIndex s)" and ?p = "unat (TxProduceIndex s)"
  have cp: "?c < 5" "?p < 5" using assms(1) by (simp_all add: tx_ok_def)
  have c': "unat (TxConsumeIndex (send_oldest s)) = (?c + 1) mod 5" using ring_next [OF cp(1)] by (simp add: send_oldest_def)
  show ok: "tx_ok (send_oldest s)" using assms(1) c' by (simp add: tx_ok_def send_oldest_def)
  have full: "(?p + 1) mod 5 = ?c" using assms by (simp add: tx_full)
  then have "(?p + 1) mod 5 \<noteq> (?c + 1) mod 5" using ring_cases [OF cp(1)] ring_cases [OF cp(2)] by auto
  then show "EMAC_GetBufferSts EMAC_TX_BUFF (send_oldest s) \<noteq> EMAC_BUFF_FULL"
    using c' unfolding tx_full [OF ok] by (simp add: send_oldest_def)
  have "length (tx_queue s) = 4" using tx.overrun(1) [OF assms(1) full] .
  then obtain f fs where q: "tx_queue s = f # fs" by (cases "tx_queue s") auto
  have "tx_queue (send_oldest s) = fs"
    by (rule tx.taken [OF assms(1) q c']) (simp_all add: send_oldest_def tx_frame_def fun_eq_iff)
  then show "tx_queue (send_oldest s) = tl (tx_queue s)" by (simp add: q)
qed

lemma tx_wait_ends:
  assumes "tx_ok s" and "\<And>s. delay s = send_oldest s"
  obtains s1 where "tx_wait delay s = Some s1" "tx_ok s1" "EMAC_GetBufferSts EMAC_TX_BUFF s1 \<noteq> EMAC_BUFF_FULL" "s1 = s\<lparr>TxConsumeIndex := TxConsumeIndex s1\<rparr>"
    "tx_queue s1 = (if EMAC_GetBufferSts EMAC_TX_BUFF s = EMAC_BUFF_FULL then tl (tx_queue s) else tx_queue s)"
proof (cases "EMAC_GetBufferSts EMAC_TX_BUFF s = EMAC_BUFF_FULL")
  case True
  note o = send_oldest_ok [OF assms(1) True]
  have "tx_wait delay (send_oldest s) = Some (send_oldest s)" using o(2) by (subst tx_wait.simps) simp
  then have "tx_wait delay s = Some (send_oldest s)" using True assms(2) by (subst tx_wait.simps) simp
  then show ?thesis by (rule that) (use o True in \<open>simp_all add: send_oldest_def\<close>)
next
  case False
  then have "tx_wait delay s = Some s" by (subst tx_wait.simps) simp
  then show ?thesis by (rule that) (use assms(1) False in simp_all)
qed

lemma ctrl_size:
  assumes "0 < m" and "m \<le> 1536" and "c AND EMAC_TCTRL_SIZE = 0"
  shows "unat ((((ucast (ucast (word_of_nat m :: u32) :: u16) - 1) AND EMAC_TCTRL_SIZE) OR c) AND EMAC_TCTRL_SIZE) = m - 1"
proof -
  have "unat (word_of_nat m :: u32) = m" by (rule unat_small) (use assms in simp)
  then have "(ucast (ucast (word_of_nat m :: u32) :: u16) :: u32) = word_of_nat m"
    by (intro word_unat_eq_iff [THEN iffD2]) (use assms in \<open>simp add: unsigned_ucast_eq unsigned_take_bit_eq take_bit_nat_eq_self\<close>)
  then have "ucast (ucast (word_of_nat m :: u32) :: u16) - 1 = (word_of_nat (m - 1) :: u32)" using assms(1) by (simp add: of_nat_diff)
  then have "(((ucast (ucast (word_of_nat m :: u32) :: u16) - 1) AND EMAC_TCTRL_SIZE) OR c) AND EMAC_TCTRL_SIZE
    = (word_of_nat (m - 1) :: u32) AND EMAC_TCTRL_SIZE"
    by (simp add: bit.conj_disj_distrib2 assms(3) and.assoc)
  also have "\<dots> = word_of_nat (m - 1) AND mask 11" by (simp add: mask_eq_exp_minus_1)
  also have "\<dots> = word_of_nat (take_bit 11 (m - 1))" by (simp add: take_bit_of_nat flip: take_bit_eq_mask)
  also have "take_bit 11 (m - 1) = m - 1" using assms by (simp add: take_bit_nat_eq_self)
  finally show ?thesis using unat_small [of "m - 1"] assms(2) by simp
qed

text \<open>A frame that is put into the ring: control word, bytes and index.\<close>

lemma frame_put:
  assumes ok: "tx_ok s" "rx_ok s" and room: "EMAC_GetBufferSts EMAC_TX_BUFF s \<noteq> EMAC_BUFF_FULL" and p: "p = unat (TxProduceIndex s)"
    and out: "0 < length out" "length out \<le> 1536" and ctrl: "unat (ctrl AND EMAC_TCTRL_SIZE) = length out - 1"
  obtains s' where "ram_write (TX_BUF p) out (s\<lparr>TX_DESC_CTRL := (TX_DESC_CTRL s)[p := ctrl]\<rparr>) = Some s'"
    "tx_ok (EMAC_UpdateTxProduceIndex s')" "tx_queue (EMAC_UpdateTxProduceIndex s') = tx_queue s @ [out]"
    "rx_ok (EMAC_UpdateTxProduceIndex s')" "rx_queue (EMAC_UpdateTxProduceIndex s') = rx_queue s"
proof -
  let ?c = "unat (TxConsumeIndex s)" and ?d = "7680 + 1536 * p"
  have cp: "?c < 5" "p < 5" using ok(1) p by (simp_all add: tx_ok_def)
  have len: "?d + 1536 \<le> length (eth_ram s)" using ok(1) cp by (simp add: tx_ok_def ETH_RAM_SIZE_def)
  then obtain ram where ram: "blit (eth_ram s) (int ?d) out = Some ram" using out(2) by (auto simp: blit_def in_arr_def)
  then have eq: "ram = take ?d (eth_ram s) @ out @ drop (?d + length out) (eth_ram s)" unfolding blit_eq_Some nat_int by blast
  let ?s = "s\<lparr>TX_DESC_CTRL := (TX_DESC_CTRL s)[p := ctrl], eth_ram := ram,
    TxProduceIndex := (if TxProduceIndex s + 1 = 5 then 0 else TxProduceIndex s + 1)\<rparr>"
  have s': "EMAC_UpdateTxProduceIndex (s\<lparr>TX_DESC_CTRL := (TX_DESC_CTRL s)[p := ctrl], eth_ram := ram\<rparr>) = ?s"
    using ok(1) by (simp add: EMAC_UpdateTxProduceIndex_def Let_def tx_ok_def)
  have other: "take n (drop k ram) = take n (drop k (eth_ram s))" if "k + n \<le> ?d \<or> 7680 + 1536 * (p + 1) \<le> k" for k n
    using slice_blit_other [OF ram, of k n] that out(2) by auto
  have p': "unat (TxProduceIndex ?s) = (p + 1) mod 5" using ring_next [of "TxProduceIndex s"] cp(2) unfolding p by simp
  have "drop ?d ram = out @ drop (?d + length out) (eth_ram s)" using len by (simp add: eq)
  then have new: "tx_frame ?s p = out" using ok(1) cp(2) out(1) by (simp add: tx_frame_def tx_ok_def ctrl)
  have old: "tx_frame ?s i = tx_frame s i" if "i < 5" "i \<noteq> p" for i
  proof -
    have "unat ((TX_DESC_CTRL s ! i) AND EMAC_TCTRL_SIZE) < 1536" using ok(1) that by (simp add: tx_ok_def list_all_length)
    then have "take (unat ((TX_DESC_CTRL s ! i) AND EMAC_TCTRL_SIZE) + 1) (drop (7680 + 1536 * i) ram)
       = take (unat ((TX_DESC_CTRL s ! i) AND EMAC_TCTRL_SIZE) + 1) (drop (7680 + 1536 * i) (eth_ram s))"
      using that(2) by (intro other) (cases "i < p"; simp)
    with that show ?thesis by (simp add: tx_frame_def)
  qed
  have frame: "rx_frame ?s i = rx_frame s i" if "i < 5" for i
  proof -
    have "rx_size (RX_STAT_INFO s ! i) \<le> 1536" using ok(2) that by (simp add: rx_ok_def list_all_length)
    with that other [of "1536 * i"] show ?thesis by (simp add: rx_frame_def Let_def)
  qed
  have free: "(p + 1) mod 5 \<noteq> ?c" using ok(1) room p by (auto simp: tx_full)
  have "tx_queue ?s = tx_queue s @ [out]" using tx.put [OF ok(1) _ _ free [unfolded p], of ?s] p' old new unfolding p by simp
  moreover have "rx_queue ?s = rx_queue s" by (rule rx.unchanged [OF ok(2) _ _ frame]) simp_all
  moreover have "length ram = ETH_RAM_SIZE" using length_blit [OF ram] ok(1) by (simp add: tx_ok_def)
  moreover have "tx_ok ?s" using ok(1) cp calculation(3) p' ctrl out by (auto simp: tx_ok_def list_all_length nth_list_update)
  moreover have "rx_ok ?s" using ok(2) calculation(3) by (simp add: rx_ok_def)
  moreover have "ram_write (TX_BUF p) out (s\<lparr>TX_DESC_CTRL := (TX_DESC_CTRL s)[p := ctrl]\<rparr>)
    = Some (s\<lparr>TX_DESC_CTRL := (TX_DESC_CTRL s)[p := ctrl], eth_ram := ram\<rparr>)"
    using ram ram_off_buf(2) [OF cp(2)] by (simp add: ram_write_def)
  ultimately show ?thesis by (intro that [of "s\<lparr>TX_DESC_CTRL := (TX_DESC_CTRL s)[p := ctrl], eth_ram := ram\<rparr>", unfolded s'])
qed

text \<open>The allocation of a descriptor, after the pauses it needs.\<close>

lemma alloc_ready:
  assumes "tx_ok s1" and "tx_wait delay s = Some s1" and "TxProduceIndex s1 = TxProduceIndex s" and "p = unat (TxProduceIndex s)"
  shows "EMAC_AllocTxBuff delay n last_frame s = Some (TX_BUF p, s1\<lparr>TX_DESC_CTRL := (TX_DESC_CTRL s1)[p :=
    ((ucast n - 1) AND EMAC_TCTRL_SIZE) OR (if last_frame then EMAC_TCTRL_INT OR EMAC_TCTRL_LAST else EMAC_TCTRL_INT)]\<rparr>)"
proof -
  have "p < 5" using assms(1,3,4) by (simp add: tx_ok_def)
  then show ?thesis using assms by (simp add: EMAC_AllocTxBuff_def elem_def tx_ok_def Let_def)
qed

text \<open>
  A packet of fewer than \<^verbatim>\<open>MAXF\<close> bytes is appended to the frames to be sent, once the controller has
  made room, with exactly its bytes, rounded up to an even number of them; the other ring is not
  touched. \<^verbatim>\<open>EMAC_SendPBuf\<close>, which the program calls, sends one byte more.
\<close>

theorem written_packet_queued:
  assumes "tx_ok s" and "rx_ok s" and "\<And>s. delay s = send_oldest s" and "unat (MAXF (mac s)) \<le> 1536"
    and "0 < n" and "even_size n < unat (MAXF (mac s))" and "even_size n \<le> length data"
  shows "\<exists>s'. EMAC_WritePacketBuffer delay \<lparr>ulDataLen = word_of_nat n, pbDataBuf = data\<rparr> s = Some s'
    \<and> tx_queue s' = (if EMAC_GetBufferSts EMAC_TX_BUFF s = EMAC_BUFF_FULL then tl (tx_queue s) else tx_queue s) @ [take (even_size n) data]
    \<and> tx_ok s' \<and> rx_ok s' \<and> rx_queue s' = rx_queue s"
proof -
  let ?m = "even_size n" and ?w = "word_of_nat (even_size n) :: u32" and ?p = "unat (TxProduceIndex s)"
  have m: "0 < ?m" "?m \<le> 1536" "n < 0xFFFE" "?m = 2 * ((n + 1) div 2)" using assms(4-6) by (auto simp: even_size_def)
  have w: "unat ?w = ?m" by (rule unat_small) (use m in simp)
  have mx: "MAXF (mac s) \<noteq> 0" using assms(6) by auto
  have w0: "?w \<noteq> 0" using w m(1) by auto
  have "unat (?w div MAXF (mac s)) = 0" using assms(6) w by (simp add: unat_div)
  then have packet: "EMAC_WritePacketBuffer delay \<lparr>ulDataLen = word_of_nat n, pbDataBuf = data\<rparr> s
    = write_frames delay (MAXF (mac s)) (Suc 0) ?w data s"
    using round_up [OF m(3)] mx w0 by (simp add: EMAC_WritePacketBuffer_def Let_def)
  from tx_wait_ends [OF assms(1,3)] obtain s1 where s1: "tx_wait delay s = Some s1" "tx_ok s1"
    "EMAC_GetBufferSts EMAC_TX_BUFF s1 \<noteq> EMAC_BUFF_FULL" "s1 = s\<lparr>TxConsumeIndex := TxConsumeIndex s1\<rparr>"
    "tx_queue s1 = (if EMAC_GetBufferSts EMAC_TX_BUFF s = EMAC_BUFF_FULL then tl (tx_queue s) else tx_queue s)" .
  have same: "TxProduceIndex s1 = TxProduceIndex s" "rx_ok s1" "rx_queue s1 = rx_queue s"
    using assms(2) by (subst s1(4), simp add: rx_ok_def rx_queue_def rx_frame_def [abs_def])+
  let ?out = "take ?m data" and ?c = "((ucast (ucast ?w :: u16) - 1) AND EMAC_TCTRL_SIZE) OR (EMAC_TCTRL_INT OR EMAC_TCTRL_LAST)"
  have out: "length ?out = ?m" using assms(7) by simp
  have ctrl: "unat (?c AND EMAC_TCTRL_SIZE) = length ?out - 1" unfolding out by (rule ctrl_size) (use m in simp_all)
  have "copy_halves ?w data = Some (?out, drop ?m data, 0)"
    using copy_halves_even [of "(n + 1) div 2" data] m(2,4) assms(7) by simp
  moreover have p: "?p = unat (TxProduceIndex s1)" using same(1) by simp
  have fits: "0 < length ?out" "length ?out \<le> 1536" using out m(1,2) by simp_all
  from frame_put [OF s1(2) same(2) s1(3) p fits ctrl] obtain s' where
    "ram_write (TX_BUF ?p) ?out (s1\<lparr>TX_DESC_CTRL := (TX_DESC_CTRL s1)[?p := ?c]\<rparr>) = Some s'"
    "tx_ok (EMAC_UpdateTxProduceIndex s')" "tx_queue (EMAC_UpdateTxProduceIndex s') = tx_queue s1 @ [?out]"
    "rx_ok (EMAC_UpdateTxProduceIndex s')" "rx_queue (EMAC_UpdateTxProduceIndex s') = rx_queue s1" .
  ultimately show ?thesis unfolding packet
    using w0 alloc_ready [OF s1(2,1) same(1) refl, of "ucast ?w" True] s1(5) same(3) by simp
qed

theorem written_packet_queued_witness:
  "\<exists>s'. EMAC_WritePacketBuffer send_oldest \<lparr>ulDataLen = 3, pbDataBuf = ''abcd''\<rparr> (set_mac (\<lambda>m. m\<lparr>MAXF := 1536\<rparr>) emac_up) = Some s'
    \<and> tx_queue s' = [''abcd'']"
proof -
  let ?s = "set_mac (\<lambda>m. m\<lparr>MAXF := 1536\<rparr>) emac_up"
  have "tx_queue ?s = tx_queue emac_up" by (simp add: tx_queue_def tx_frame_def [abs_def] set_mac_def)
  then have s: "tx_ok ?s" "rx_ok ?s" "tx_queue ?s = []" using emac_up_ok by (simp_all add: tx_ok_def rx_ok_def set_mac_def)
  have m: "MAXF (mac ?s) = 1536" by (simp add: set_mac_def)
  have f: "EMAC_GetBufferSts EMAC_TX_BUFF ?s \<noteq> EMAC_BUFF_FULL"
    by (simp add: EMAC_GetBufferSts_def set_mac_def emac_up_def tx_descr_init_def rx_descr_init_def emac_reset_def)
  have e: "even_size 3 = 4" by (simp add: even_size_def)
  from written_packet_queued [OF s(1,2), of send_oldest 3 "''abcd''"] s(3) m f show ?thesis unfolding e by auto
qed

text \<open>
  A packet of \<^verbatim>\<open>MAXF\<close> bytes or more has no result: the counter that is subtracted from the length
  behind each frame was counted down to zero by the copy, so the last frame is as long as the whole packet
  and the copy runs past the end of the source.
\<close>

lemma write_frames_overread:
  assumes "size' > 0" and "even (unat size')" and "even (unat mx)" and "mx > 0" and "length src < k * unat mx + unat size'"
  shows "write_frames delay mx (Suc k) size' src s = None"
  using assms(5)
proof (induction k arbitrary: src s)
  case 0
  have "unat size' < 2 ^ LENGTH(32)" by (rule unsigned_less)
  then have c: "copy_halves size' src = None" using copy_halves_even [of "unat size' div 2" src] assms(2) 0 by simp
  show ?case using assms(1) c by (auto simp: bind_eq_None_conv split: prod.splits)
next
  case (Suc k)
  have "unat mx < 2 ^ LENGTH(32)" by (rule unsigned_less)
  then have c: "copy_halves mx src = (if unat mx \<le> length src then Some (take (unat mx) src, drop (unat mx) src, 0) else None)"
    using copy_halves_even [of "unat mx div 2" src] assms(3) by simp
  have n: "write_frames delay mx (Suc k) size' (drop (unat mx) src) s' = None" if "unat mx \<le> length src" for s'
    by (rule Suc.IH) (use Suc.prems that in simp)
  show ?case
    by (subst write_frames.simps) (use assms(4) c n in \<open>auto simp: Let_def bind_eq_None_conv simp del: write_frames.simps\<close>)
qed

theorem large_packet_overreads:
  assumes "0 < MAXF (mac s)" and "even (unat (MAXF (mac s)))" and "n < 0xFFFE" and "unat (MAXF (mac s)) \<le> even_size n"
    and "length data < even_size n + unat (MAXF (mac s))"
  shows "EMAC_WritePacketBuffer delay \<lparr>ulDataLen = word_of_nat n, pbDataBuf = data\<rparr> s = None"
proof -
  let ?w = "word_of_nat (even_size n) :: u32" and ?mx = "MAXF (mac s)"
  have w: "unat ?w = even_size n" by (rule unat_small) (use assms(3) in \<open>simp add: even_size_def\<close>)
  have ev: "even (unat ?w)" unfolding w by (simp add: even_size_def)
  have p: "0 < unat ?mx" using assms(1) by (simp add: word_less_nat_alt)
  have w0: "?w > 0" using w p assms(4) by (simp add: word_less_nat_alt)
  have "0 < even_size n div unat ?mx" using p assms(4) by (simp add: div_greater_zero_iff)
  then have "1 * unat ?mx \<le> even_size n div unat ?mx * unat ?mx" by (intro mult_right_mono) simp_all
  then have "length data < even_size n div unat ?mx * unat ?mx + even_size n" using assms(5) by linarith
  then have "length data < unat (?w div ?mx) * unat ?mx + unat ?w" unfolding unat_div w .
  then have "write_frames delay ?mx (Suc (unat (?w div ?mx))) ?w data s = None"
    by (rule write_frames_overread [OF w0 ev assms(2,1)])
  moreover have "?w \<noteq> 0" using w0 by auto
  ultimately show ?thesis using round_up [OF assms(3)]
    by (simp add: EMAC_WritePacketBuffer_def Let_def del: write_frames.simps)
qed

theorem large_packet_overreads_witness:
  "EMAC_WritePacketBuffer send_oldest \<lparr>ulDataLen = word_of_nat 1536, pbDataBuf = zeros 1536\<rparr> (set_mac (\<lambda>m. m\<lparr>MAXF := 1536\<rparr>) emac_up) = None"
  by (rule large_packet_overreads) (simp_all add: set_mac_def even_size_def)

end
