(* ===== verification/Board.thy ===== *)
theory Board
  imports Sys_Arch
begin

text \<open>
  The registers of \<^verbatim>\<open>bsp/bsp.c\<close> outside the Ethernet controller: the power of the peripherals, the
  functions and directions of the pins, and the real-time clock, with the functions of the chip drivers
  \<^verbatim>\<open>lpc_clkpwr.c\<close>, \<^verbatim>\<open>lpc_gpio.c\<close>, \<^verbatim>\<open>lpc_pinsel.c\<close> and \<^verbatim>\<open>lpc_rtc.c\<close> that the program calls for them. The time of
  the clock is what \<^verbatim>\<open>getClock\<close> and the log print.
\<close>

section \<open>Registers\<close>

type_synonym u16 = "16 word"

record rtc_regs =
  ILR :: u8
  CCR :: u8
  CIIR :: u8
  AMR :: u8
  SEC :: u8
  MIN' :: u8
  HOUR :: u8
  DOM :: u8
  DOW :: u8
  DOY :: u16
  MONTH :: u8
  YEAR :: u16
  CALIBRATION :: u32

text \<open>\<open>IOCON\<close> is the register of a pin of a port, \<open>DIR\<close> that of the directions of a port; \<open>nvic\<close> are the interrupts let in.\<close>

record chip =
  PCONP :: u32
  IOCON :: "nat \<times> nat \<Rightarrow> u32"
  DIR :: "nat \<Rightarrow> u32"
  rtc :: rtc_regs
  nvic :: "string set"

definition CLKPWR_ConfigPPWR :: "u32 \<Rightarrow> bool \<Rightarrow> chip \<Rightarrow> chip" where
  "CLKPWR_ConfigPPWR PPType NewState c =
     c\<lparr>PCONP := (if NewState then PCONP c OR PPType else PCONP c AND NOT PPType)\<rparr>"

section \<open>Pins\<close>

definition GPIO_Init :: "chip \<Rightarrow> chip" where
  "GPIO_Init = CLKPWR_ConfigPPWR 0x8000 True"

definition BSP_GPIO_Init :: "chip \<Rightarrow> chip" where
  "BSP_GPIO_Init = GPIO_Init"

definition GPIO_SetDir :: "nat \<Rightarrow> u32 \<Rightarrow> bool \<Rightarrow> chip \<Rightarrow> chip" where
  "GPIO_SetDir portNum bitValue dir c =
     (if portNum \<le> 5
      then c\<lparr>DIR := (DIR c)(portNum := if dir then DIR c portNum OR bitValue else DIR c portNum AND NOT bitValue)\<rparr>
      else c)"

datatype PinSel_PinType = PINSEL_PIN_TYPE_D | PINSEL_PIN_TYPE_A | PINSEL_PIN_TYPE_U | PINSEL_PIN_TYPE_I
  | PINSEL_PIN_TYPE_W | PINSEL_PIN_TYPE_UNKNOWN

definition PINSEL_GetPinType :: "nat \<Rightarrow> nat \<Rightarrow> PinSel_PinType" where
  "PINSEL_GetPinType portnum pinnum =
     (if portnum = 0 then
        (if pinnum \<le> 6 \<or> (10 \<le> pinnum \<and> pinnum \<le> 11) \<or> (14 \<le> pinnum \<and> pinnum \<le> 22) then PINSEL_PIN_TYPE_D
         else if pinnum = 12 \<or> pinnum = 13 \<or> (23 \<le> pinnum \<and> pinnum \<le> 26) then PINSEL_PIN_TYPE_A
         else if pinnum = 29 \<or> pinnum = 30 \<or> pinnum = 31 then PINSEL_PIN_TYPE_U
         else if pinnum = 27 \<or> pinnum = 28 then PINSEL_PIN_TYPE_I
         else if pinnum = 7 \<or> pinnum = 8 \<or> pinnum = 9 then PINSEL_PIN_TYPE_W
         else PINSEL_PIN_TYPE_UNKNOWN)
      else if portnum = 1 then
        (if pinnum \<le> 29 then PINSEL_PIN_TYPE_D
         else if pinnum = 30 \<or> pinnum = 31 then PINSEL_PIN_TYPE_A
         else PINSEL_PIN_TYPE_UNKNOWN)
      else if portnum = 2 \<or> portnum = 3 \<or> portnum = 4 then PINSEL_PIN_TYPE_D
      else if portnum = 5 then
        (if pinnum \<le> 1 \<or> pinnum = 4 then PINSEL_PIN_TYPE_D
         else if pinnum = 2 \<or> pinnum = 3 then PINSEL_PIN_TYPE_I
         else PINSEL_PIN_TYPE_UNKNOWN)
      else PINSEL_PIN_TYPE_UNKNOWN)"

text \<open>The register of a pin is found by \<^verbatim>\<open>portnum * 32 + pinnum\<close>; a pin above 31 would be one of the next port.\<close>

definition PINSEL_ConfigPin :: "nat \<Rightarrow> nat \<Rightarrow> nat \<Rightarrow> chip \<Rightarrow> chip \<times> bool" where
  "PINSEL_ConfigPin portnum pinnum funcnum c =
     (if PINSEL_GetPinType portnum pinnum = PINSEL_PIN_TYPE_UNKNOWN then (c, False)
      else (let k = portnum * 32 + pinnum; p = (k div 32, k mod 32)
            in (c\<lparr>IOCON := (IOCON c)(p := (IOCON c p AND NOT 7) OR (of_nat funcnum AND 7))\<rparr>, True)))"

text \<open>
  The attribute of a pin: its direction, its number, its port and its function, from the lowest bit on.
  A shift by the width of an \<^verbatim>\<open>int\<close> or more is undefined.
\<close>

definition PIN_DIR :: "nat \<Rightarrow> nat \<Rightarrow> bool \<Rightarrow> chip \<Rightarrow> chip option" where
  "PIN_DIR port attr dir c =
     (let k = attr div 2 mod 128 in
      if 32 \<le> k then None
      else Some (c\<lparr>DIR := (DIR c)(port := if dir then DIR c port OR push_bit k 1 else DIR c port AND NOT (push_bit k 1))\<rparr>))"

definition PIN_CFG :: "nat \<Rightarrow> nat \<Rightarrow> chip \<Rightarrow> chip option" where
  "PIN_CFG port attr c =
     (let func = attr div 4096 mod 16; c = fst (PINSEL_ConfigPin (attr div 256 mod 16) (attr div 2 mod 128) func c) in
      if func = 0 then PIN_DIR port attr (attr mod 2 = 1) c else Some c)"

definition ENET_TXD0 :: nat where "ENET_TXD0 = 0x1101"
definition ENET_TXD1 :: nat where "ENET_TXD1 = 0x1103"
definition ENET_TX_EN :: nat where "ENET_TX_EN = 0x1109"
definition ENET_CRS :: nat where "ENET_CRS = 0x1111"
definition ENET_RXD0 :: nat where "ENET_RXD0 = 0x1113"
definition ENET_RXD1 :: nat where "ENET_RXD1 = 0x1115"
definition ENET_RX_ER :: nat where "ENET_RX_ER = 0x111D"
definition ENET_REF_CLK :: nat where "ENET_REF_CLK = 0x111F"
definition ENET_MDC :: nat where "ENET_MDC = 0x1121"
definition ENET_MDIO :: nat where "ENET_MDIO = 0x1123"

text \<open>The first part of \<^verbatim>\<open>BSP_EMAC_Init\<close>.\<close>

definition EMAC_pins :: "chip \<Rightarrow> chip option" where
  "EMAC_pins c = do {
     c \<leftarrow> PIN_CFG 1 ENET_TXD0 c;
     c \<leftarrow> PIN_CFG 1 ENET_TXD1 c;
     c \<leftarrow> PIN_CFG 1 ENET_TX_EN c;
     c \<leftarrow> PIN_CFG 1 ENET_CRS c;
     c \<leftarrow> PIN_CFG 1 ENET_RXD0 c;
     c \<leftarrow> PIN_CFG 1 ENET_RXD1 c;
     c \<leftarrow> PIN_CFG 1 ENET_RX_ER c;
     c \<leftarrow> PIN_CFG 1 ENET_REF_CLK c;
     c \<leftarrow> PIN_CFG 1 ENET_MDC c;
     PIN_CFG 1 ENET_MDIO c }"

section \<open>The real-time clock\<close>

datatype RTC_TIMETYPE_Num = RTC_TIMETYPE_SECOND | RTC_TIMETYPE_MINUTE | RTC_TIMETYPE_HOUR | RTC_TIMETYPE_DAYOFWEEK
  | RTC_TIMETYPE_DAYOFMONTH | RTC_TIMETYPE_DAYOFYEAR | RTC_TIMETYPE_MONTH | RTC_TIMETYPE_YEAR

definition RTC_Init :: "chip \<Rightarrow> chip" where
  "RTC_Init c =
     (let c = CLKPWR_ConfigPPWR 0x200 True c
      in c\<lparr>rtc := (rtc c)\<lparr>ILR := 0, CCR := 0, CIIR := 0, AMR := 0xFF, CALIBRATION := 0\<rparr>\<rparr>)"

definition RTC_Cmd :: "bool \<Rightarrow> rtc_regs \<Rightarrow> rtc_regs" where
  "RTC_Cmd NewState r = r\<lparr>CCR := (if NewState then CCR r OR 1 else CCR r AND (NOT 1 AND 0x13))\<rparr>"

fun CIIR_bit :: "RTC_TIMETYPE_Num \<Rightarrow> u8" where
  "CIIR_bit RTC_TIMETYPE_SECOND = 1"
| "CIIR_bit RTC_TIMETYPE_MINUTE = 2"
| "CIIR_bit RTC_TIMETYPE_HOUR = 4"
| "CIIR_bit RTC_TIMETYPE_DAYOFMONTH = 8"
| "CIIR_bit RTC_TIMETYPE_DAYOFWEEK = 16"
| "CIIR_bit RTC_TIMETYPE_DAYOFYEAR = 32"
| "CIIR_bit RTC_TIMETYPE_MONTH = 64"
| "CIIR_bit RTC_TIMETYPE_YEAR = 128"

definition RTC_CntIncrIntConfig :: "RTC_TIMETYPE_Num \<Rightarrow> bool \<Rightarrow> rtc_regs \<Rightarrow> rtc_regs" where
  "RTC_CntIncrIntConfig t NewState r =
     r\<lparr>CIIR := (if NewState then CIIR r OR CIIR_bit t else CIIR r AND (NOT (CIIR_bit t) AND 0xFF))\<rparr>"

fun RTC_GetTime :: "RTC_TIMETYPE_Num \<Rightarrow> rtc_regs \<Rightarrow> u32" where
  "RTC_GetTime RTC_TIMETYPE_SECOND r = ucast (SEC r) AND 0x3F"
| "RTC_GetTime RTC_TIMETYPE_MINUTE r = ucast (MIN' r) AND 0x3F"
| "RTC_GetTime RTC_TIMETYPE_HOUR r = ucast (HOUR r) AND 0x1F"
| "RTC_GetTime RTC_TIMETYPE_DAYOFWEEK r = ucast (DOW r) AND 7"
| "RTC_GetTime RTC_TIMETYPE_DAYOFMONTH r = ucast (DOM r) AND 0x1F"
| "RTC_GetTime RTC_TIMETYPE_DAYOFYEAR r = ucast (DOY r) AND 0x1FF"
| "RTC_GetTime RTC_TIMETYPE_MONTH r = ucast (MONTH r) AND 0xF"
| "RTC_GetTime RTC_TIMETYPE_YEAR r = ucast (YEAR r) AND 0xFFF"

definition RTC_GetFullTime :: "rtc_regs \<Rightarrow> RTC_TIME_Type" where
  "RTC_GetFullTime r = \<lparr>rtc_SEC = unat (SEC r AND 0x3F), rtc_MIN = unat (MIN' r AND 0x3F), rtc_HOUR = unat (HOUR r AND 0x1F),
     rtc_DOM = unat (DOM r AND 0x1F), rtc_DOW = unat (DOW r AND 7), rtc_DOY = unat (DOY r AND 0x1FF), rtc_MONTH = unat (MONTH r AND 0xF),
     rtc_YEAR = unat (YEAR r AND 0xFFF)\<rparr>"

text \<open>\<open>ilr\<close> is a reading of the register of pending interrupts; what is written to it is kept in \<open>ILR\<close>.\<close>

definition RTC_GetIntPending :: "u8 \<Rightarrow> u8 \<Rightarrow> bool" where
  "RTC_GetIntPending ilr IntType \<longleftrightarrow> ilr AND IntType \<noteq> 0"

definition RTC_ClearIntPending :: "u8 \<Rightarrow> u8 \<Rightarrow> rtc_regs \<Rightarrow> rtc_regs" where
  "RTC_ClearIntPending ilr IntType r = r\<lparr>ILR := ilr OR IntType\<rparr>"

definition BSP_RTC_Init :: "chip \<Rightarrow> chip" where
  "BSP_RTC_Init c =
     (let c = RTC_Init c;
          c = c\<lparr>rtc := RTC_Cmd True (rtc c)\<rparr>;
          c = c\<lparr>rtc := RTC_CntIncrIntConfig RTC_TIMETYPE_SECOND True (rtc c)\<rparr>
      in c\<lparr>nvic := insert ''RTC'' (nvic c)\<rparr>)"

definition RTC_IRQHandler :: "u8 \<Rightarrow> chip \<Rightarrow> chip" where
  "RTC_IRQHandler ilr c =
     (if RTC_GetIntPending ilr 1 then c\<lparr>rtc := RTC_ClearIntPending ilr 1 (rtc c)\<rparr> else c)"

section \<open>Properties\<close>

text \<open>\<open>RTC_GetTime\<close> and \<open>RTC_GetFullTime\<close> read the same numbers.\<close>

lemma RTC_GetTime_full:
  "unat (RTC_GetTime RTC_TIMETYPE_SECOND r) = rtc_SEC (RTC_GetFullTime r)"
  "unat (RTC_GetTime RTC_TIMETYPE_MINUTE r) = rtc_MIN (RTC_GetFullTime r)"
  "unat (RTC_GetTime RTC_TIMETYPE_HOUR r) = rtc_HOUR (RTC_GetFullTime r)"
  "unat (RTC_GetTime RTC_TIMETYPE_MONTH r) = rtc_MONTH (RTC_GetFullTime r)"
proof -
  have e: "unat ((ucast w :: u32) AND ucast m) = unat (w AND m)" for w m :: u8
  proof -
    have "(ucast w :: u32) AND ucast m = ucast (w AND m)" by (simp add: unsigned_and_eq)
    moreover have "unat (ucast (w AND m) :: u32) = unat (w AND m)" 
      using unsigned_less [of "w AND m", where 'a = nat] by (simp add: unsigned_ucast_eq unsigned_take_bit_eq take_bit_nat_eq_self)
    ultimately show ?thesis by simp
  qed
  show "unat (RTC_GetTime RTC_TIMETYPE_SECOND r) = rtc_SEC (RTC_GetFullTime r)" "unat (RTC_GetTime RTC_TIMETYPE_MINUTE r) = rtc_MIN (RTC_GetFullTime r)"
    "unat (RTC_GetTime RTC_TIMETYPE_HOUR r) = rtc_HOUR (RTC_GetFullTime r)" "unat (RTC_GetTime RTC_TIMETYPE_MONTH r) = rtc_MONTH (RTC_GetFullTime r)"
    using e [of _ "0x3F"] e [of _ "0x1F"] e [of _ "0xF"] by (simp_all add: RTC_GetFullTime_def)
qed

lemma and_mask_less: "unat (w AND mask k :: u8) < 2 ^ k"
proof -
  have "unat (w AND mask k) = take_bit k (unat w)" by (simp add: unsigned_take_bit_eq flip: take_bit_eq_mask)
  then show ?thesis by simp
qed

lemma full_time_bounds:
  "rtc_SEC (RTC_GetFullTime r) < 64" "rtc_MIN (RTC_GetFullTime r) < 64" "rtc_HOUR (RTC_GetFullTime r) < 32"
  "rtc_DOM (RTC_GetFullTime r) < 32" "rtc_DOW (RTC_GetFullTime r) < 8" "rtc_MONTH (RTC_GetFullTime r) < 16"
  using and_mask_less [of "SEC r" 6] and_mask_less [of "MIN' r" 6] and_mask_less [of "HOUR r" 5] and_mask_less [of "DOM r" 5]
    and_mask_less [of "DOW r" 3] and_mask_less [of "MONTH r" 4]
  by (simp_all add: RTC_GetFullTime_def mask_eq_exp_minus_1)

text \<open>
  The masks of the clock keep every stamp of the log at eight characters, whatever is in the registers,
  so the cut to nine characters with the blank behind it loses nothing.
\<close>

lemma stamp_width: "length (hms (RTC_GetFullTime r)) = 8"
  using full_time_bounds [of r] by (simp add: hms_def fmt_02_two)

text \<open>
  The text of the clock is defined exactly when the registers hold a day and a month of the tables. The
  program never sets the time: a clock without a battery that starts with month 0, or with day of the week
  7, makes \<^verbatim>\<open>getClock\<close> read outside them.
\<close>

theorem clock_text_defined_iff:
  "getClock (RTC_GetFullTime r) n \<noteq> None \<longleftrightarrow> MONTH r AND 0xF \<noteq> 0 \<and> unat (MONTH r AND 0xF) \<le> 12 \<and> unat (DOW r AND 7) < 7"
proof -
  have "1 \<le> unat (MONTH r AND 0xF) \<longleftrightarrow> MONTH r AND 0xF \<noteq> 0" by (simp add: unat_eq_0 Suc_le_eq flip: neq0_conv)
  then show ?thesis by (auto simp: getClock_def RTC_GetFullTime_def)
qed

text \<open>Setting the clock up keeps its time, and so does the interrupt of a second.\<close>

theorem clock_keeps_time:
  "RTC_GetFullTime (rtc (BSP_RTC_Init c)) = RTC_GetFullTime (rtc c)"
  "RTC_GetFullTime (rtc (RTC_IRQHandler ilr c)) = RTC_GetFullTime (rtc c)"
  by (simp_all add: BSP_RTC_Init_def RTC_Init_def RTC_Cmd_def RTC_CntIncrIntConfig_def CLKPWR_ConfigPPWR_def RTC_IRQHandler_def
      RTC_ClearIntPending_def RTC_GetFullTime_def Let_def)

text \<open>
  The handler acknowledges more than it handles: it writes what it reads with its own bit set, and a set bit
  clears the interrupt, so a pending alarm is cleared with the second.
\<close>

theorem handler_clears_alarm:
  assumes "RTC_GetIntPending ilr 1"
  shows "ILR (rtc (RTC_IRQHandler ilr c)) = ilr"
proof -
  have "bit ilr 0" using assms by (simp add: RTC_GetIntPending_def and_one_eq odd_iff_mod_2_eq_one bit_0)
  then have "ilr OR 1 = ilr" by (intro bit_word_eqI) (auto simp: bit_simps bit_1_iff)
  then show ?thesis using assms by (simp add: RTC_IRQHandler_def RTC_ClearIntPending_def)
qed

theorem handler_clears_alarm_witness: "ILR (rtc (RTC_IRQHandler 3 c)) = 3"
  by (rule handler_clears_alarm) (simp add: RTC_GetIntPending_def)

text \<open>
  The set-up of the network pins gives the function 1 to the ten pins of the reduced interface of port 1,
  keeps the other bits of their registers, and leaves every other pin and the directions alone.
\<close>

definition pin_on :: "nat \<times> nat \<Rightarrow> (nat \<times> nat \<Rightarrow> u32) \<Rightarrow> nat \<times> nat \<Rightarrow> u32" where
  "pin_on p f = f(p := (f p AND NOT 7) OR 1)"

lemma pins_on: "distinct ps \<Longrightarrow> fold pin_on ps f q = (if q \<in> set ps then (f q AND NOT 7) OR 1 else f q)"
  by (induction ps arbitrary: f) (auto simp: pin_on_def)

lemma network_pin:
  assumes "pin < 30"
  shows "PIN_CFG 1 (0x1101 + 2 * pin) c = Some (c\<lparr>IOCON := pin_on (1, pin) (IOCON c)\<rparr>)"
proof -
  have d: "(0x1101 + 2 * pin) div 4096 = 1" "(0x1101 + 2 * pin) div 256 = 17" "(0x1101 + 2 * pin) div 2 = 0x880 + pin"
    using assms by (auto intro!: div_nat_eqI)
  have "0x880 + pin = pin + 17 * 128" by simp
  then have "(0x1101 + 2 * pin) div 2 mod 128 = pin" using assms unfolding d by (simp only: mod_mult_self1 mod_less)
  moreover have "(32 + pin) div 32 = 1" "(32 + pin) mod 32 = pin" if "pin < 30" using that by (auto intro: div_nat_eqI)
  ultimately show ?thesis using assms
    by (simp add: d PIN_CFG_def PINSEL_ConfigPin_def PINSEL_GetPinType_def pin_on_def Let_def)
qed

lemmas network_pin_numbers = ENET_TXD0_def ENET_TXD1_def ENET_TX_EN_def ENET_CRS_def ENET_RXD0_def ENET_RXD1_def ENET_RX_ER_def
  ENET_REF_CLK_def ENET_MDC_def ENET_MDIO_def

theorem network_pins_set:
  "\<exists>c'. EMAC_pins c = Some c' \<and> PCONP c' = PCONP c \<and> DIR c' = DIR c \<and> rtc c' = rtc c
    \<and> (\<forall>p. IOCON c' p = (if p \<in> Pair 1 ` {0, 1, 4, 8, 9, 10, 14, 15, 16, 17} then (IOCON c p AND NOT 7) OR 1 else IOCON c p))"
proof -
  let ?pins = "map (Pair 1) [0, 1, 4, 8, 9, 10, 14, 15, 16, 17] :: (nat \<times> nat) list"
  note n = network_pin [of 0] network_pin [of 1] network_pin [of 4] network_pin [of 8] network_pin [of 9] network_pin [of 10]
    network_pin [of 14] network_pin [of 15] network_pin [of 16] network_pin [of 17]
  define F where "F = fold pin_on ?pins (IOCON c)"
  have "EMAC_pins c = Some (c\<lparr>IOCON := F\<rparr>)"
    unfolding EMAC_pins_def network_pin_numbers F_def using n by simp
  moreover have "F p = (if p \<in> Pair 1 ` {0, 1, 4, 8, 9, 10, 14, 15, 16, 17} then (IOCON c p AND NOT 7) OR 1 else IOCON c p)" for p
    using pins_on [of ?pins "IOCON c" p] by (simp add: F_def distinct_map inj_on_def)
  ultimately show ?thesis by simp
qed

end
